(* ===== verification/Prelude.thy ===== *)
theory Prelude
  imports Main "HOL-Library.Word"
begin

text \<open>
  Shared ground of the development: names for the machine types of the firmware, C strings
  and C pointers, the decimal printer and scanner that \<open>snprintf\<close> and \<open>sscanf\<close>
  provide, the contract of an encoder and its decoder, and the collections of facts that the
  component theories hand to the simplifier. Nothing here models a file of the repository.
\<close>

section \<open>Machine types\<close>

type_synonym u8 = "8 word"
type_synonym u16 = "16 word"
type_synonym u32 = "32 word"

text \<open>
  \<open>cstr_simps\<close>: facts about NUL-terminated strings and scanning. \<open>inv_intros\<close>:
  preservation of the components' invariants. \<open>handler_simps\<close>: the equations that open
  an operation of a component when it is called from another one.
\<close>

named_theorems cstr_simps
named_theorems inv_intros
named_theorems handler_simps

text \<open>Converting a small \<open>unsigned int\<close> to \<open>int32_t\<close> keeps its value.\<close>

lemma sint_of_nat_u32 [simp]: "n < 2 ^ 31 \<Longrightarrow> sint (of_nat n :: u32) = int n"
  by (simp add: signed_of_nat signed_take_bit_int_eq_self)

lemma u16_of_nat_inject: "m < 65536 \<Longrightarrow> n < 65536 \<Longrightarrow> (of_nat m :: u16) = of_nat n \<longleftrightarrow> m = n"
  by (simp add: word_of_nat_eq_iff take_bit_eq_mod)

lemma unat_of_nat_u16: "n < 65536 \<Longrightarrow> unat (of_nat n :: u16) = n"
  by (simp add: unat_of_nat)

lemma unat_of_nat_u32: "n < 4294967296 \<Longrightarrow> unat (of_nat n :: u32) = n"
  by (simp add: unat_of_nat)

lemma unat_u8_less: "unat (w :: u8) < 256"
  using unsigned_less [of w, where ?'a = nat] by simp

lemma unat_u16_less: "unat (w :: u16) < 65536"
  using unsigned_less [of w, where ?'a = nat] by simp

lemma unat_u32_less: "unat (w :: u32) < 4294967296"
  using unsigned_less [of w, where ?'a = nat] by simp

lemma unat_u16_add_1: "unat (i :: u16) < 65535 \<Longrightarrow> unat (i + 1) = Suc (unat i)"
  by (simp add: unat_word_ariths)

lemma unat_u16_sub_1: "(i :: u16) \<noteq> 0 \<Longrightarrow> unat (i - 1) = unat i - 1"
  by (simp add: unat_sub word_le_nat_alt Suc_le_eq unat_gt_0)

section \<open>Pointers\<close>

text \<open>
  A pointer field of a C struct is null, points to a live object, or is wild: never
  initialised, or freed. Reading or freeing through a wild pointer is undefined behaviour,
  which operations that can meet it report as \<^term>\<open>None\<close>.
\<close>

datatype 'a cptr = NULL | Wild | Ptr 'a

section \<open>C strings\<close>

abbreviation NUL :: char where
  "NUL \<equiv> CHR 0x00"

definition cstr :: "string \<Rightarrow> string" where
  "cstr s = takeWhile (\<lambda>c. c \<noteq> NUL) s"

definition is_cstr :: "string \<Rightarrow> bool" where
  "is_cstr s = list_all (\<lambda>c. c \<noteq> NUL) s"

lemma cstr_is_cstr [simp, cstr_simps]: "is_cstr (cstr s)"
  by (auto simp: cstr_def is_cstr_def list_all_iff dest: set_takeWhileD)

lemma cstr_id [simp, cstr_simps]: "is_cstr s \<Longrightarrow> cstr s = s"
  by (auto simp: cstr_def is_cstr_def list_all_iff)

lemma cstr_idem [simp, cstr_simps]: "cstr (cstr s) = cstr s"
  by simp

lemma is_cstr_append [simp, cstr_simps]: "is_cstr (s @ t) \<longleftrightarrow> is_cstr s \<and> is_cstr t"
  by (simp add: is_cstr_def)

lemma is_cstr_Cons [simp, cstr_simps]: "is_cstr (c # s) \<longleftrightarrow> c \<noteq> NUL \<and> is_cstr s"
  by (simp add: is_cstr_def)

lemma is_cstr_Nil [simp, cstr_simps]: "is_cstr []"
  by (simp add: is_cstr_def)

lemma is_cstr_take [simp, intro]: "is_cstr s \<Longrightarrow> is_cstr (take n s)"
  by (auto simp: is_cstr_def list_all_iff dest: in_set_takeD)

lemma is_cstr_drop [simp, intro]: "is_cstr s \<Longrightarrow> is_cstr (drop n s)"
  by (auto simp: is_cstr_def list_all_iff dest: in_set_dropD)

text \<open>\<open>strncmp(s, p, n) == 0\<close> for a literal \<open>p\<close> of length \<open>n\<close>.\<close>

definition starts_with :: "string \<Rightarrow> string \<Rightarrow> bool" where
  "starts_with p s = (take (length p) s = p)"

lemma starts_with_append [simp]: "starts_with p (p @ s)"
  by (simp add: starts_with_def)

text \<open>
  \<open>strchr(s, c)\<close> as the text before the first \<open>c\<close> and the text after it, None when
  \<open>c\<close> does not occur.
\<close>

fun split_char :: "char \<Rightarrow> string \<Rightarrow> (string \<times> string) option" where
  "split_char c [] = None"
| "split_char c (x # xs) =
     (if x = c then Some ([], xs)
      else map_option (\<lambda>(a, b). (x # a, b)) (split_char c xs))"

lemma split_char_None [simp]: "split_char c s = None \<longleftrightarrow> c \<notin> set s"
  by (induction s) auto

lemma split_char_absent [simp]: "c \<notin> set s \<Longrightarrow> split_char c s = None"
  by simp

lemma split_char_Some:
  "split_char c s = Some (a, b) \<longleftrightarrow> s = a @ c # b \<and> c \<notin> set a"
proof (induction s arbitrary: a)
  case Nil
  then show ?case by simp
next
  case (Cons x xs)
  then show ?case by (cases a) auto
qed

lemma split_char_append [simp]: "c \<notin> set a \<Longrightarrow> split_char c (a @ c # b) = Some (a, b)"
  by (simp add: split_char_Some)

section \<open>Decimal numbers\<close>

definition digit :: "nat \<Rightarrow> char" where
  "digit n = char_of (48 + n)"

definition is_digit_char :: "char \<Rightarrow> bool" where
  "is_digit_char c = (48 \<le> (of_char c :: nat) \<and> (of_char c :: nat) \<le> 57)"

definition digit_val :: "char \<Rightarrow> nat" where
  "digit_val c = of_char c - 48"

fun show_nat :: "nat \<Rightarrow> string" where
  "show_nat n = (if n < 10 then [digit n] else show_nat (n div 10) @ [digit (n mod 10)])"

declare show_nat.simps [simp del]

text \<open>The value of a run of digits, as an accumulator loop reads it.\<close>

fun dec_val :: "nat \<Rightarrow> string \<Rightarrow> nat" where
  "dec_val acc [] = acc"
| "dec_val acc (c # cs) = dec_val (acc * 10 + digit_val c) cs"

lemma dec_val_append [simp]: "dec_val acc (s @ t) = dec_val (dec_val acc s) t"
  by (induction s arbitrary: acc) auto

lemma of_char_digit: "n < 10 \<Longrightarrow> (of_char (digit n) :: nat) = 48 + n"
  by (simp add: digit_def)

lemma digit_val_digit [simp]: "n < 10 \<Longrightarrow> digit_val (digit n) = n"
  by (simp add: digit_val_def of_char_digit)

lemma is_digit_digit [simp]: "n < 10 \<Longrightarrow> is_digit_char (digit n)"
  by (simp add: is_digit_char_def of_char_digit)

lemma show_nat_nonempty [simp]: "show_nat n \<noteq> []"
  by (subst show_nat.simps) simp

lemma show_nat_digits: "list_all is_digit_char (show_nat n)"
proof (induction n rule: show_nat.induct)
  case (1 n)
  then show ?case by (subst show_nat.simps) simp
qed

lemma dec_val_show_nat [simp]: "dec_val 0 (show_nat n) = n"
proof (induction n rule: show_nat.induct)
  case (1 n)
  then show ?case by (subst show_nat.simps) simp
qed

lemma length_show_nat_le:
  "n < 10 ^ k \<Longrightarrow> 0 < k \<Longrightarrow> length (show_nat n) \<le> k"
proof (induction k arbitrary: n)
  case (Suc k)
  show ?case
  proof (cases "n < 10")
    case True
    then show ?thesis by (subst show_nat.simps) simp
  next
    case False
    with Suc.prems have "n div 10 < 10 ^ k" "0 < k" by (cases k; auto)+
    from Suc.IH [OF this] False show ?thesis by (subst show_nat.simps) simp
  qed
qed simp

lemma digit_char_not:
  "is_digit_char c \<Longrightarrow> c \<noteq> NUL \<and> c \<noteq> CHR '':'' \<and> c \<noteq> CHR ''.'' \<and> c \<noteq> CHR ''/'' \<and>
     c \<noteq> CHR ''-'' \<and> c \<noteq> CHR ''+'' \<and> c \<noteq> CHR '' '' \<and> c \<noteq> CHR ''@''"
  by (auto simp: is_digit_char_def)

lemma is_cstr_digits: "list_all is_digit_char s \<Longrightarrow> is_cstr s"
  by (auto simp: is_cstr_def list_all_iff dest: digit_char_not)

lemma is_cstr_show_nat [simp, cstr_simps]: "is_cstr (show_nat n)"
  by (rule is_cstr_digits [OF show_nat_digits])

definition show_int :: "int \<Rightarrow> string" where
  "show_int i = (if i < 0 then CHR ''-'' # show_nat (nat (- i)) else show_nat (nat i))"

section \<open>Bytes\<close>

text \<open>
  A \<open>char\<close> of the target is an unsigned byte; \<open>byte\<close> reads it as a number of
  eight bits and \<open>chr8\<close> stores such a number back.
\<close>

definition byte :: "char \<Rightarrow> u8" where
  "byte c = of_nat (of_char c)"

definition chr8 :: "u8 \<Rightarrow> char" where
  "chr8 w = char_of (unat w)"

lemma unat_byte [simp]: "unat (byte c) = of_char c"
  by (simp add: byte_def unat_of_nat)

lemma chr8_byte [simp]: "chr8 (byte c) = c"
  by (simp add: chr8_def)

lemma byte_chr8 [simp]: "byte (chr8 w) = w"
  using unsigned_less [of w, where ?'a = nat] by (simp add: byte_def chr8_def)

section \<open>Encoders and decoders\<close>

text \<open>
  The contract of an encoding: decoding what was encoded gives it back, on the values
  \<open>ok\<close> that the encoder accepts.
\<close>

locale codec =
  fixes enc :: "'a \<Rightarrow> 'b"
    and dec :: "'b \<Rightarrow> 'a"
    and ok :: "'a \<Rightarrow> bool"
  assumes dec_enc: "ok x \<Longrightarrow> dec (enc x) = x"
begin

lemma enc_inject: "ok x \<Longrightarrow> ok y \<Longrightarrow> enc x = enc y \<longleftrightarrow> x = y"
  using dec_enc by metis

lemma enc_inj_on: "inj_on enc {x. ok x}"
  by (auto intro!: inj_onI simp: enc_inject)

lemma dec_surj: "ok x \<Longrightarrow> \<exists>y. dec y = x"
  using dec_enc by blast

lemma dec_map_enc: "list_all ok xs \<Longrightarrow> map dec (map enc xs) = xs"
  by (induction xs) (auto simp: dec_enc)

end

end
