(* ===== verification/Strings.thy ===== *)
theory Strings
  imports Prelude
begin

text \<open>
  \<open>src/firmware/main/util/strings.c\<close>: suffix test, end-of-line removal and string
  equality. A \<open>const char *\<close> that may be null is a \<^typ>\<open>string option\<close>.
\<close>

definition string_ends_with :: "string \<Rightarrow> string \<Rightarrow> bool" where
  "string_ends_with str suffix =
     (let str_len = length str; suffix_len = length suffix
      in str_len \<ge> suffix_len \<and> drop (str_len - suffix_len) str = suffix)"

text \<open>
  The loop of \<open>string_chomp\<close> runs from the last index down to 1 and overwrites every CR
  and LF with NUL, so the string that is left ends before the first of them at an index
  above 0; the character at index 0 is never touched.
\<close>

definition is_eol :: "char \<Rightarrow> bool" where
  "is_eol c = (c = CHR 0x0D \<or> c = CHR 0x0A)"

fun chomp_loop :: "nat \<Rightarrow> string \<Rightarrow> string" where
  "chomp_loop 0 line = line"
| "chomp_loop (Suc i) line =
     chomp_loop i (if is_eol (line ! Suc i) then line[Suc i := NUL] else line)"

definition string_chomp :: "string \<Rightarrow> string" where
  "string_chomp line = cstr (chomp_loop (length line - 1) line)"

definition string_is_equal :: "string option \<Rightarrow> string option \<Rightarrow> bool" where
  "string_is_equal one two =
     (case (one, two) of (Some a, Some b) \<Rightarrow> a = b | _ \<Rightarrow> False)"

lemma string_ends_with_iff: "string_ends_with s t \<longleftrightarrow> (\<exists>p. s = p @ t)"
proof
  assume "string_ends_with s t"
  then have "s = take (length s - length t) s @ t"
    by (auto simp: string_ends_with_def Let_def) (metis append_take_drop_id)
  then show "\<exists>p. s = p @ t" ..
qed (auto simp: string_ends_with_def)

lemma string_is_equal_Some [simp]: "string_is_equal (Some a) (Some b) \<longleftrightarrow> a = b"
  by (simp add: string_is_equal_def)

lemma string_is_equal_None [simp]:
  "\<not> string_is_equal None x" "\<not> string_is_equal x None"
  by (auto simp: string_is_equal_def split: option.splits)

lemma length_chomp_loop [simp]: "length (chomp_loop i line) = length line"
  by (induction i line rule: chomp_loop.induct) auto

lemma chomp_loop_nth:
  "i < length line \<Longrightarrow> j < length line \<Longrightarrow> chomp_loop i line ! j =
     (if 0 < j \<and> j \<le> i \<and> is_eol (line ! j) then NUL else line ! j)"
proof (induction i line rule: chomp_loop.induct)
  case (2 i line)
  then show ?case by (auto simp: nth_list_update le_Suc_eq is_eol_def)
qed auto

lemma chomp_loop_eq:
  "chomp_loop (length line - 1) line =
     (case line of [] \<Rightarrow> [] | c # cs \<Rightarrow> c # map (\<lambda>x. if is_eol x then NUL else x) cs)"
proof (cases line)
  case (Cons c cs)
  then show ?thesis
    by (auto intro!: nth_equalityI simp: chomp_loop_nth nth_Cons split: nat.splits)
qed simp

lemma cstr_map_eol:
  "is_cstr s \<Longrightarrow> cstr (map (\<lambda>x. if is_eol x then NUL else x) s) = takeWhile (\<lambda>c. \<not> is_eol c) s"
  by (induction s) (auto simp: cstr_def)

lemma string_chomp_eq:
  "is_cstr line \<Longrightarrow> string_chomp line =
     (case line of [] \<Rightarrow> [] | c # cs \<Rightarrow> c # takeWhile (\<lambda>x. \<not> is_eol x) cs)"
  unfolding string_chomp_def chomp_loop_eq
  by (cases line) (auto simp: cstr_map_eol [symmetric] cstr_def)

text \<open>
  On a C string, chomping keeps the first character and then everything up to the
  first carriage return or line feed, and nothing after it.
\<close>

theorem string_chomp_spec:
  assumes "is_cstr (c # cs)"
  shows "string_chomp (c # cs) = c # takeWhile (\<lambda>x. \<not> is_eol x) cs"
  using string_chomp_eq [OF assms] by simp

theorem string_chomp_spec_witness:
  "string_chomp (''ab'' @ [CHR 0x0D, CHR 0x0A]) = ''ab''"
proof -
  have "is_cstr (CHR ''a'' # CHR ''b'' # [CHR 0x0D, CHR 0x0A])" by simp
  from string_chomp_spec [OF this] show ?thesis by (simp add: is_eol_def)
qed

end
