(* ===== verification/Base64.thy ===== *)
theory Base64
  imports Prelude
begin

unbundle bit_operations_syntax

text \<open>
  \<open>src/firmware/main/util/base64.c\<close>. A source buffer is the C string that fills it; a
  read past its end finds the zeros the callers put there (\<open>char base64[241] = \{ 0 \}\<close> in
  \<open>web/auth.c\<close>), which \<open>src_at\<close> returns.
\<close>

definition table :: string where
  "table = ''ABCDEFGHIJKLMNOPQRSTUVWXYZabcdefghijklmnopqrstuvwxyz0123456789+/''"

definition src_at :: "string \<Rightarrow> nat \<Rightarrow> char" where
  "src_at s i = (if i < length s then s ! i else NUL)"

text \<open>The index \<open>strchr\<close> finds; the terminator of the searched string counts, at its length.\<close>

fun strchr_index :: "string \<Rightarrow> char \<Rightarrow> nat option" where
  "strchr_index [] c = (if c = NUL then Some 0 else None)"
| "strchr_index (x # xs) c = (if x = c then Some 0 else map_option Suc (strchr_index xs c))"

definition is_base64 :: "char \<Rightarrow> bool" where
  "is_base64 c = (c \<noteq> NUL \<and> strchr_index table c \<noteq> None)"

definition b64_value :: "char \<Rightarrow> u8" where
  "b64_value c = (case strchr_index table c of Some i \<Rightarrow> of_nat i | None \<Rightarrow> 0)"

definition decode_group :: "string \<Rightarrow> u8 list" where
  "decode_group src =
     (let a = b64_value (src_at src 0); b = b64_value (src_at src 1);
          c = b64_value (src_at src 2); d = b64_value (src_at src 3)
      in [push_bit 2 a OR drop_bit 4 b, push_bit 4 b OR drop_bit 2 c, push_bit 6 c OR d])"

lemma is_base64_src_at: "is_base64 (src_at s i) \<Longrightarrow> i < length s"
  by (auto simp: is_base64_def src_at_def split: if_splits)

text \<open>
  The do-while loop of \<open>base64_decode\<close>. Each round writes three bytes and steps back over
  the ones a missing digit makes void; \<open>srclen\<close> is a \<open>size_t\<close> that the loop
  decrements by four, wrapping, until it is zero.
\<close>

function decode_loop :: "string \<Rightarrow> u32 \<Rightarrow> u8 list" where
  "decode_loop src srclen =
     (let out = decode_group src
      in if \<not> is_base64 (src_at src 1) then take 1 out
         else if \<not> is_base64 (src_at src 2) then take 1 out
         else if \<not> is_base64 (src_at src 3) then take 2 out
         else
           let src' = dropWhile (\<lambda>c. c = CHR 0x0D \<or> c = CHR 0x0A) (drop 4 src);
               srclen' = srclen - 4
           in if srclen' = 0 then out else out @ decode_loop src' srclen')"
  by pat_completeness auto
termination
proof (relation "measure (\<lambda>(s, n). length s)", goal_cases)
  case (2 src srclen out src' srclen')
  have "length src' \<le> length (drop 4 src)" unfolding 2(5) by (rule length_dropWhile_le)
  with is_base64_src_at [of src 3] 2(4) show ?case by auto
qed simp

declare decode_loop.simps [simp del]

definition base64_decode :: "string \<Rightarrow> u32 \<Rightarrow> u8 list" where
  "base64_decode src srclen = (if src = [] then [] else decode_loop src srclen)"

text \<open>
  \<open>base64_encode\<close> compares its index with \<open>len - 2\<close> as \<open>size_t\<close>: for \<open>len < 2\<close>
  the bound wraps and the loop reads past the buffer, which is None here. From two bytes on
  it is a loop over groups of three and a tail of one or two bytes.
\<close>

definition tab :: "u8 \<Rightarrow> char" where
  "tab i = table ! unat i"

text \<open>The table indices of \<open>base64_encode\<close>: the four digits of a group, and the cut ones of a tail.\<close>

definition dig1 :: "u8 \<Rightarrow> u8" where
  "dig1 x = drop_bit 2 x AND 0x3F"

definition dig2 :: "u8 \<Rightarrow> u8 \<Rightarrow> u8" where
  "dig2 x y = push_bit 4 (x AND 0x3) OR drop_bit 4 (y AND 0xF0)"

definition dig3 :: "u8 \<Rightarrow> u8 \<Rightarrow> u8" where
  "dig3 y z = push_bit 2 (y AND 0xF) OR drop_bit 6 (z AND 0xC0)"

definition dig4 :: "u8 \<Rightarrow> u8" where
  "dig4 z = z AND 0x3F"

definition dig2_last :: "u8 \<Rightarrow> u8" where
  "dig2_last x = push_bit 4 (x AND 0x3)"

definition dig3_last :: "u8 \<Rightarrow> u8" where
  "dig3_last y = push_bit 2 (y AND 0xF)"

fun encode_groups :: "u8 list \<Rightarrow> string" where
  "encode_groups (x # y # z # rest) =
     [tab (dig1 x), tab (dig2 x y), tab (dig3 y z), tab (dig4 z)] @ encode_groups rest"
| "encode_groups [x, y] = [tab (dig1 x), tab (dig2 x y), tab (dig3_last y), CHR ''='']"
| "encode_groups [x] = [tab (dig1 x), tab (dig2_last x), CHR ''='', CHR ''='']"
| "encode_groups [] = []"

definition base64_encode :: "u8 list \<Rightarrow> string option" where
  "base64_encode s = (if length s < 2 then None else Some (encode_groups s))"

section \<open>Round trip\<close>

lemma value_tab_all: "\<forall>n < 64. b64_value (table ! n) = of_nat n \<and> is_base64 (table ! n)"
  by code_simp

lemma eq_sign: "\<not> is_base64 (CHR ''='')" "b64_value (CHR ''='') = 0"
  by code_simp+

lemma and_63: "w AND 0x3F = w \<Longrightarrow> unat (w :: u8) < 64"
proof -
  have "unat (w AND 0x3F :: u8) < 64"
    by (rule le_less_trans [OF word_and_le1 [unfolded word_le_nat_alt]]) simp
  then show "w AND 0x3F = w \<Longrightarrow> unat w < 64" by simp
qed

lemmas dig_defs = dig1_def dig2_def dig3_def dig4_def dig2_last_def dig3_last_def

lemma less_8_cases: "(n::nat) < 8 \<Longrightarrow> n = 0 \<or> n = 1 \<or> n = 2 \<or> n = 3 \<or> n = 4 \<or> n = 5 \<or> n = 6 \<or> n = 7"
  by arith

lemma dig_small [simp]:
  "unat (dig1 x) < 64" "unat (dig2 x y) < 64" "unat (dig3 y z) < 64" "unat (dig4 z) < 64"
  "unat (dig2_last x) < 64" "unat (dig3_last y) < 64"
  unfolding dig_defs
  by (rule and_63, rule bit_word_eqI, force dest!: less_8_cases simp: bit_simps)+

lemma regroup [simp]:
  "push_bit 2 (dig1 x) OR drop_bit 4 (dig2 x y) = x"
  "push_bit 4 (dig2 x y) OR drop_bit 2 (dig3 y z) = y"
  "push_bit 6 (dig3 y z) OR dig4 z = z"
  "push_bit 2 (dig1 x) OR drop_bit 4 (dig2_last x) = x"
  "push_bit 4 (dig2 x y) OR drop_bit 2 (dig3_last y) = y"
  unfolding dig_defs
  subgoal by (rule bit_word_eqI) (auto dest!: less_8_cases simp: bit_simps numeral_2_eq_2 [symmetric] numeral_3_eq_3 [symmetric])
  subgoal by (rule bit_word_eqI) (auto dest!: less_8_cases simp: bit_simps numeral_2_eq_2 [symmetric] numeral_3_eq_3 [symmetric])
  subgoal by (rule bit_word_eqI) (auto dest!: less_8_cases simp: bit_simps numeral_2_eq_2 [symmetric] numeral_3_eq_3 [symmetric])
  subgoal by (rule bit_word_eqI) (auto dest!: less_8_cases simp: bit_simps numeral_2_eq_2 [symmetric] numeral_3_eq_3 [symmetric])
  subgoal by (rule bit_word_eqI) (auto dest!: less_8_cases simp: bit_simps numeral_2_eq_2 [symmetric] numeral_3_eq_3 [symmetric])
  done

lemma tab_props [simp]: "unat w < 64 \<Longrightarrow> b64_value (tab w) = w" "unat w < 64 \<Longrightarrow> is_base64 (tab w)"
  using value_tab_all by (auto simp: tab_def)

lemma decode_group_app:
  assumes "length g = 4"
  shows "decode_group (g @ r) = decode_group g"
  using assms by (simp add: decode_group_def src_at_def nth_append)

lemma tab_not_eol: "unat w < 64 \<Longrightarrow> tab w \<noteq> CHR 0x0D \<and> tab w \<noteq> CHR 0x0A"
proof -
  have "\<forall>n < 64. table ! n \<noteq> CHR 0x0D \<and> table ! n \<noteq> CHR 0x0A" by code_simp
  then show "unat w < 64 \<Longrightarrow> tab w \<noteq> CHR 0x0D \<and> tab w \<noteq> CHR 0x0A" by (simp add: tab_def)
qed

lemma encode_groups_hd:
  "s \<noteq> [] \<Longrightarrow> \<exists>w cs. encode_groups s = tab w # cs \<and> unat w < 64"
  by (cases s rule: encode_groups.cases) auto

lemma dropWhile_encode:
  "dropWhile (\<lambda>c. c = CHR 0x0D \<or> c = CHR 0x0A) (encode_groups s) = encode_groups s"
proof (cases "s = []")
  case False
  then show ?thesis using encode_groups_hd [of s] by (auto dest: tab_not_eol)
qed simp

lemma length_encode_pos: "s \<noteq> [] \<Longrightarrow> encode_groups s \<noteq> []"
  using encode_groups_hd by fastforce

lemma src_at_simps [simp]:
  "src_at (x # xs) 0 = x" "src_at (x # xs) (Suc n) = src_at xs n"
  "src_at (x # xs) 1 = src_at xs 0" "src_at (x # xs) 2 = src_at xs 1"
  "src_at (x # xs) 3 = src_at xs 2"
  by (auto simp: src_at_def numeral_2_eq_2 numeral_3_eq_3)

lemma decode_encode_loop:
  assumes "s \<noteq> []" and "length (encode_groups s) < 2 ^ 32"
  shows "decode_loop (encode_groups s) (of_nat (length (encode_groups s))) = s"
  using assms
proof (induction s rule: encode_groups.induct)
  case (1 x y z rest)
  let ?r = "encode_groups rest"
  have n: "of_nat (length (encode_groups (x # y # z # rest))) - 4 = (of_nat (length ?r) :: u32)"
    by simp
  have z: "(of_nat (length ?r) :: u32) = 0 \<longleftrightarrow> rest = []"
    using "1.prems" length_encode_pos [of rest]
    by (cases rest) (auto simp: word_of_nat_eq_0_iff dest!: dvd_imp_le)
  have g: "decode_group (encode_groups (x # y # z # rest)) = [x, y, z]"
    by (simp add: decode_group_def)
  have ih: "rest \<noteq> [] \<Longrightarrow> decode_loop ?r (of_nat (length ?r)) = rest"
    using "1.IH" "1.prems" by simp
  show ?case
    by (subst decode_loop.simps, unfold n g Let_def) (simp add: dropWhile_encode z ih)
next
  case (2 x y)
  then show ?case by (subst decode_loop.simps) (simp add: decode_group_def eq_sign)
next
  case (3 x)
  then show ?case by (subst decode_loop.simps) (simp add: decode_group_def eq_sign)
qed simp


lemma length_encode_groups: "length (encode_groups s) = 4 * ((length s + 2) div 3)"
proof (induction s rule: encode_groups.induct)
  case (1 x y z rest)
  have "(5 + length rest) div 3 = Suc ((2 + length rest) div 3)" by presburger
  with 1 show ?case by simp
qed auto

definition encodable :: "u8 list \<Rightarrow> bool" where
  "encodable s = (2 \<le> length s \<and> 4 * ((length s + 2) div 3) < 2 ^ 32)"

interpretation b64: codec "\<lambda>s. the (base64_encode s)" "\<lambda>t. base64_decode t (of_nat (length t))" encodable
proof
  fix s
  assume ok: "encodable s"
  then have "s \<noteq> []" by (auto simp: encodable_def)
  moreover from ok have "base64_encode s = Some (encode_groups s)"
    by (simp add: base64_encode_def encodable_def)
  ultimately show "base64_decode (the (base64_encode s)) (of_nat (length (the (base64_encode s)))) = s"
    using ok decode_encode_loop [of s] length_encode_pos [of s]
    by (simp add: base64_decode_def encodable_def length_encode_groups)
qed

text \<open>
  Decoding what \<open>base64_encode\<close> wrote, with \<open>strlen\<close> of it as the length, gives the
  bytes back, for every buffer of two bytes or more whose encoding a \<open>size_t\<close> can count.
\<close>

theorem base64_roundtrip:
  assumes "2 \<le> length s" and "4 * ((length s + 2) div 3) < 2 ^ 32"
  shows "\<exists>t. base64_encode s = Some t \<and> length t = 4 * ((length s + 2) div 3) \<and>
           base64_decode t (of_nat (length t)) = s"
  using b64.dec_enc [of s] assms
  by (simp add: encodable_def base64_encode_def length_encode_groups)

theorem base64_roundtrip_witness:
  "\<exists>t. base64_encode (map byte ''admin:12345678'') = Some t \<and> length t = 20 \<and>
     base64_decode t (of_nat (length t)) = map byte ''admin:12345678''"
proof -
  have "2 \<le> length (map byte ''admin:12345678'')"
    and "4 * ((length (map byte ''admin:12345678'') + 2) div 3) < 2 ^ 32" by simp_all
  from base64_roundtrip [OF this] show ?thesis by simp
qed

end
