(* ===== verification/Datetime.thy ===== *)
theory Datetime
  imports Prelude
begin

text \<open>
  \<open>src/firmware/main/util/datetime.c\<close>: dates and times of day as integers that can be
  compared. \<open>sscanf\<close> with \<open>%u\<close> is modelled as newlib implements it: leading white
  space is skipped, a sign is taken, the digits are read by \<open>strtoul\<close>, which saturates at
  \<open>ULONG_MAX\<close> and negates modulo \<open>2^32\<close>.
\<close>

section \<open>sscanf\<close>

definition is_space :: "char \<Rightarrow> bool" where
  "is_space c = (c \<in> set [CHR '' '', CHR 0x09, CHR 0x0A, CHR 0x0B, CHR 0x0C, CHR 0x0D])"

definition strtoul :: "bool \<Rightarrow> string \<Rightarrow> u32" where
  "strtoul neg ds =
     (let n = dec_val 0 ds
      in if n \<ge> 2 ^ 32 then - 1 else if neg then - of_nat n else of_nat n)"

definition scan_sign :: "string \<Rightarrow> bool \<times> string" where
  "scan_sign s =
     (case s of c # cs \<Rightarrow> if c = CHR ''-'' then (True, cs) else if c = CHR ''+'' then (False, cs)
        else (False, s) | [] \<Rightarrow> (False, s))"

definition scan_u :: "string \<Rightarrow> (u32 \<times> string) option" where
  "scan_u s =
     (case scan_sign (dropWhile is_space s) of (neg, t) \<Rightarrow>
       (let ds = takeWhile is_digit_char t; rest = dropWhile is_digit_char t
        in if ds = [] then None else Some (strtoul neg ds, rest)))"

definition scan_lit :: "char \<Rightarrow> string \<Rightarrow> string option" where
  "scan_lit c s = (case s of x # xs \<Rightarrow> if x = c then Some xs else None | [] \<Rightarrow> None)"

text \<open>\<open>sscanf(s, "%u<sep>%u<sep>%u", &a, &b, &c) == 3\<close>.\<close>

definition scan_triple :: "char \<Rightarrow> string \<Rightarrow> (u32 \<times> u32 \<times> u32) option" where
  "scan_triple sep s =
     (case scan_u s of None \<Rightarrow> None | Some (a, s1) \<Rightarrow>
     (case scan_lit sep s1 of None \<Rightarrow> None | Some s2 \<Rightarrow>
     (case scan_u s2 of None \<Rightarrow> None | Some (b, s3) \<Rightarrow>
     (case scan_lit sep s3 of None \<Rightarrow> None | Some s4 \<Rightarrow>
     (case scan_u s4 of None \<Rightarrow> None | Some (c, s5) \<Rightarrow> Some (a, b, c))))))"

lemma scan_u_digits:
  assumes "list_all is_digit_char ds" "ds \<noteq> []" "rest = [] \<or> \<not> is_digit_char (hd rest)"
  shows "scan_u (ds @ rest) = Some (strtoul False ds, rest)"
proof -
  obtain c cs where ds: "ds = c # cs" using assms(2) by (cases ds) auto
  with assms(1) have c: "is_digit_char c" by simp
  then have "\<not> is_space c" "c \<noteq> CHR ''-''" "c \<noteq> CHR ''+''"
    by (auto simp: is_space_def is_digit_char_def)
  then have "scan_sign (dropWhile is_space (ds @ rest)) = (False, ds @ rest)"
    by (simp add: ds scan_sign_def)
  moreover have "takeWhile is_digit_char rest = []"
    using assms(3) by (cases rest) auto
  moreover have "dropWhile is_digit_char rest = rest"
    using assms(3) by (cases rest) auto
  moreover have "\<forall>x \<in> set ds. is_digit_char x" using assms(1) by (simp add: list_all_iff)
  ultimately show ?thesis using assms(2)
    by (simp add: scan_u_def Let_def takeWhile_append dropWhile_append)
qed

lemma scan_triple_digits:
  assumes "list_all is_digit_char a" "a \<noteq> []" "list_all is_digit_char b" "b \<noteq> []"
    "list_all is_digit_char c" "c \<noteq> []" "\<not> is_digit_char sep"
  shows "scan_triple sep (a @ sep # b @ sep # c) =
    Some (strtoul False a, strtoul False b, strtoul False c)"
  using assms scan_u_digits [of c "[]"]
  by (simp add: scan_triple_def scan_u_digits scan_lit_def)

section \<open>The functions of datetime.c\<close>

definition datetime_string_to_seconds_int :: "string option \<Rightarrow> int" where
  "datetime_string_to_seconds_int string =
     (case string of None \<Rightarrow> - 1 | Some s \<Rightarrow>
       (case scan_triple (CHR '':'') s of
          None \<Rightarrow> - 1
        | Some (hours, minutes, seconds) \<Rightarrow> sint (hours * 3600 + minutes * 60 + seconds)))"

definition datetime_date_string_to_date_int :: "string option \<Rightarrow> int" where
  "datetime_date_string_to_date_int string =
     (case string of None \<Rightarrow> 0 | Some s \<Rightarrow>
       (case scan_triple (CHR ''.'') s of
          None \<Rightarrow> - 1
        | Some (day, month, year) \<Rightarrow> sint (year * 1000 + month * 40 + day)))"

text \<open>
  The clock is read once per call with \<open>time\<close> and \<open>localtime_r\<close>, whose result is the
  argument. \<open>strftime\<close> writes two digits for the day and the month; text that does not fit
  the eleven bytes offered is dropped.
\<close>

record tm =
  tm_sec :: nat
  tm_min :: nat
  tm_hour :: nat
  tm_mday :: nat
  tm_mon :: nat
  tm_year :: nat

definition show2 :: "nat \<Rightarrow> string" where
  "show2 n = (if n < 10 then CHR ''0'' # show_nat n else show_nat n)"

definition strftime_date :: "tm \<Rightarrow> string" where
  "strftime_date t =
     (let s = show2 (tm_mday t) @ ''.'' @ show2 (tm_mon t + 1) @ ''.'' @ show_nat (tm_year t + 1900)
      in if length s + 1 \<le> 11 then s else '''')"

definition datetime_current_date_int :: "tm \<Rightarrow> int" where
  "datetime_current_date_int t = datetime_date_string_to_date_int (Some (strftime_date t))"

definition datetime_current_time_int :: "tm \<Rightarrow> int" where
  "datetime_current_time_int t = int (tm_hour t * 3600 + tm_min t * 60 + tm_sec t)"


section \<open>Dates in order\<close>

datatype civil = Civil (cyear: nat) (cmonth: nat) (cday: nat)

instantiation civil :: linorder
begin

definition less_eq_civil :: "civil \<Rightarrow> civil \<Rightarrow> bool" where
  "less_eq_civil a b =
     (cyear a < cyear b \<or> cyear a = cyear b \<and>
       (cmonth a < cmonth b \<or> cmonth a = cmonth b \<and> cday a \<le> cday b))"

definition less_civil :: "civil \<Rightarrow> civil \<Rightarrow> bool" where
  "less_civil a b = (a \<le> b \<and> \<not> b \<le> (a :: civil))"

instance
  by standard (auto simp: less_eq_civil_def less_civil_def intro: civil.expand)

end

definition valid_civil :: "civil \<Rightarrow> bool" where
  "valid_civil c = (1 \<le> cday c \<and> cday c \<le> 31 \<and> 1 \<le> cmonth c \<and> cmonth c \<le> 12 \<and> cyear c \<le> 9999)"

definition show_civil :: "civil \<Rightarrow> string" where
  "show_civil c = show2 (cday c) @ ''.'' @ show2 (cmonth c) @ ''.'' @ show_nat (cyear c)"

lemma show2_digits [simp]: "list_all is_digit_char (show2 n)"
  by (simp add: show2_def show_nat_digits is_digit_char_def)

lemma show2_nonempty [simp]: "show2 n \<noteq> []"
  by (simp add: show2_def)

lemma dec_val_show2 [simp]: "dec_val 0 (show2 n) = n"
  by (simp add: show2_def digit_val_def)

lemma strtoul_small [simp]: "dec_val 0 ds < 2 ^ 32 \<Longrightarrow> strtoul False ds = of_nat (dec_val 0 ds)"
  by (simp add: strtoul_def)

lemma date_int_show_civil:
  assumes "valid_civil c"
  shows "datetime_date_string_to_date_int (Some (show_civil c)) =
    int (cyear c * 1000 + cmonth c * 40 + cday c)"
proof -
  have "scan_triple (CHR ''.'') (show_civil c) =
      Some (of_nat (cday c), of_nat (cmonth c), of_nat (cyear c))"
    using assms unfolding show_civil_def valid_civil_def
    by (simp add: scan_triple_digits show_nat_digits is_digit_char_def)
  moreover have "(of_nat (cyear c) * 1000 + of_nat (cmonth c) * 40 + of_nat (cday c) :: u32) =
      of_nat (cyear c * 1000 + cmonth c * 40 + cday c)" by simp
  moreover have "cyear c * 1000 + cmonth c * 40 + cday c < 2 ^ 31"
    using assms by (simp add: valid_civil_def)
  ultimately show ?thesis
    by (simp add: datetime_date_string_to_date_int_def del: of_nat_add of_nat_mult)
qed

definition civil_of_tm :: "tm \<Rightarrow> civil" where
  "civil_of_tm t = Civil (tm_year t + 1900) (tm_mon t + 1) (tm_mday t)"

lemma length_show2: "n < 100 \<Longrightarrow> length (show2 n) \<le> 2"
  using length_show_nat_le [of n 2] length_show_nat_le [of n 1] by (simp add: show2_def)

lemma strftime_date_civil:
  assumes "valid_civil (civil_of_tm t)"
  shows "strftime_date t = show_civil (civil_of_tm t)"
proof -
  have "length (show2 (tm_mday t)) \<le> 2" "length (show2 (tm_mon t + 1)) \<le> 2"
    "length (show_nat (tm_year t + 1900)) \<le> 4"
    using assms by (auto simp: valid_civil_def civil_of_tm_def intro!: length_show2 length_show_nat_le)
  then show ?thesis by (simp add: strftime_date_def show_civil_def civil_of_tm_def)
qed

text \<open>
  Today's date, formatted with \<open>strftime\<close> and read back by the same scanner as the
  playlist's dates, compares with a playlist date \<open>dd.mm.yyyy\<close> exactly as the two calendar
  dates do. So the test \<open>begin_date <= date_now && date_now <= end_date\<close> of
  \<open>advertising_now\<close> is the test on dates.
\<close>

theorem date_int_order:
  assumes "valid_civil c" and "valid_civil (civil_of_tm t)"
  shows "(datetime_date_string_to_date_int (Some (show_civil c)) \<le> datetime_current_date_int t
           \<longleftrightarrow> c \<le> civil_of_tm t) \<and>
         (datetime_current_date_int t \<le> datetime_date_string_to_date_int (Some (show_civil c))
           \<longleftrightarrow> civil_of_tm t \<le> c)"
  using assms
  by (auto simp: datetime_current_date_int_def strftime_date_civil date_int_show_civil
      valid_civil_def less_eq_civil_def)

theorem date_int_order_witness:
  "(datetime_date_string_to_date_int (Some (show_civil (Civil 2019 12 31)))
      \<le> datetime_current_date_int \<lparr>tm_sec = 0, tm_min = 0, tm_hour = 0, tm_mday = 1, tm_mon = 0, tm_year = 120\<rparr>)"
proof -
  let ?t = "\<lparr>tm_sec = 0, tm_min = 0, tm_hour = 0, tm_mday = 1, tm_mon = 0, tm_year = 120\<rparr>"
  have v: "valid_civil (Civil 2019 12 31)" "valid_civil (civil_of_tm ?t)"
    by (simp_all add: valid_civil_def civil_of_tm_def)
  show ?thesis
    using date_int_order [OF v] by (simp add: civil_of_tm_def less_eq_civil_def)
qed

definition show_time :: "tm \<Rightarrow> string" where
  "show_time t = show2 (tm_hour t) @ '':'' @ show2 (tm_min t) @ '':'' @ show2 (tm_sec t)"

lemma hms_inject:
  fixes h m s :: nat
  assumes "m < 60" "s < 60" "m' < 60" "s' < 60"
    and eq: "h * 3600 + m * 60 + s = h' * 3600 + m' * 60 + s'"
  shows "h = h' \<and> m = m' \<and> s = s'"
proof -
  have "h = h'" using assms by linarith
  moreover from this have "m = m'" using assms by linarith
  ultimately show ?thesis using eq by simp
qed

text \<open>
  A schedule entry \<open>hh:mm:ss\<close> of the playlist and the wall clock at that time of day are
  the same number of seconds, so the equality test of \<open>advertising_now\<close> fires in that
  second; and distinct times of day are distinct numbers.
\<close>

theorem schedule_seconds_match:
  assumes "tm_hour t < 24" "tm_min t < 60" "tm_sec t < 60"
    and "tm_hour u < 24" "tm_min u < 60" "tm_sec u < 60"
  shows "datetime_string_to_seconds_int (Some (show_time t)) = datetime_current_time_int u
     \<longleftrightarrow> tm_hour t = tm_hour u \<and> tm_min t = tm_min u \<and> tm_sec t = tm_sec u"
proof -
  have "scan_triple (CHR '':'') (show_time t) =
      Some (of_nat (tm_hour t), of_nat (tm_min t), of_nat (tm_sec t))"
    using assms unfolding show_time_def
    by (simp add: scan_triple_digits is_digit_char_def)
  moreover have "(of_nat (tm_hour t) * 3600 + of_nat (tm_min t) * 60 + of_nat (tm_sec t) :: u32) =
      of_nat (tm_hour t * 3600 + tm_min t * 60 + tm_sec t)" by simp
  moreover have "tm_hour t * 3600 + tm_min t * 60 + tm_sec t < 2 ^ 31"
    using assms by simp
  ultimately have *: "datetime_string_to_seconds_int (Some (show_time t)) =
      int (tm_hour t * 3600 + tm_min t * 60 + tm_sec t)"
    by (simp add: datetime_string_to_seconds_int_def del: of_nat_add of_nat_mult)
  show ?thesis
    using hms_inject [of "tm_min t" "tm_sec t" "tm_min u" "tm_sec u" "tm_hour t" "tm_hour u"] assms
    unfolding * datetime_current_time_int_def of_nat_eq_iff by metis
qed

theorem schedule_seconds_match_witness:
  "datetime_string_to_seconds_int (Some (show_time
      \<lparr>tm_sec = 5, tm_min = 30, tm_hour = 23, tm_mday = 1, tm_mon = 0, tm_year = 120\<rparr>)) =
   datetime_current_time_int \<lparr>tm_sec = 5, tm_min = 30, tm_hour = 23, tm_mday = 2, tm_mon = 4, tm_year = 121\<rparr>"
  by (subst schedule_seconds_match) simp_all

end
