(* ===== verification/Track.thy ===== *)
theory Track
  imports Prelude
begin

text \<open>
  \<open>src/firmware/main/playlist/track.h\<close> and \<open>track.c\<close>: the track of a playlist with its
  date intervals, its deep copy and its release. The heap is seen through the fields: a field
  that points to memory is a \<^typ>\<open>'a cptr\<close>, so a copy that leaves a field as
  \<open>malloc\<close> returned it, and the \<open>free\<close> of such a field, are visible. An integer field
  that was never written is None. \<open>uint16_t\<close> sizes are naturals.
\<close>

datatype TrackType_t = TRACK_BACKGROUND | TRACK_ADVERTISING

record DateInterval_t =
  begin_date :: "int option"
  end_date :: "int option"
  schedule_seconds :: "int list cptr"
  schedule_seconds_size :: nat

record Track_t =
  filename :: "string cptr"
  track_id :: int
  track_type :: TrackType_t
  date_intervals :: "DateInterval_t list cptr"
  date_intervals_size :: nat

text \<open>Memory as \<open>malloc\<close> returns it.\<close>

definition wild_interval :: DateInterval_t where
  "wild_interval = \<lparr>begin_date = None, end_date = None, schedule_seconds = Wild,
     schedule_seconds_size = 0\<rparr>"

definition wild_track :: Track_t where
  "wild_track = \<lparr>filename = Wild, track_id = 0, track_type = TRACK_BACKGROUND,
     date_intervals = Wild, date_intervals_size = 0\<rparr>"

text \<open>
  The allocations of one call take their outcomes from a list, one Boolean each; past its end
  they succeed.
\<close>

definition malloc_ok :: "bool list \<Rightarrow> bool \<times> bool list" where
  "malloc_ok ms = (case ms of [] \<Rightarrow> (True, []) | m # ms' \<Rightarrow> (m, ms'))"

text \<open>
  The loop over the intervals: None is an allocation failure. An interval without a schedule
  leaves its \<open>schedule_seconds\<close> field as the allocation of the array left it.
\<close>

fun copy_intervals :: "bool list \<Rightarrow> DateInterval_t list \<Rightarrow> DateInterval_t list option" where
  "copy_intervals ms [] = Some []"
| "copy_intervals ms (s # ss) =
     (let d = wild_interval\<lparr>begin_date := begin_date s, end_date := end_date s,
                schedule_seconds_size := schedule_seconds_size s\<rparr>
      in if schedule_seconds_size s > 0 then
           (case malloc_ok ms of
              (False, _) \<Rightarrow> None
            | (True, ms') \<Rightarrow>
                map_option ((#) (d\<lparr>schedule_seconds := schedule_seconds s\<rparr>))
                  (copy_intervals ms' ss))
         else map_option ((#) d) (copy_intervals ms ss))"

definition ptr_list :: "'a list cptr \<Rightarrow> 'a list" where
  "ptr_list p = (case p of Ptr xs \<Rightarrow> xs | _ \<Rightarrow> [])"

text \<open>
  On the two late failures the file name (and the interval array) has been freed while the
  field still points to it.
\<close>

definition track_copy :: "bool list \<Rightarrow> Track_t option \<Rightarrow> Track_t option \<Rightarrow> bool \<times> Track_t option" where
  "track_copy ms dst src =
     (case (dst, src) of
        (Some d, Some s) \<Rightarrow>
          (case malloc_ok ms of
             (False, _) \<Rightarrow> (False, Some (d\<lparr>filename := NULL\<rparr>))
           | (True, ms1) \<Rightarrow>
             (let d1 = d\<lparr>filename := filename s, track_id := track_id s,
                         track_type := track_type s,
                         date_intervals_size := date_intervals_size s\<rparr>
              in if date_intervals_size s > 0 then
                   (case malloc_ok ms1 of
                      (False, _) \<Rightarrow> (False, Some (d1\<lparr>filename := Wild, date_intervals := NULL\<rparr>))
                    | (True, ms2) \<Rightarrow>
                      (case copy_intervals ms2 (ptr_list (date_intervals s)) of
                         None \<Rightarrow> (False, Some (d1\<lparr>filename := Wild, date_intervals := Wild\<rparr>))
                       | Some ivs \<Rightarrow> (True, Some (d1\<lparr>date_intervals := Ptr ivs\<rparr>))))
                 else (True, Some d1)))
      | _ \<Rightarrow> (False, dst))"

text \<open>\<open>if (p != NULL) { free(p); p = NULL; }\<close>: None when \<open>p\<close> is wild.\<close>

definition free_null :: "'a cptr \<Rightarrow> 'a cptr option" where
  "free_null p = (case p of Wild \<Rightarrow> None | _ \<Rightarrow> Some NULL)"

definition track_free :: "Track_t \<Rightarrow> Track_t option" where
  "track_free t =
     (case free_null (filename t) of
        None \<Rightarrow> None
      | Some f \<Rightarrow>
        (case date_intervals t of
           NULL \<Rightarrow> Some (t\<lparr>filename := f, date_intervals_size := 0\<rparr>)
         | Wild \<Rightarrow> None
         | Ptr ivs \<Rightarrow>
           (if list_all (\<lambda>i. schedule_seconds i \<noteq> Wild) ivs
            then Some (t\<lparr>filename := f, date_intervals := NULL, date_intervals_size := 0\<rparr>)
            else None)))"

definition track_type_to_string :: "Track_t option \<Rightarrow> string option" where
  "track_type_to_string track =
     (case track of
        None \<Rightarrow> None
      | Some t \<Rightarrow> (case track_type t of
          TRACK_BACKGROUND \<Rightarrow> Some ''background''
        | TRACK_ADVERTISING \<Rightarrow> Some ''advertising''))"

section \<open>Well-formed tracks\<close>

definition wf_interval :: "DateInterval_t \<Rightarrow> bool" where
  "wf_interval i =
     (case schedule_seconds i of
        NULL \<Rightarrow> schedule_seconds_size i = 0
      | Wild \<Rightarrow> False
      | Ptr xs \<Rightarrow> 0 < length xs \<and> schedule_seconds_size i = length xs)"

definition wf_track :: "Track_t \<Rightarrow> bool" where
  "wf_track t =
     ((\<exists>f. filename t = Ptr f) \<and>
      (case date_intervals t of
         NULL \<Rightarrow> date_intervals_size t = 0
       | Wild \<Rightarrow> False
       | Ptr ivs \<Rightarrow> 0 < length ivs \<and> date_intervals_size t = length ivs \<and> list_all wf_interval ivs))"

lemma malloc_ok_Nil [simp]: "malloc_ok [] = (True, [])"
  by (simp add: malloc_ok_def)

lemma malloc_ok_Cons [simp]: "malloc_ok (m # ms) = (m, ms)"
  by (simp add: malloc_ok_def)

lemma wf_interval_not_wild: "wf_interval i \<Longrightarrow> schedule_seconds i \<noteq> Wild"
  by (auto simp: wf_interval_def split: cptr.splits)

lemma track_free_wf [intro]: "wf_track t \<Longrightarrow> track_free t \<noteq> None"
  by (auto simp: wf_track_def track_free_def free_null_def list_all_iff
      dest: wf_interval_not_wild split: cptr.splits)

lemma copy_intervals_full:
  "list_all wf_interval ivs \<Longrightarrow> list_all (\<lambda>i. schedule_seconds_size i > 0) ivs \<Longrightarrow>
     copy_intervals [] ivs = Some ivs"
  by (induction ivs) (auto simp: wild_interval_def)

lemma copy_intervals_length: "copy_intervals ms ivs = Some js \<Longrightarrow> length js = length ivs"
  by (induction ms "ivs" arbitrary: js rule: copy_intervals.induct)
     (auto simp: Let_def split: if_splits prod.splits bool.splits)

lemma copy_intervals_wild:
  "list_all wf_interval ivs \<Longrightarrow> \<not> list_all (\<lambda>i. schedule_seconds_size i > 0) ivs \<Longrightarrow>
     \<exists>js. copy_intervals [] ivs = Some js \<and> \<not> list_all (\<lambda>i. schedule_seconds i \<noteq> Wild) js"
proof (induction ivs)
  case (Cons i ivs)
  show ?case
  proof (cases "list_all (\<lambda>i. schedule_seconds_size i > 0) ivs")
    case True
    then show ?thesis
      using Cons.prems by (simp add: wild_interval_def copy_intervals_full)
  next
    case False
    then obtain js where "copy_intervals [] ivs = Some js"
      "\<not> list_all (\<lambda>i. schedule_seconds i \<noteq> Wild) js"
      using Cons by auto
    then show ?thesis by (simp add: Let_def)
  qed
qed simp

text \<open>
  When every allocation succeeds, a well-formed track with at least one date interval and
  a schedule in each is copied field by field whatever the destination held, the copy is
  well-formed, and it can be released.
\<close>

theorem track_copy_deep:
  assumes "wf_track s" and "0 < date_intervals_size s"
    and "list_all (\<lambda>i. schedule_seconds_size i > 0) (ptr_list (date_intervals s))"
  shows "track_copy [] (Some d) (Some s) = (True, Some s) \<and> track_free s \<noteq> None"
proof -
  obtain ivs where ivs: "date_intervals s = Ptr ivs" "list_all wf_interval ivs"
    using assms(1,2) by (auto simp: wf_track_def split: cptr.splits)
  then have "copy_intervals [] (ptr_list (date_intervals s)) = Some ivs"
    using assms(3) copy_intervals_full [of "ivs"] by (simp add: ptr_list_def)
  then show ?thesis
    using assms ivs(1) track_free_wf [OF assms(1)] by (simp add: track_copy_def Let_def)
qed

definition sample_track :: Track_t where
  "sample_track = \<lparr>filename = Ptr ''ad.mp3'', track_id = 7, track_type = TRACK_ADVERTISING,
     date_intervals = Ptr [\<lparr>begin_date = Some 2019041, end_date = Some 2019520,
       schedule_seconds = Ptr [3600, 7200], schedule_seconds_size = 2\<rparr>],
     date_intervals_size = 1\<rparr>"

theorem track_copy_deep_witness:
  "track_copy [] (Some wild_track) (Some sample_track) = (True, Some sample_track)"
proof -
  have h: "wf_track sample_track" "0 < date_intervals_size sample_track"
    "list_all (\<lambda>i. schedule_seconds_size i > 0) (ptr_list (date_intervals sample_track))"
    by (simp_all add: sample_track_def wf_track_def wf_interval_def ptr_list_def)
  show ?thesis using track_copy_deep [OF h] by blast
qed

text \<open>
  The copy of a track without date intervals, or with an interval without a schedule, made
  into fresh memory keeps a pointer that was never set, although \<open>track_copy\<close> reports
  success; releasing that copy frees the wild pointer.
\<close>

theorem track_copy_keeps_wild:
  assumes "wf_track s"
    and "date_intervals_size s = 0 \<or>
         \<not> list_all (\<lambda>i. schedule_seconds_size i > 0) (ptr_list (date_intervals s))"
  shows "\<exists>d. track_copy [] (Some wild_track) (Some s) = (True, Some d) \<and> track_free d = None"
proof (cases "date_intervals_size s = 0")
  case True
  then show ?thesis
    using assms(1)
    by (auto simp: track_copy_def Let_def wild_track_def track_free_def free_null_def wf_track_def)
next
  case False
  then obtain ivs where ivs: "date_intervals s = Ptr ivs" "list_all wf_interval ivs"
    using assms(1) by (auto simp: wf_track_def split: cptr.splits)
  then have bad: "\<not> list_all (\<lambda>i. schedule_seconds_size i > 0) ivs"
    using assms(2) False by (simp add: ptr_list_def)
  obtain js where js: "copy_intervals [] ivs = Some js"
    "\<not> list_all (\<lambda>i. schedule_seconds i \<noteq> Wild) js"
    using ivs(2) bad copy_intervals_wild by blast
  obtain f where f: "filename s = Ptr f"
    using assms(1) by (auto simp: wf_track_def)
  show ?thesis
    using False ivs(1) js f
    by (simp add: track_copy_def Let_def ptr_list_def track_free_def free_null_def)
qed

theorem track_copy_keeps_wild_witness:
  "\<exists>d. track_copy [] (Some wild_track)
         (Some (sample_track\<lparr>date_intervals := NULL, date_intervals_size := 0\<rparr>)) = (True, Some d) \<and>
       track_free d = None"
  by (rule track_copy_keeps_wild) (simp_all add: wf_track_def sample_track_def)

end
