(* ===== verification/StreamPlaylist.thy ===== *)
theory StreamPlaylist
  imports Prelude Strings
begin

text \<open>
  \<open>src/firmware/main/audio/stream_playlist.c\<close>: recognition of a playlist file of streams
  and extraction of the stream's address. The files of the card are a map from paths to
  contents; the HTTP client is a parameter that gives, for an address, the status and the
  bytes it reads. \<open>fgets\<close>, \<open>strncpy\<close> and \<open>strtok_r\<close> are modelled with their
  limits.
\<close>

type_synonym files = "string \<rightharpoonup> string"

abbreviation LF :: char where
  "LF \<equiv> CHR 0x0A"

section \<open>C library routines\<close>

text \<open>One \<open>fgets\<close> into a buffer with room for \<open>k\<close> characters, and the rest.\<close>

fun take_line :: "nat \<Rightarrow> string \<Rightarrow> string \<times> string" where
  "take_line 0 s = ([], s)"
| "take_line (Suc k) [] = ([], [])"
| "take_line (Suc k) (c # cs) =
     (if c = LF then ([c], cs) else let (a, b) = take_line k cs in (c # a, b))"

lemma take_line_append: "take_line k s = (a, b) \<Longrightarrow> s = a @ b"
  by (induction k s arbitrary: a b rule: take_line.induct)
     (auto split: if_splits prod.splits)

lemma take_line_progress: "take_line (Suc k) (c # cs) = (a, b) \<Longrightarrow> length b \<le> length cs"
  by (auto split: if_splits prod.splits dest: take_line_append)

text \<open>The pieces that a loop of \<open>fgets(line, k + 1, f)\<close> sees.\<close>

function fgets_all :: "nat \<Rightarrow> string \<Rightarrow> string list" where
  "fgets_all k [] = []"
| "fgets_all 0 (c # cs) = []"
| "fgets_all (Suc k) (c # cs) =
     fst (take_line (Suc k) (c # cs)) # fgets_all (Suc k) (snd (take_line (Suc k) (c # cs)))"
  by pat_completeness auto
termination
  by (relation "measure (\<lambda>(k, s). length s)")
     (auto dest: take_line_progress split: prod.splits simp del: take_line.simps
       intro!: le_imp_less_Suc, metis prod.collapse take_line_progress)

text \<open>\<open>strncpy(dst, s, n)\<close>: None when no terminating NUL fits.\<close>

definition strncpy :: "nat \<Rightarrow> string \<Rightarrow> string option" where
  "strncpy n s = (if length s < n then Some s else None)"

fun has_substring :: "string \<Rightarrow> string \<Rightarrow> bool" where
  "has_substring p [] = (p = [])"
| "has_substring p (c # cs) = (starts_with p (c # cs) \<or> has_substring p cs)"

text \<open>The tokens \<open>strtok_r\<close> finds with one delimiter.\<close>

fun tokens :: "char \<Rightarrow> string \<Rightarrow> string \<Rightarrow> string list" where
  "tokens d acc [] = (if acc = [] then [] else [rev acc])"
| "tokens d acc (c # cs) =
     (if c = d then (if acc = [] then [] else [rev acc]) @ tokens d [] cs
      else tokens d (c # acc) cs)"

definition strtok :: "char \<Rightarrow> string \<Rightarrow> string list" where
  "strtok d s = tokens d [] s"

section \<open>Recognition\<close>

text \<open>What one line of the loop yields: the address in it, if the line is one.\<close>

definition stream_line :: "string \<Rightarrow> string option" where
  "stream_line l =
     (let line = cstr l
      in if starts_with ''#'' line then None
         else let line = string_chomp line
              in if starts_with ''http'' line then Some line
                 else if starts_with ''File1='' line then Some (drop 6 line)
                 else None)"

fun first_stream_line :: "string list \<Rightarrow> string option" where
  "first_stream_line [] = None"
| "first_stream_line (l # ls) =
     (case stream_line l of Some u \<Rightarrow> Some u | None \<Rightarrow> first_stream_line ls)"

definition stream_playlist_is_stream :: "files \<Rightarrow> string \<Rightarrow> bool" where
  "stream_playlist_is_stream fs fname =
     (if \<not> string_ends_with fname ''.m3u'' \<and> \<not> string_ends_with fname ''.pls'' then False
      else (case fs fname of
              None \<Rightarrow> False
            | Some content \<Rightarrow> first_stream_line (fgets_all 511 content) \<noteq> None))"

section \<open>Extraction\<close>

text \<open>
  The HTTP request: a failed request and a chunked response give status 0 and no bytes. The
  rest of the 1024 byte buffer is what \<open>malloc\<close> returned.
\<close>

datatype http_outcome = HttpFailed | HttpChunked | HttpReply int string

definition http_get :: "(string \<Rightarrow> http_outcome) \<Rightarrow> string \<Rightarrow> nat \<Rightarrow> int \<times> string" where
  "http_get net uri data_max_length =
     (case net uri of
        HttpFailed \<Rightarrow> (0, [])
      | HttpChunked \<Rightarrow> (0, [])
      | HttpReply status bytes \<Rightarrow> (status, take data_max_length bytes))"

definition fetch_playlist_by_url ::
  "(string \<Rightarrow> http_outcome) \<Rightarrow> string \<Rightarrow> string \<Rightarrow> nat \<Rightarrow> string option" where
  "fetch_playlist_by_url net url junk buffer_size =
     (let (status, bytes) = http_get net url buffer_size
      in if status = 200 \<or> status = 201
         then Some (bytes @ drop (length bytes) (take buffer_size junk))
         else None)"

fun first_file1 :: "string list \<Rightarrow> string option" where
  "first_file1 [] = None"
| "first_file1 (t # ts) =
     (if starts_with ''File1='' t then Some (drop 6 (string_chomp t)) else first_file1 ts)"

text \<open>
  The outcome of the extraction: no address; the address, terminated within the buffer; or a
  buffer without a terminating NUL, whose later reads run past it.
\<close>

datatype parse_outcome = ParseFailed | Parsed string | ParseUnterminated

definition put_result :: "nat \<Rightarrow> string \<Rightarrow> parse_outcome" where
  "put_result n s = (case strncpy n s of Some u \<Rightarrow> Parsed u | None \<Rightarrow> ParseUnterminated)"

definition stream_playlist_parse_file ::
  "(string \<Rightarrow> http_outcome) \<Rightarrow> string \<Rightarrow> files \<Rightarrow> string \<Rightarrow> nat \<Rightarrow> parse_outcome" where
  "stream_playlist_parse_file net junk fs fname result_length =
     (case fs fname of
        None \<Rightarrow> ParseFailed
      | Some content \<Rightarrow>
        (case first_stream_line (fgets_all (result_length + 11) content) of
           None \<Rightarrow> ParseFailed
         | Some u \<Rightarrow>
           (case put_result result_length u of
              Parsed url \<Rightarrow>
                if has_substring ''.pls'' url then
                  (case fetch_playlist_by_url net url junk 1024 of
                     None \<Rightarrow> ParseFailed
                   | Some buffer \<Rightarrow>
                     (case first_file1 (strtok LF (cstr (buffer[1023 := NUL]))) of
                        None \<Rightarrow> ParseFailed
                      | Some v \<Rightarrow> put_result result_length v))
                else Parsed url
            | r \<Rightarrow> r)))"

section \<open>Properties\<close>

text \<open>
  A content whose lines, with their newline, fit into \<open>k\<close> characters, \<open>m\<close> of them
  being left for the current line.
\<close>

fun lines_fit :: "nat \<Rightarrow> nat \<Rightarrow> string \<Rightarrow> bool" where
  "lines_fit k m [] = True"
| "lines_fit k 0 (c # cs) = False"
| "lines_fit k (Suc m) (c # cs) = lines_fit k (if c = LF then k else m) cs"

lemma take_line_fit:
  "lines_fit k m s \<Longrightarrow> take_line (m + j) s = take_line m s \<and> lines_fit k k (snd (take_line m s))"
proof (induction k m s rule: lines_fit.induct)
  case (1 k m)
  then show ?case by (cases m; cases j) auto
qed (auto split: prod.splits if_splits)

lemma fgets_all_fit: "lines_fit k k s \<Longrightarrow> fgets_all (k + j) s = fgets_all k s"
proof (induction k s rule: fgets_all.induct)
  case (3 k c cs)
  from take_line_fit [OF 3(2), of j] 3(1)
  have "take_line (Suc (k + j)) (c # cs) = take_line (Suc k) (c # cs)"
    "fgets_all (Suc (k + j)) (snd (take_line (Suc k) (c # cs))) =
       fgets_all (Suc k) (snd (take_line (Suc k) (c # cs)))"
    by (simp_all del: take_line.simps)
  then show ?case by (simp del: take_line.simps)
qed auto

text \<open>
  On a playlist file whose lines, with their newlines, are at most 511 characters long,
  recognition and extraction agree: the file is taken for a stream exactly when the
  extraction into a 512 byte buffer finds an address that fits, unless the address names a
  further \<open>.pls\<close> playlist, which is fetched over the network.
\<close>

theorem is_stream_iff_parsed:
  assumes "fs fname = Some content" and "lines_fit 511 511 content"
    and "string_ends_with fname ''.m3u'' \<or> string_ends_with fname ''.pls''"
    and "\<And>u. first_stream_line (fgets_all 511 content) = Some u \<Longrightarrow>
           length u < 512 \<and> \<not> has_substring ''.pls'' u"
  shows "stream_playlist_is_stream fs fname \<longleftrightarrow>
         (\<exists>u. stream_playlist_parse_file net junk fs fname 512 = Parsed u)"
proof -
  have "fgets_all (512 + 11) content = fgets_all 511 content"
    using fgets_all_fit [OF assms(2), of 12] by simp
  then show ?thesis
    using assms by (auto simp: stream_playlist_is_stream_def stream_playlist_parse_file_def
        put_result_def strncpy_def split: option.splits)
qed

definition radio_m3u :: string where
  "radio_m3u = ''#EXTM3U'' @ [LF] @ ''http://a/b'' @ [CHR 0x0D, LF]"

theorem is_stream_iff_parsed_witness:
  "stream_playlist_is_stream [''/sd/r.m3u'' \<mapsto> radio_m3u] ''/sd/r.m3u'' \<longleftrightarrow>
     (\<exists>u. stream_playlist_parse_file (\<lambda>_. HttpFailed) [] [''/sd/r.m3u'' \<mapsto> radio_m3u]
        ''/sd/r.m3u'' 512 = Parsed u)"
proof (rule is_stream_iff_parsed)
  show "lines_fit 511 511 radio_m3u"
    by code_simp
  show "length u < 512 \<and> \<not> has_substring ''.pls'' u"
    if "first_stream_line (fgets_all 511 radio_m3u) = Some u" for u
  proof -
    have "first_stream_line (fgets_all 511 radio_m3u) = Some ''http://a/b''"
      by code_simp
    with that show ?thesis by (auto simp: starts_with_def)
  qed
qed (simp_all add: string_ends_with_def)

text \<open>
  Extraction of an address that is not a further \<open>.pls\<close> playlist gives it back when
  it is shorter than the result buffer; an address at least as long as the buffer is copied
  without a terminating NUL, so the search for \<open>.pls\<close> and every later use of the result
  read past the buffer.
\<close>

theorem parse_terminated_iff:
  assumes "fs fname = Some content"
    and "first_stream_line (fgets_all (n + 11) content) = Some u"
    and "\<not> has_substring ''.pls'' u"
  shows "stream_playlist_parse_file net junk fs fname n =
         (if length u < n then Parsed u else ParseUnterminated)"
  using assms by (simp add: stream_playlist_parse_file_def put_result_def strncpy_def)

theorem parse_terminated_iff_witness:
  "stream_playlist_parse_file (\<lambda>_. HttpFailed) [] [''/sd/r.m3u'' \<mapsto> radio_m3u] ''/sd/r.m3u'' 9
     = ParseUnterminated"
proof -
  have "first_stream_line (fgets_all (9 + 11) radio_m3u) = Some ''http://a/b''"
    by code_simp
  then show ?thesis
    using parse_terminated_iff [of "[''/sd/r.m3u'' \<mapsto> radio_m3u]" "''/sd/r.m3u''" radio_m3u 9]
    by (simp add: starts_with_def)
qed

end
