(* ===== verification/Recurse.thy ===== *)
theory Recurse
  imports Prelude
begin

text \<open>
  \<open>src/firmware/main/playlist/offline/recurse.c\<close>: the depth-bounded walk over the
  directory tree of the card, which counts the files a predicate accepts and hands each with
  its running index to a callback. A directory entry is a regular file or a directory; a
  directory that \<open>opendir\<close> cannot open has no entry list. The optional pointers of the
  code (index, callback, predicate) are options. The callback acts on a state of its caller.
\<close>

datatype dnode = DReg | DDir "(string \<times> dnode) list option"

abbreviation RECURSE_MAX_DEPTH :: nat where
  "RECURSE_MAX_DEPTH \<equiv> 10"

definition newpath :: "string \<Rightarrow> string \<Rightarrow> string" where
  "newpath path name = path @ ''/'' @ name"

text \<open>The two branches for an entry that is not a directory.\<close>

definition visit_file ::
  "(string \<Rightarrow> bool) option \<Rightarrow> (string \<Rightarrow> u16 \<Rightarrow> 's \<Rightarrow> 's) option \<Rightarrow> string \<Rightarrow> u16 option \<Rightarrow> 's \<Rightarrow>
     u32 \<times> u16 option \<times> 's" where
  "visit_file match_func callback file index s =
     (case match_func of
        None \<Rightarrow> (0, index, s)
      | Some m \<Rightarrow>
        if m file then
          (1, map_option (\<lambda>i. i + 1) index,
           (case (callback, index) of (Some cb, Some i) \<Rightarrow> cb file i s | _ \<Rightarrow> s))
        else (0, index, s))"

abbreviation entries_size :: "(string \<times> dnode) list \<Rightarrow> nat" where
  "entries_size \<equiv> size_list (size_prod (\<lambda>_. 0) size)"

function (sequential) recurse_dir ::
  "(string \<Rightarrow> bool) option \<Rightarrow> (string \<Rightarrow> u16 \<Rightarrow> 's \<Rightarrow> 's) option \<Rightarrow> string \<Rightarrow> nat \<Rightarrow> dnode \<Rightarrow>
     u16 option \<Rightarrow> 's \<Rightarrow> u32 \<times> u16 option \<times> 's"
  and recurse_loop ::
  "(string \<Rightarrow> bool) option \<Rightarrow> (string \<Rightarrow> u16 \<Rightarrow> 's \<Rightarrow> 's) option \<Rightarrow> string \<Rightarrow> nat \<Rightarrow>
     (string \<times> dnode) list \<Rightarrow> u32 \<Rightarrow> u16 option \<Rightarrow> 's \<Rightarrow> u32 \<times> u16 option \<times> 's" where
  "recurse_dir m cb path depth node index s =
     (if depth > RECURSE_MAX_DEPTH then (0, index, s)
      else (case node of
              DDir (Some es) \<Rightarrow> recurse_loop m cb path depth es 0 index s
            | _ \<Rightarrow> (0, index, s)))"
| "recurse_loop m cb path depth [] files_in_dir index s = (files_in_dir, index, s)"
| "recurse_loop m cb path depth ((d_name, DReg) # es) files_in_dir index s =
     (let (n, index', s') = visit_file m cb (newpath path d_name) index s
      in recurse_loop m cb path depth es (files_in_dir + n) index' s')"
| "recurse_loop m cb path depth ((d_name, DDir sub) # es) files_in_dir index s =
     (if d_name \<noteq> ''.'' \<and> d_name \<noteq> ''..'' then
        (let (n, index', s') =
               recurse_dir m cb (newpath path d_name) (depth + 1) (DDir sub) index s
         in recurse_loop m cb path depth es (files_in_dir + n) index' s')
      else recurse_loop m cb path depth es files_in_dir index s)"
  by pat_completeness auto

termination
  by (relation "measure (\<lambda>x. case x of
        Inl (m, cb, p, d, node, i, s) \<Rightarrow> size node
      | Inr (m, cb, p, d, es, n, i, s) \<Rightarrow> entries_size es)") auto

declare recurse_dir.simps [simp del]

section \<open>The walk as a list of files\<close>

text \<open>The files below a directory that the walk reaches, in its order.\<close>

function files_of :: "string \<Rightarrow> nat \<Rightarrow> dnode \<Rightarrow> string list"
  and files_in :: "string \<Rightarrow> nat \<Rightarrow> (string \<times> dnode) list \<Rightarrow> string list" where
  "files_of path 0 node = []"
| "files_of path (Suc levels) DReg = []"
| "files_of path (Suc levels) (DDir None) = []"
| "files_of path (Suc levels) (DDir (Some es)) = files_in path levels es"
| "files_in path levels [] = []"
| "files_in path levels ((name, DReg) # es) = newpath path name # files_in path levels es"
| "files_in path levels ((name, DDir sub) # es) =
     (if name = ''.'' \<or> name = ''..'' then [] else files_of (newpath path name) levels (DDir sub))
     @ files_in path levels es"
  by pat_completeness auto
termination
  by (relation "measure (\<lambda>x. case x of
        Inl (p, d, node) \<Rightarrow> size node
      | Inr (p, d, es) \<Rightarrow> entries_size es)") auto

text \<open>Handing the files of a list to the callback with increasing indices.\<close>

fun feed :: "(string \<Rightarrow> u16 \<Rightarrow> 's \<Rightarrow> 's) \<Rightarrow> string list \<Rightarrow> u16 \<Rightarrow> 's \<Rightarrow> 's" where
  "feed cb [] i s = s"
| "feed cb (f # fs) i s = feed cb fs (i + 1) (cb f i s)"

lemma feed_append: "feed cb (fs @ gs) i s = feed cb gs (i + of_nat (length fs)) (feed cb fs i s)"
  by (induction fs arbitrary: i s) (auto simp: algebra_simps)

lemma recurse_walk:
  "depth + levels = Suc RECURSE_MAX_DEPTH \<Longrightarrow>
     recurse_dir (Some m) (Some cb) path depth node (Some i) s =
       (let fs = filter m (files_of path levels node)
        in (of_nat (length fs), Some (i + of_nat (length fs)), feed cb fs i s))"
  "depth + Suc lv = Suc RECURSE_MAX_DEPTH \<Longrightarrow>
     recurse_loop (Some m) (Some cb) path depth es n (Some i) s =
       (let fs = filter m (files_in path lv es)
        in (n + of_nat (length fs), Some (i + of_nat (length fs)), feed cb fs i s))"
proof (induction path levels node and path lv es arbitrary: depth i s and depth n i s
    rule: files_of_files_in.induct)
  case (7 path levels name sub es)
  then show ?case
    by (auto simp: Let_def feed_append algebra_simps split: prod.splits)
qed (auto simp: Let_def visit_file_def recurse_dir.simps algebra_simps)

lemma feed_invariant:
  "I s \<Longrightarrow> (\<And>f j s. f \<in> set fs \<Longrightarrow> I s \<Longrightarrow> I (cb f j s)) \<Longrightarrow> I (feed cb fs i s)"
  by (induction fs arbitrary: i s) auto

lemma feed_indexed:
  "I s \<Longrightarrow> (\<And>k s. k < length fs \<Longrightarrow> I s \<Longrightarrow> I (cb (fs ! k) (of_nat (n + k)) s)) \<Longrightarrow>
     I (feed cb fs (of_nat n) s)"
proof (induction fs arbitrary: n s)
  case (Cons f fs)
  have "I (cb f (of_nat n) s)" using Cons.prems(2) [of 0] Cons.prems(1) by simp
  moreover have "I (cb (fs ! k) (of_nat (Suc n + k)) s)" if "k < length fs" "I s" for k s
    using Cons.prems(2) [of "Suc k"] that by simp
  ultimately have "I (feed cb fs (of_nat (Suc n)) (cb f (of_nat n) s))"
    by (intro Cons.IH) auto
  then show ?case by (simp add: add.commute)
qed simp

text \<open>
  C34: a walk from depth 0 visits exactly the accepted files on the readable directories down
  to ten levels of nesting, in directory order: it returns their number, hands the k-th of
  them to the callback with index k, and leaves the index at their number. Two walks over the
  same card therefore give each file the same index.
\<close>

theorem recurse_dir_spec:
  "recurse_dir (Some m) (Some cb) path 0 node (Some 0) s =
     (let fs = filter m (files_of path 11 node)
      in (of_nat (length fs), Some (of_nat (length fs)), feed cb fs 0 s))"
  using recurse_walk(1) [of 0 11 m cb path node 0 s] by simp

end
