(* ===== verification/Trail.thy ===== *)
theory Trail
  imports Prelude
begin

text \<open>
  \<open>src/firmware/main/playlist/offline/random.c\<close>: the random choice of the next file, which
  avoids the last choices. The static variables are a record; the hardware generator
  \<open>esp_random\<close> is a stream of 32-bit numbers, \<open>rng_pos\<close> counting those drawn.
\<close>

abbreviation RANDOM_MAX_TRAIL :: nat where
  "RANDOM_MAX_TRAIL \<equiv> 32"

record random_state =
  maximum :: u16
  trail :: "u16 list"
  trail_index :: nat
  rng_pos :: nat

definition random_zero :: random_state where
  "random_zero = \<lparr>maximum = 0, trail = replicate RANDOM_MAX_TRAIL 0, trail_index = 0, rng_pos = 0\<rparr>"

definition random_init :: "u16 \<Rightarrow> random_state \<Rightarrow> random_state" where
  "random_init mx st = st\<lparr>maximum := mx\<rparr>"

definition random_reset :: "random_state \<Rightarrow> random_state" where
  "random_reset st = st\<lparr>trail := replicate RANDOM_MAX_TRAIL 0, trail_index := 0\<rparr>"

definition rng :: "(nat \<Rightarrow> u32) \<Rightarrow> random_state \<Rightarrow> u16 \<times> random_state" where
  "rng esp_random st =
     (if maximum st = 0 then (0, st)
      else (ucast (esp_random (rng_pos st) mod ucast (maximum st)), st\<lparr>rng_pos := rng_pos st + 1\<rparr>))"

definition is_in_trail :: "u16 \<Rightarrow> random_state \<Rightarrow> bool" where
  "is_in_trail num st = list_ex (\<lambda>x. num = x) (trail st)"

text \<open>\<open>do { value = rng(); } while (is_in_trail(value) && tries-- > 0);\<close>\<close>

fun draw :: "(nat \<Rightarrow> u32) \<Rightarrow> nat \<Rightarrow> random_state \<Rightarrow> u16 \<times> random_state" where
  "draw esp_random tries st =
     (case rng esp_random st of (value, st') \<Rightarrow>
        if is_in_trail value st' then
          (case tries of 0 \<Rightarrow> (value, st') | Suc tries' \<Rightarrow> draw esp_random tries' st')
        else (value, st'))"

declare draw.simps [simp del]

definition random_next :: "(nat \<Rightarrow> u32) \<Rightarrow> random_state \<Rightarrow> u16 \<times> random_state" where
  "random_next esp_random st =
     (case draw esp_random 200 st of (value, st') \<Rightarrow>
        let st'' = st'\<lparr>trail := (trail st')[trail_index st' := value],
                       trail_index := trail_index st' + 1\<rparr>
        in (value, if trail_index st'' \<ge> RANDOM_MAX_TRAIL then random_reset st'' else st''))"

section \<open>Invariant\<close>

text \<open>The trail holds the choices since the last reset, followed by zeros, at least one.\<close>

definition trail_inv :: "u16 list \<Rightarrow> random_state \<Rightarrow> bool" where
  "trail_inv cs st =
     (trail_index st = length cs \<and> length cs < RANDOM_MAX_TRAIL \<and>
      trail st = cs @ replicate (RANDOM_MAX_TRAIL - length cs) 0)"

lemma is_in_trail_iff: "trail_inv cs st \<Longrightarrow> is_in_trail v st \<longleftrightarrow> v = 0 \<or> v \<in> set cs"
  by (auto simp: is_in_trail_def trail_inv_def list_ex_iff set_replicate_conv_if)

lemma trail_inv_init [inv_intros]: "trail_inv cs st \<Longrightarrow> trail_inv cs (random_init m st)"
  by (simp add: trail_inv_def random_init_def)

lemma trail_inv_reset [inv_intros]: "trail_inv [] (random_reset st)"
  by (simp add: trail_inv_def random_reset_def)

lemma rng_frame:
  "rng r st = (v, st') \<Longrightarrow>
     trail st' = trail st \<and> trail_index st' = trail_index st \<and> maximum st' = maximum st \<and>
     rng_pos st \<le> rng_pos st'"
  by (auto simp: rng_def split: if_splits)

lemma draw_frame:
  "draw r k st = (v, st') \<Longrightarrow>
     trail st' = trail st \<and> trail_index st' = trail_index st \<and> maximum st' = maximum st"
proof (induction k arbitrary: st)
  case 0
  then show ?case
    by (subst (asm) draw.simps) (auto split: prod.splits if_splits dest: rng_frame)
next
  case (Suc k)
  obtain v1 st1 where r: "rng r st = (v1, st1)" by fastforce
  from rng_frame [OF r] Suc r show ?case
    by (cases "is_in_trail v1 st1") (subst (asm) (2) draw.simps, auto)+
qed

text \<open>The value of one draw, by the position of the generator.\<close>

definition drawn :: "(nat \<Rightarrow> u32) \<Rightarrow> random_state \<Rightarrow> nat \<Rightarrow> u16" where
  "drawn r st j = (if maximum st = 0 then 0 else ucast (r (rng_pos st + j) mod ucast (maximum st)))"

lemma rng_drawn: "rng r st = (v, st') \<Longrightarrow> v = drawn r st 0 \<and> (\<forall>j. drawn r st' j = drawn r st (Suc j))"
  by (auto simp: rng_def drawn_def split: if_splits)

lemma is_in_trail_cong: "trail st = trail st' \<Longrightarrow> is_in_trail v st = is_in_trail v st'"
  by (simp add: is_in_trail_def)

text \<open>
  The loop returns its first draw outside the trail, or the last of its \<open>k + 1\<close> draws when
  none is.
\<close>

lemma draw_spec:
  "draw r k st = (v, st') \<Longrightarrow>
     (\<exists>j\<le>k. v = drawn r st j \<and> (\<forall>i<j. is_in_trail (drawn r st i) st) \<and>
            (is_in_trail v st \<longrightarrow> j = k))"
proof (induction k arbitrary: st)
  case 0
  then show ?case
    by (subst (asm) draw.simps) (auto split: prod.splits if_splits dest: rng_drawn)
next
  case (Suc k)
  obtain v1 st1 where r: "rng r st = (v1, st1)" by fastforce
  have fr: "trail st1 = trail st" and v1: "v1 = drawn r st 0"
    and sh: "\<And>j. drawn r st1 j = drawn r st (Suc j)"
    using rng_frame [OF r] rng_drawn [OF r] by auto
  have tr: "\<And>x. is_in_trail x st1 = is_in_trail x st"
    using fr by (simp add: is_in_trail_def)
  show ?case
  proof (cases "is_in_trail v1 st")
    case True
    with Suc.prems r tr have "draw r k st1 = (v, st')"
      by (subst (asm) draw.simps) simp
    from Suc.IH [OF this] obtain j where j: "j \<le> k" "v = drawn r st (Suc j)"
      "\<forall>i<j. is_in_trail (drawn r st (Suc i)) st" "is_in_trail v st \<longrightarrow> j = k"
      unfolding sh tr by blast
    have "\<forall>i<Suc j. is_in_trail (drawn r st i) st"
    proof (intro allI impI)
      fix i
      assume i: "i < Suc j"
      show "is_in_trail (drawn r st i) st"
      proof (cases i)
        case 0
        with True v1 show ?thesis by simp
      next
        case (Suc n)
        with i have "n < j" by simp
        with j(3) Suc show ?thesis by blast
      qed
    qed
    moreover have "Suc j \<le> Suc k" using j(1) by simp
    ultimately show ?thesis using j(2,4) by blast
  next
    case False
    with Suc.prems r tr have "v = v1"
      by (subst (asm) draw.simps) simp
    with False v1 show ?thesis by (intro exI [of _ 0]) simp
  qed
qed

lemma drawn_bound: "0 < maximum st \<Longrightarrow> drawn r st j < maximum st"
proof -
  assume m: "0 < maximum st"
  have u: "unat (ucast (maximum st) :: u32) = unat (maximum st)"
    using unsigned_less [of "maximum st", where ?'a = nat]
    by (simp add: unsigned_ucast_eq take_bit_nat_eq_self)
  have "r (rng_pos st + j) mod ucast (maximum st) < ucast (maximum st)"
    using m u by (intro word_mod_less_divisor) (simp add: word_less_nat_alt)
  then have "unat (r (rng_pos st + j) mod ucast (maximum st)) < unat (maximum st)"
    by (simp add: word_less_nat_alt u)
  moreover have "unat (maximum st) < 65536"
    using unsigned_less [of "maximum st", where ?'a = nat] by simp
  ultimately show ?thesis
    using m by (auto simp: drawn_def word_less_nat_alt unsigned_ucast_eq take_bit_eq_mod)
qed


lemma trail_inv_next:
  assumes "trail_inv cs st" and "random_next r st = (v, st')"
  shows "maximum st' = maximum st \<and>
         trail_inv (if Suc (length cs) = RANDOM_MAX_TRAIL then [] else cs @ [v]) st'"
proof -
  obtain st1 where d: "draw r 200 st = (v, st1)"
    using assms(2) by (auto simp: random_next_def Let_def split: prod.splits)
  have 1: "trail st1 = cs @ replicate (32 - length cs) 0" "trail_index st1 = length cs"
    "maximum st1 = maximum st" "length cs < 32"
    using draw_frame [OF d] assms(1) by (auto simp: trail_inv_def)
  then have "(trail st1)[length cs := v] = (cs @ [v]) @ replicate (32 - Suc (length cs)) 0"
    by (simp add: list_update_append Cons_replicate_eq [symmetric] Suc_diff_Suc [symmetric])
  then show ?thesis
    using assms(2) d 1 by (auto simp: random_next_def random_reset_def trail_inv_def)
qed

lemma random_next_bound:
  assumes "random_next r st = (v, st')"
  shows "if maximum st = 0 then v = 0 else v < maximum st"
proof -
  obtain st1 where d: "draw r 200 st = (v, st1)"
    using assms by (auto simp: random_next_def Let_def split: prod.splits)
  from draw_spec [OF d] obtain j where "v = drawn r st j" by blast
  then show ?thesis
    using drawn_bound [of st r j] by (simp add: drawn_def word_gt_0)
qed

text \<open>
  The next index is below the maximum (0 when the maximum is 0) and differs from 0 and
  from every index chosen since the last reset, unless all 201 draws of the generator hit
  those; the choice is recorded, and after 32 choices the trail starts afresh.
\<close>

theorem random_next_spec:
  assumes "trail_inv cs st" and "random_next r st = (v, st')"
  shows "(if maximum st = 0 then v = 0 else v < maximum st) \<and>
         ((v \<noteq> 0 \<and> v \<notin> set cs) \<or>
          (\<forall>j\<le>200. drawn r st j = 0 \<or> drawn r st j \<in> set cs)) \<and>
         maximum st' = maximum st \<and>
         trail_inv (if Suc (length cs) = RANDOM_MAX_TRAIL then [] else cs @ [v]) st'"
proof -
  obtain st1 where d: "draw r 200 st = (v, st1)"
    using assms(2) by (auto simp: random_next_def Let_def split: prod.splits)
  from draw_spec [OF d] obtain j where j: "j \<le> 200" "v = drawn r st j"
    "\<forall>i<j. is_in_trail (drawn r st i) st" "is_in_trail v st \<longrightarrow> j = 200"
    by blast
  have "(v \<noteq> 0 \<and> v \<notin> set cs) \<or>
      (\<forall>j\<le>200. drawn r st j = 0 \<or> drawn r st j \<in> set cs)"
    using j is_in_trail_iff [OF assms(1)] by (metis le_neq_implies_less)
  then show ?thesis
    using trail_inv_next [OF assms] random_next_bound [OF assms(2)] by blast
qed

definition counting :: "nat \<Rightarrow> u32" where
  "counting n = of_nat n"

definition five_files :: random_state where
  "five_files = random_init 5 (random_reset random_zero)"

theorem random_next_spec_witness:
  "\<exists>st'. random_next counting five_files = (1, st') \<and> trail_inv [1] st'"
proof -
  obtain v st' where n: "random_next counting five_files = (v, st')"
    by fastforce
  have inv: "trail_inv [] five_files"
    by (simp add: five_files_def inv_intros)
  have "fst (random_next counting five_files) = 1"
    by code_simp
  then have "v = 1"
    using n by simp
  with random_next_spec [OF inv n] n show ?thesis by auto
qed

end
