(* ===== verification/StreamScheduler.thy ===== *)
theory StreamScheduler
  imports Prelude Recurse StreamPlaylist "HOL-Library.Multiset"
begin

text \<open>
  \<open>src/firmware/main/playlist/stream_scheduler.c\<close>: which of the card's files are streams
  and which of the streams are dead. Both are fixed arrays of 64 slots of \<open>uint16_t\<close>,
  65535 marking a free slot. The contract of such a slot list is the locale
  \<open>slot_list\<close>; the scheduler's own lemmas rest on its interpretation. Taking the mutex
  when it does not exist stops the firmware (a FreeRTOS assertion), which is None.
\<close>

abbreviation STREAM_SCHEDULER_MAX_STREAMS :: nat where
  "STREAM_SCHEDULER_MAX_STREAMS \<equiv> 64"

definition BLANK_LIST_ITEM :: u16 where
  "BLANK_LIST_ITEM = 65535"

section \<open>Slot lists\<close>

fun list_add :: "u16 list \<Rightarrow> u16 \<Rightarrow> bool \<times> u16 list" where
  "list_add [] v = (False, [])"
| "list_add (x # xs) v =
     (if x = BLANK_LIST_ITEM then (True, v # xs)
      else (case list_add xs v of (result, ys) \<Rightarrow> (result, x # ys)))"

fun list_remove :: "u16 list \<Rightarrow> u16 \<Rightarrow> bool \<times> u16 list" where
  "list_remove [] v = (False, [])"
| "list_remove (x # xs) v =
     (case list_remove xs v of (result, ys) \<Rightarrow>
        if x = v then (True, BLANK_LIST_ITEM # ys) else (result, x # ys))"

fun list_contains :: "u16 list \<Rightarrow> u16 \<Rightarrow> bool" where
  "list_contains [] v = False"
| "list_contains (x # xs) v = (x = v \<or> list_contains xs v)"

fun list_size :: "u16 list \<Rightarrow> u8" where
  "list_size [] = 0"
| "list_size (x # xs) = (if x \<noteq> BLANK_LIST_ITEM then 1 else 0) + list_size xs"

definition slots :: "u16 list \<Rightarrow> u16 multiset" where
  "slots l = mset (filter (\<lambda>x. x \<noteq> BLANK_LIST_ITEM) l)"

definition wf_slots :: "u16 list \<Rightarrow> bool" where
  "wf_slots l = (length l = STREAM_SCHEDULER_MAX_STREAMS)"

text \<open>The contract: a bag of limited size, with removal of every occurrence.\<close>

locale slot_list =
  fixes add :: "'l \<Rightarrow> 'v \<Rightarrow> bool \<times> 'l"
    and remove :: "'l \<Rightarrow> 'v \<Rightarrow> bool \<times> 'l"
    and contains :: "'l \<Rightarrow> 'v \<Rightarrow> bool"
    and bag :: "'l \<Rightarrow> 'v multiset"
    and wf :: "'l \<Rightarrow> bool"
    and ok :: "'v \<Rightarrow> bool"
    and capacity :: nat
  assumes wf_add: "wf l \<Longrightarrow> wf (snd (add l v))"
    and wf_remove: "wf l \<Longrightarrow> wf (snd (remove l v))"
    and add_room: "wf l \<Longrightarrow> ok v \<Longrightarrow> size (bag l) < capacity \<Longrightarrow>
          fst (add l v) \<and> bag (snd (add l v)) = add_mset v (bag l)"
    and add_full: "wf l \<Longrightarrow> ok v \<Longrightarrow> \<not> size (bag l) < capacity \<Longrightarrow> add l v = (False, l)"
    and remove_bag: "ok v \<Longrightarrow> bag (snd (remove l v)) = filter_mset (\<lambda>x. x \<noteq> v) (bag l)"
    and contains_bag: "ok v \<Longrightarrow> contains l v \<longleftrightarrow> v \<in># bag l"
begin

lemma contains_remove:
  "ok v \<Longrightarrow> ok w \<Longrightarrow> contains (snd (remove l v)) w \<longleftrightarrow> w \<noteq> v \<and> contains l w"
  by (auto simp: contains_bag remove_bag)

lemma contains_add:
  "wf l \<Longrightarrow> ok v \<Longrightarrow> ok w \<Longrightarrow> size (bag l) < capacity \<Longrightarrow>
     contains (snd (add l v)) w \<longleftrightarrow> w = v \<or> contains l w"
  using add_room [of l v] by (auto simp: contains_bag)

lemma add_lost:
  "wf l \<Longrightarrow> ok v \<Longrightarrow> ok w \<Longrightarrow> \<not> size (bag l) < capacity \<Longrightarrow>
     contains (snd (add l v)) w \<longleftrightarrow> contains l w"
  by (simp add: add_full)

lemma size_remove: "ok v \<Longrightarrow> size (bag (snd (remove l v))) \<le> size (bag l)"
  by (simp add: remove_bag size_filter_mset_lesseq)

lemma size_add: "wf l \<Longrightarrow> ok v \<Longrightarrow> size (bag (snd (add l v))) \<le> Suc (size (bag l))"
  using add_room [of l v] add_full [of l v] by (cases "size (bag l) < capacity") auto

text \<open>Adding the same value over and over fills the list with it.\<close>

lemma repeated_add:
  "wf l \<Longrightarrow> ok v \<Longrightarrow> bag l = {#} \<Longrightarrow> k \<le> capacity \<Longrightarrow>
     wf (((\<lambda>l. snd (add l v)) ^^ k) l) \<and>
     bag (((\<lambda>l. snd (add l v)) ^^ k) l) = replicate_mset k v"
proof (induction k)
  case (Suc k)
  then show ?case
    using add_room [of "((\<lambda>l. snd (add l v)) ^^ k) l" v] wf_add by auto
qed simp

end

lemma length_list_add [simp]: "length (snd (list_add l v)) = length l"
  by (induction l) (auto split: prod.splits)

lemma length_list_remove [simp]: "length (snd (list_remove l v)) = length l"
  by (induction l) (auto split: prod.splits)

lemma slots_Cons:
  "slots (x # xs) = (if x = BLANK_LIST_ITEM then slots xs else add_mset x (slots xs))"
  by (simp add: slots_def)

lemma slots_Nil [simp]: "slots [] = {#}"
  by (simp add: slots_def)

lemma size_slots: "size (slots l) \<le> length l"
  by (induction l) (auto simp: slots_Cons)

lemma list_add_room:
  "v \<noteq> BLANK_LIST_ITEM \<Longrightarrow> size (slots l) < length l \<Longrightarrow>
     fst (list_add l v) \<and> slots (snd (list_add l v)) = add_mset v (slots l)"
  by (induction l) (auto simp: slots_Cons split: prod.splits)

lemma list_add_full:
  "\<not> size (slots l) < length l \<Longrightarrow> list_add l v = (False, l)"
proof (induction l)
  case (Cons x xs)
  then show ?case
    using size_slots [of xs] by (auto simp: slots_Cons split: if_splits)
qed simp

lemma slots_list_remove:
  "v \<noteq> BLANK_LIST_ITEM \<Longrightarrow> slots (snd (list_remove l v)) = filter_mset (\<lambda>x. x \<noteq> v) (slots l)"
  by (induction l) (auto simp: slots_Cons split: prod.splits)

lemma list_contains_slots: "v \<noteq> BLANK_LIST_ITEM \<Longrightarrow> list_contains l v \<longleftrightarrow> v \<in># slots l"
  by (induction l) (auto simp: slots_Cons)

lemma list_size_slots: "list_size l = of_nat (size (slots l))"
  by (induction l) (auto simp: slots_Cons)

interpretation dl: slot_list list_add list_remove list_contains slots wf_slots
  "\<lambda>v. v \<noteq> BLANK_LIST_ITEM" STREAM_SCHEDULER_MAX_STREAMS
  by unfold_locales
     (auto simp: wf_slots_def list_add_room list_add_full slots_list_remove list_contains_slots)

lemma list_size_zero: "wf_slots l \<Longrightarrow> list_size l = 0 \<longleftrightarrow> slots l = {#}"
proof -
  assume "wf_slots l"
  then have "size (slots l) < 256"
    using size_slots [of l] by (simp add: wf_slots_def)
  then show ?thesis
    by (simp add: list_size_slots word_of_nat_eq_0_iff nat_dvd_not_less dvd_imp_le
        flip: size_eq_0_iff_empty) (use nat_dvd_not_less in auto)
qed

section \<open>The scheduler\<close>

record stream_sched =
  initialized :: bool
  known :: "u16 list"
  dead :: "u16 list"
  mutex :: bool
  storage_path :: "string option"
  sema :: "bool option"
  thread_handle :: bool

text \<open>
  The mutex and the binary semaphore either exist or not; \<open>sema\<close> is Some True after a
  give that no take has consumed. The outcomes of the two creations are arguments.
\<close>

definition stream_scheduler_deinit :: "stream_sched \<Rightarrow> stream_sched" where
  "stream_scheduler_deinit p =
     p\<lparr>thread_handle := False, initialized := False, mutex := False, sema := None\<rparr>"

definition stream_scheduler_init ::
  "bool \<Rightarrow> bool \<Rightarrow> string option \<Rightarrow> stream_sched \<Rightarrow> bool \<times> stream_sched" where
  "stream_scheduler_init mutex_ok sema_ok path p0 =
     (let blank = replicate STREAM_SCHEDULER_MAX_STREAMS BLANK_LIST_ITEM;
          p = p0\<lparr>known := blank, dead := blank, mutex := mutex_ok\<rparr>
      in if \<not> mutex_ok then (False, stream_scheduler_deinit p)
         else if \<not> sema_ok then (False, stream_scheduler_deinit (p\<lparr>sema := None\<rparr>))
         else if path = None then (False, stream_scheduler_deinit (p\<lparr>sema := Some False\<rparr>))
         else (True, p\<lparr>sema := Some False, storage_path := path, initialized := True\<rparr>))"

definition stream_scheduler_start :: "bool \<Rightarrow> stream_sched \<Rightarrow> bool \<times> stream_sched" where
  "stream_scheduler_start task_ok p =
     (task_ok, if task_ok then p\<lparr>thread_handle := True\<rparr> else p)"

definition stream_scheduler_max :: "stream_sched \<Rightarrow> u8 option" where
  "stream_scheduler_max p = (if mutex p then Some (list_size (known p)) else None)"

definition stream_scheduler_force_probe :: "stream_sched \<Rightarrow> stream_sched" where
  "stream_scheduler_force_probe p =
     (case sema p of None \<Rightarrow> p | Some _ \<Rightarrow> p\<lparr>sema := Some True\<rparr>)"

definition stream_scheduler_add_stream :: "u16 \<Rightarrow> stream_sched \<Rightarrow> (bool \<times> stream_sched) option" where
  "stream_scheduler_add_stream index p =
     (if \<not> initialized p then Some (False, p)
      else if \<not> mutex p then None
      else (case list_add (known p) index of (r, l) \<Rightarrow> Some (r, p\<lparr>known := l\<rparr>)))"

definition stream_scheduler_is_known_stream :: "u16 \<Rightarrow> stream_sched \<Rightarrow> bool option" where
  "stream_scheduler_is_known_stream index p =
     (if \<not> initialized p then Some False
      else if \<not> mutex p then None
      else Some (list_contains (known p) index))"

definition stream_scheduler_is_alive :: "u16 \<Rightarrow> stream_sched \<Rightarrow> bool option" where
  "stream_scheduler_is_alive index p =
     (if \<not> initialized p then Some False
      else if \<not> mutex p then None
      else Some (\<not> list_contains (dead p) index))"

definition stream_scheduler_mark_dead :: "u16 \<Rightarrow> stream_sched \<Rightarrow> stream_sched option" where
  "stream_scheduler_mark_dead index p =
     (if \<not> mutex p then None else Some (p\<lparr>dead := snd (list_add (dead p) index)\<rparr>))"

definition stream_scheduler_mark_alive :: "u16 \<Rightarrow> stream_sched \<Rightarrow> stream_sched option" where
  "stream_scheduler_mark_alive index p =
     (if \<not> mutex p then None else Some (p\<lparr>dead := snd (list_remove (dead p) index)\<rparr>))"

definition stream_scheduler_any_alive_streams :: "stream_sched \<Rightarrow> bool option" where
  "stream_scheduler_any_alive_streams p =
     (if \<not> initialized p then Some False
      else (case stream_scheduler_max p of
              None \<Rightarrow> None
            | Some n \<Rightarrow> if n = 0 then Some False else Some (list_size (dead p) = 0)))"

section \<open>The probing thread\<close>

text \<open>
  What one pass of the thread meets: the card, and for each file index (visited once per pass)
  whether the network is up, the address found in the playlist file, and whether
  \<open>stream_probe\<close> reaches an address.
\<close>

record probe_env =
  sd_card :: dnode
  match_file :: "string \<Rightarrow> bool"
  wifi_is_connected :: "u16 \<Rightarrow> bool"
  parse_file :: "string \<Rightarrow> parse_outcome"
  stream_probe :: "string \<Rightarrow> bool"

definition on_medifile_callback ::
  "probe_env \<Rightarrow> string \<Rightarrow> u16 \<Rightarrow> stream_sched option \<Rightarrow> stream_sched option" where
  "on_medifile_callback e path index po =
     (case po of None \<Rightarrow> None | Some p \<Rightarrow>
       (case stream_scheduler_is_known_stream index p of
          None \<Rightarrow> None
        | Some False \<Rightarrow> Some p
        | Some True \<Rightarrow>
            if \<not> wifi_is_connected e index then stream_scheduler_mark_dead index p
            else (case parse_file e path of
                    ParseFailed \<Rightarrow> stream_scheduler_mark_dead index p
                  | ParseUnterminated \<Rightarrow> None
                  | Parsed url \<Rightarrow>
                      if stream_probe e url then stream_scheduler_mark_alive index p
                      else stream_scheduler_mark_dead index p)))"

definition probe_pass :: "probe_env \<Rightarrow> stream_sched \<Rightarrow> stream_sched option" where
  "probe_pass e p =
     (case recurse_dir (Some (match_file e)) (Some (on_medifile_callback e))
             (case storage_path p of Some s \<Rightarrow> s | None \<Rightarrow> []) 0 (sd_card e) (Some 0) (Some p) of
        (n, i, q) \<Rightarrow> q)"

text \<open>The pause after a pass, in milliseconds, unless the semaphore is given earlier.\<close>

definition probe_wait :: "stream_sched \<Rightarrow> nat option" where
  "probe_wait p =
     map_option (\<lambda>a. if a then 1 * 3600 * 1000 else 10 * 1000) (stream_scheduler_any_alive_streams p)"

text \<open>
  The thread: a pass per environment, and between two passes what the other tasks did to the
  shared state while it waited; it leaves when it finds the scheduler no longer initialised.
\<close>

fun stream_thread ::
  "(probe_env \<times> (stream_sched \<Rightarrow> stream_sched)) list \<Rightarrow> stream_sched \<Rightarrow> stream_sched option" where
  "stream_thread [] p = Some p"
| "stream_thread ((e, others) # es) p =
     (case probe_pass e p of
        None \<Rightarrow> None
      | Some q \<Rightarrow>
        (case probe_wait q of
           None \<Rightarrow> None
         | Some _ \<Rightarrow>
             let r = (others q)\<lparr>sema := map_option (\<lambda>_. False) (sema (others q))\<rparr>
             in if initialized r then stream_thread es r else Some r))"

definition wf_sched :: "stream_sched \<Rightarrow> bool" where
  "wf_sched p = (initialized p \<and> mutex p \<and> wf_slots (known p) \<and> wf_slots (dead p))"

lemma init_wf: "wf_sched (snd (stream_scheduler_init True True (Some path) p))"
  by (simp add: stream_scheduler_init_def wf_sched_def wf_slots_def Let_def)


text \<open>The verdict of a probe of the stream in a file.\<close>

definition probe_ok :: "probe_env \<Rightarrow> string \<Rightarrow> u16 \<Rightarrow> bool" where
  "probe_ok e path index =
     (wifi_is_connected e index \<and>
      (case parse_file e path of Parsed url \<Rightarrow> stream_probe e url | _ \<Rightarrow> False))"

lemma index_not_blank: "m < 65535 \<Longrightarrow> (of_nat m :: u16) \<noteq> BLANK_LIST_ITEM"
  using u16_of_nat_inject [of m 65535] by (simp add: BLANK_LIST_ITEM_def)

lemma index_inj: "m < 65535 \<Longrightarrow> n < 65535 \<Longrightarrow> (of_nat m :: u16) = of_nat n \<longleftrightarrow> m = n"
  by (simp add: u16_of_nat_inject)

definition streams_from :: "u16 list \<Rightarrow> nat \<Rightarrow> nat \<Rightarrow> nat" where
  "streams_from l n k = length (filter (\<lambda>m. list_contains l (of_nat m)) [n..<n + k])"

lemma streams_from_0 [simp]: "streams_from l n 0 = 0"
  by (simp add: streams_from_def)

lemma streams_from_Suc:
  "streams_from l n (Suc k) = (if list_contains l (of_nat n) then 1 else 0) + streams_from l (Suc n) k"
proof -
  have "[n..<n + Suc k] = n # [Suc n..<Suc n + k]"
    by (simp add: upt_conv_Cons del: upt_Suc)
  then show ?thesis
    by (simp add: streams_from_def del: upt_Suc)
qed

lemma on_medifile_callback_wf:
  assumes "wf_sched p" and "n < 65535" and "parse_file e path \<noteq> ParseUnterminated"
    and "list_contains (known p) (of_nat n) \<Longrightarrow> size (slots (dead p)) < 64"
  shows "\<exists>q. on_medifile_callback e path (of_nat n) (Some p) = Some q \<and> wf_sched q \<and>
     known q = known p \<and> storage_path q = storage_path p \<and>
     size (slots (dead q)) \<le>
       size (slots (dead p)) + (if list_contains (known p) (of_nat n) then 1 else 0) \<and>
     (\<forall>m<65535. list_contains (dead q) (of_nat m) =
        (if m = n \<and> list_contains (known p) (of_nat n) then \<not> probe_ok e path (of_nat n)
         else list_contains (dead p) (of_nat m)))"
proof (cases "list_contains (known p) (of_nat n)")
  case False
  with assms show ?thesis
    by (simp add: on_medifile_callback_def stream_scheduler_is_known_stream_def wf_sched_def)
next
  case True
  note kn = True and ok = index_not_blank [OF assms(2)]
  have step: "on_medifile_callback e path (of_nat n) (Some p) =
      (if probe_ok e path (of_nat n) then stream_scheduler_mark_alive (of_nat n) p
       else stream_scheduler_mark_dead (of_nat n) p)"
    using True assms by (auto simp: on_medifile_callback_def probe_ok_def wf_sched_def
        stream_scheduler_is_known_stream_def split: parse_outcome.splits)
  show ?thesis
  proof (cases "probe_ok e path (of_nat n)")
    case True
    with step assms ok kn show ?thesis
      by (auto simp: stream_scheduler_mark_alive_def wf_sched_def dl.wf_remove
          dl.contains_remove index_not_blank index_inj le_SucI dl.size_remove)
  next
    case False
    with step assms ok kn show ?thesis
      by (auto simp: stream_scheduler_mark_dead_def wf_sched_def dl.wf_add
          dl.contains_add index_not_blank index_inj dl.size_add)
  qed
qed

lemma feed_probe:
  "wf_sched p \<Longrightarrow> n + length fs \<le> 65535 \<Longrightarrow>
   size (slots (dead p)) + streams_from (known p) n (length fs) \<le> 64 \<Longrightarrow>
   (\<forall>f\<in>set fs. parse_file e f \<noteq> ParseUnterminated) \<Longrightarrow>
   \<exists>q. feed (on_medifile_callback e) fs (of_nat n) (Some p) = Some q \<and> wf_sched q \<and>
     known q = known p \<and>
     (\<forall>m<65535. list_contains (dead q) (of_nat m) =
        (if n \<le> m \<and> m < n + length fs \<and> list_contains (known p) (of_nat m)
         then \<not> probe_ok e (fs ! (m - n)) (of_nat m)
         else list_contains (dead p) (of_nat m)))"
proof (induction fs arbitrary: n p)
  case Nil
  then show ?case by auto
next
  case (Cons f fs)
  have "n < 65535" using Cons.prems by simp
  have pre: "parse_file e f \<noteq> ParseUnterminated"
    "list_contains (known p) (of_nat n) \<Longrightarrow> size (slots (dead p)) < 64"
    using Cons.prems(3,4) by (simp_all add: streams_from_Suc)
  obtain p1 where p1: "on_medifile_callback e f (of_nat n) (Some p) = Some p1" "wf_sched p1"
    "known p1 = known p"
    "size (slots (dead p1)) \<le>
       size (slots (dead p)) + (if list_contains (known p) (of_nat n) then 1 else 0)"
    "\<forall>m<65535. list_contains (dead p1) (of_nat m) =
        (if m = n \<and> list_contains (known p) (of_nat n) then \<not> probe_ok e f (of_nat n)
         else list_contains (dead p) (of_nat m))"
    using on_medifile_callback_wf [OF Cons.prems(1) \<open>n < 65535\<close>, of e f] pre by blast
  have "\<exists>q. feed (on_medifile_callback e) fs (of_nat (Suc n)) (Some p1) = Some q \<and> wf_sched q \<and>
     known q = known p1 \<and>
     (\<forall>m<65535. list_contains (dead q) (of_nat m) =
        (if Suc n \<le> m \<and> m < Suc n + length fs \<and> list_contains (known p1) (of_nat m)
         then \<not> probe_ok e (fs ! (m - Suc n)) (of_nat m)
         else list_contains (dead p1) (of_nat m)))"
    using Cons.prems p1(2,3,4) by (intro Cons.IH) (auto simp: streams_from_Suc split: if_splits)
  then obtain q where q: "feed (on_medifile_callback e) fs (of_nat (Suc n)) (Some p1) = Some q"
    "wf_sched q" "known q = known p1"
    "\<forall>m<65535. list_contains (dead q) (of_nat m) =
        (if Suc n \<le> m \<and> m < Suc n + length fs \<and> list_contains (known p1) (of_nat m)
         then \<not> probe_ok e (fs ! (m - Suc n)) (of_nat m)
         else list_contains (dead p1) (of_nat m))"
    by blast
  have "list_contains (dead q) (of_nat m) =
        (if n \<le> m \<and> m < n + length (f # fs) \<and> list_contains (known p) (of_nat m)
         then \<not> probe_ok e ((f # fs) ! (m - n)) (of_nat m)
         else list_contains (dead p) (of_nat m))" if "m < 65535" for m
  proof (cases "m = n")
    case True
    then show ?thesis using q(4) p1(3,5) that by simp
  next
    case False
    then have "n \<le> m \<Longrightarrow> (f # fs) ! (m - n) = fs ! (m - Suc n)"
      by (simp add: nth_Cons')
    then show ?thesis using q(4) p1(3,5) that False by auto
  qed
  moreover have "feed (on_medifile_callback e) (f # fs) (of_nat n) (Some p) = Some q"
    using q(1) p1(1) by (simp add: add.commute)
  ultimately show ?case using q p1(3) by auto
qed


text \<open>
  C22: a pass of the probing thread over at most 65535 accepted files, when the dead list has
  room for the streams among them, completes and leaves as dead exactly the known streams
  whose probe failed (no network, no address in the file, or an address that does not answer)
  and, of the other indices, those that were dead before.
\<close>

theorem probe_pass_spec:
  assumes "wf_sched p" and "storage_path p = Some path"
    and "fs = filter (match_file e) (files_of path 11 (sd_card e))" and "length fs \<le> 65535"
    and "size (slots (dead p)) + streams_from (known p) 0 (length fs) \<le> 64"
    and "\<forall>f\<in>set fs. parse_file e f \<noteq> ParseUnterminated"
  shows "\<exists>q. probe_pass e p = Some q \<and> wf_sched q \<and> known q = known p \<and>
     (\<forall>m<65535. stream_scheduler_is_alive (of_nat m) q =
        Some (if m < length fs \<and> list_contains (known p) (of_nat m)
              then probe_ok e (fs ! m) (of_nat m)
              else \<not> list_contains (dead p) (of_nat m)))"
proof -
  have "probe_pass e p = feed (on_medifile_callback e) fs (of_nat 0) (Some p)"
    using assms(2,3) by (simp add: probe_pass_def Let_def recurse_walk(1) [of 0 11])
  with feed_probe [of p 0 fs e] assms show ?thesis
    by (auto simp: stream_scheduler_is_alive_def wf_sched_def)
qed

definition sched0 :: stream_sched where
  "sched0 = snd (stream_scheduler_init True True (Some ''/sd'')
     \<lparr>initialized = False, known = [], dead = [], mutex = False, storage_path = None,
      sema = None, thread_handle = False\<rparr>)"

definition one_stream :: stream_sched where
  "one_stream = sched0\<lparr>known := snd (list_add (known sched0) 1)\<rparr>"

definition sample_env :: probe_env where
  "sample_env = \<lparr>sd_card = DDir (Some [(''a.mp3'', DReg), (''b.m3u'', DReg)]),
     match_file = (\<lambda>_. True), wifi_is_connected = (\<lambda>_. True),
     parse_file = (\<lambda>_. Parsed ''http://x''), stream_probe = (\<lambda>_. False)\<rparr>"

theorem probe_pass_spec_witness:
  "\<exists>q. probe_pass sample_env one_stream = Some q \<and> wf_sched q \<and> known q = known one_stream \<and>
     (\<forall>m<65535. stream_scheduler_is_alive (of_nat m) q =
        Some (if m < length [''/sd/a.mp3'', ''/sd/b.m3u''] \<and> list_contains (known one_stream) (of_nat m)
              then probe_ok sample_env ([''/sd/a.mp3'', ''/sd/b.m3u''] ! m) (of_nat m)
              else \<not> list_contains (dead one_stream) (of_nat m)))"
proof (rule probe_pass_spec)
  show "wf_sched one_stream"
    by code_simp
  show "size (slots (dead one_stream)) +
      streams_from (known one_stream) 0 (length [''/sd/a.mp3'', ''/sd/b.m3u'']) \<le> 64"
    by code_simp
  show "[''/sd/a.mp3'', ''/sd/b.m3u''] =
      filter (match_file sample_env) (files_of ''/sd'' 11 (sd_card sample_env))"
    by code_simp
qed (simp_all add: sample_env_def one_stream_def sched0_def stream_scheduler_init_def Let_def)

text \<open>
  The dead list keeps duplicates, so marking one stream dead 64 times fills it, and
  the report that another stream is dead is then lost: that stream still counts as alive.
\<close>

theorem dead_list_overflow:
  assumes "mutex p" and "initialized p" and "wf_slots (dead p)" and "slots (dead p) = {#}"
    and "i \<noteq> BLANK_LIST_ITEM" and "j \<noteq> BLANK_LIST_ITEM" and "i \<noteq> j"
  shows "stream_scheduler_is_alive j
     (the (stream_scheduler_mark_dead j
        (((\<lambda>p. the (stream_scheduler_mark_dead i p)) ^^ 64) p))) = Some True"
proof -
  have it: "((\<lambda>p. the (stream_scheduler_mark_dead i p)) ^^ k) p =
      p\<lparr>dead := ((\<lambda>l. snd (list_add l i)) ^^ k) (dead p)\<rparr>" for k
    using assms(1) by (induction k) (simp_all add: stream_scheduler_mark_dead_def)
  let ?l = "((\<lambda>l. snd (list_add l i)) ^^ 64) (dead p)"
  have "wf_slots ?l" "slots ?l = replicate_mset 64 i"
    using dl.repeated_add [of "dead p" i 64] assms by simp_all
  then have "list_contains (snd (list_add ?l j)) j = list_contains ?l j" "\<not> list_contains ?l j"
    using dl.add_lost [of ?l j j] dl.contains_bag [of j ?l] assms by simp_all
  with assms it [of 64] show ?thesis
    by (simp add: stream_scheduler_mark_dead_def stream_scheduler_is_alive_def)
qed

theorem dead_list_overflow_witness:
  "stream_scheduler_is_alive 2
     (the (stream_scheduler_mark_dead 2
        (((\<lambda>p. the (stream_scheduler_mark_dead 1 p)) ^^ 64) sched0))) = Some True"
  by (rule dead_list_overflow)
    (simp_all add: sched0_def stream_scheduler_init_def Let_def wf_slots_def slots_def
      BLANK_LIST_ITEM_def)

text \<open>
  \<open>stream_scheduler_any_alive_streams\<close> holds exactly when streams are known and none
  of them is dead; with one dead stream it is false although others may be alive.
\<close>

theorem any_alive_iff:
  assumes "wf_sched p"
  shows "stream_scheduler_any_alive_streams p =
         Some (slots (known p) \<noteq> {#} \<and> slots (dead p) = {#})"
  using assms
  by (auto simp: stream_scheduler_any_alive_streams_def stream_scheduler_max_def wf_sched_def
      list_size_zero)

theorem any_alive_iff_witness:
  "stream_scheduler_any_alive_streams one_stream =
     Some (slots (known one_stream) \<noteq> {#} \<and> slots (dead one_stream) = {#})"
proof (rule any_alive_iff)
  show "wf_sched one_stream" by code_simp
qed

end
