(* ===== verification/Nvs.thy ===== *)
theory Nvs
  imports Prelude
begin

text \<open>
  \<open>src/firmware/main/storage/nvs.c\<close>: typed reads and writes of the settings partition.
  The ESP-IDF library under it is seen through its documented interface: a map from keys to
  typed items, reads that fail when the key is missing, holds another type, or does not fit
  the buffer with its NUL, writes whose outcome (flash full, wear) comes from a list of
  outcomes, and initialisation results. An operation is None when the firmware stops: an
  \<open>ESP_ERROR_CHECK\<close> that fails, or a mutex that does not exist.
\<close>

datatype nvs_item = NvsU8 u8 | NvsU32 u32 | NvsStr string

datatype esp_err = ESP_OK | ESP_ERR_NVS_NO_FREE_PAGES | ESP_ERR_NVS_NEW_VERSION_FOUND | ESP_FAIL

record nvs_state =
  initialized :: bool
  mutex :: bool
  items :: "string \<rightharpoonup> nvs_item"
  mutex_ok :: bool
  flash_init :: "esp_err list"
  open_ok :: bool
  writes :: "bool list"

text \<open>The library: outcomes past the end of a list are successes.\<close>

definition nvs_flash_init :: "nvs_state \<Rightarrow> esp_err \<times> nvs_state" where
  "nvs_flash_init s =
     (case flash_init s of [] \<Rightarrow> (ESP_OK, s) | e # es \<Rightarrow> (e, s\<lparr>flash_init := es\<rparr>))"

definition nvs_flash_erase :: "nvs_state \<Rightarrow> nvs_state" where
  "nvs_flash_erase s = s\<lparr>items := Map.empty\<rparr>"

definition nvs_set :: "string \<Rightarrow> nvs_item \<Rightarrow> nvs_state \<Rightarrow> bool \<times> nvs_state" where
  "nvs_set key v s =
     (case writes s of
        [] \<Rightarrow> (True, s\<lparr>items := (items s)(key \<mapsto> v)\<rparr>)
      | True # ws \<Rightarrow> (True, s\<lparr>items := (items s)(key \<mapsto> v), writes := ws\<rparr>)
      | False # ws \<Rightarrow> (False, s\<lparr>writes := ws\<rparr>))"

section \<open>The wrapper\<close>

definition nvs_init :: "nvs_state \<Rightarrow> (bool \<times> nvs_state) option" where
  "nvs_init s =
     (if initialized s then Some (True, s)
      else
        let s = s\<lparr>mutex := mutex_ok s\<rparr>
        in if \<not> mutex s then Some (False, s)
           else
             (case nvs_flash_init s of (ret, s1) \<Rightarrow>
               (case (if ret = ESP_ERR_NVS_NO_FREE_PAGES \<or> ret = ESP_ERR_NVS_NEW_VERSION_FOUND
                      then nvs_flash_init (nvs_flash_erase s1) else (ret, s1)) of (ret, s2) \<Rightarrow>
                 if ret = ESP_OK then Some (True, s2\<lparr>initialized := True\<rparr>) else None)))"

text \<open>\<open>nvs_init(); xSemaphoreTake(mutex, portMAX_DELAY); open();\<close>\<close>

definition nvs_enter :: "nvs_state \<Rightarrow> nvs_state option" where
  "nvs_enter s =
     (case nvs_init s of
        None \<Rightarrow> None
      | Some (_, s1) \<Rightarrow> if mutex s1 \<and> open_ok s1 then Some s1 else None)"

definition nvs_read_string :: "string \<Rightarrow> nat \<Rightarrow> nvs_state \<Rightarrow> (string option \<times> nvs_state) option" where
  "nvs_read_string key max_length s =
     map_option (\<lambda>s1.
       (case items s1 key of
          Some (NvsStr v) \<Rightarrow> if length v < max_length then Some v else None
        | _ \<Rightarrow> None, s1)) (nvs_enter s)"

definition nvs_save_string :: "string \<Rightarrow> string \<Rightarrow> nvs_state \<Rightarrow> (bool \<times> nvs_state) option" where
  "nvs_save_string key v s = map_option (nvs_set key (NvsStr v)) (nvs_enter s)"

definition nvs_read_uint8 :: "string \<Rightarrow> nvs_state \<Rightarrow> (u8 option \<times> nvs_state) option" where
  "nvs_read_uint8 key s =
     map_option (\<lambda>s1. (case items s1 key of Some (NvsU8 v) \<Rightarrow> Some v | _ \<Rightarrow> None, s1)) (nvs_enter s)"

definition nvs_save_uint8 :: "string \<Rightarrow> u8 \<Rightarrow> nvs_state \<Rightarrow> (bool \<times> nvs_state) option" where
  "nvs_save_uint8 key v s = map_option (nvs_set key (NvsU8 v)) (nvs_enter s)"

definition nvs_read_uint32 :: "string \<Rightarrow> nvs_state \<Rightarrow> (u32 option \<times> nvs_state) option" where
  "nvs_read_uint32 key s =
     map_option (\<lambda>s1. (case items s1 key of Some (NvsU32 v) \<Rightarrow> Some v | _ \<Rightarrow> None, s1)) (nvs_enter s)"

definition nvs_save_uint32 :: "string \<Rightarrow> u32 \<Rightarrow> nvs_state \<Rightarrow> (bool \<times> nvs_state) option" where
  "nvs_save_uint32 key v s = map_option (nvs_set key (NvsU32 v)) (nvs_enter s)"

section \<open>A running store\<close>

text \<open>The state after a first successful use.\<close>

definition running :: "nvs_state \<Rightarrow> bool" where
  "running s = (initialized s \<and> mutex s \<and> open_ok s)"

lemma nvs_enter_running [simp, handler_simps]: "running s \<Longrightarrow> nvs_enter s = Some s"
  by (simp add: running_def nvs_enter_def nvs_init_def)

lemma nvs_enter_gives_running:
  "nvs_enter s = Some s' \<Longrightarrow> (initialized s \<longrightarrow> mutex s) \<Longrightarrow> running s'"
  by (auto simp: nvs_enter_def nvs_init_def running_def Let_def nvs_flash_init_def
      split: if_splits prod.splits option.splits list.splits)

lemma nvs_set_running [simp]: "running (snd (nvs_set k v s)) = running s"
  by (auto simp: nvs_set_def running_def split: list.splits bool.splits)

lemma nvs_set_items:
  "items (snd (nvs_set k v s)) = (if fst (nvs_set k v s) then (items s)(k \<mapsto> v) else items s)"
  by (auto simp: nvs_set_def split: list.splits bool.splits)

lemmas nvs_ops = nvs_read_string_def nvs_save_string_def nvs_read_uint8_def nvs_save_uint8_def
  nvs_read_uint32_def nvs_save_uint32_def

text \<open>
  The contract of a typed store over keys: in a good state every operation returns, a read
  after a successful write gives the written value if it fits, a failed write changes nothing,
  and a write leaves the other keys alone.
\<close>

locale kv_store =
  fixes save :: "'k \<Rightarrow> 'v \<Rightarrow> 's \<Rightarrow> (bool \<times> 's) option"
    and load :: "'k \<Rightarrow> 's \<Rightarrow> ('v option \<times> 's) option"
    and good :: "'s \<Rightarrow> bool"
    and fits :: "'v \<Rightarrow> bool"
  assumes save_total: "good s \<Longrightarrow> \<exists>ok s'. save k v s = Some (ok, s') \<and> good s'"
    and load_total: "good s \<Longrightarrow> \<exists>r. load k s = Some (r, s)"
    and load_saved: "good s \<Longrightarrow> save k v s = Some (True, s') \<Longrightarrow> fits v \<Longrightarrow> load k s' = Some (Some v, s')"
    and load_not_saved: "good s \<Longrightarrow> save k v s = Some (False, s') \<Longrightarrow> load k' s = Some (r, s) \<Longrightarrow>
          load k' s' = Some (r, s')"
    and load_other: "good s \<Longrightarrow> save k v s = Some (ok, s') \<Longrightarrow> k' \<noteq> k \<Longrightarrow> load k' s = Some (r, s) \<Longrightarrow>
          load k' s' = Some (r, s')"
begin

text \<open>The last of two writes wins, and a write is not lost to a write of another key.\<close>

lemma save_save:
  assumes "good s" "save k v s = Some (ok, s1)" "save k w s1 = Some (True, s2)" "fits w"
  shows "load k s2 = Some (Some w, s2)"
  using assms load_saved save_total by (metis option.inject prod.inject)

lemma save_kept:
  assumes "good s" "save k v s = Some (True, s1)" "fits v"
    and "save k' w s1 = Some (ok, s2)" "k' \<noteq> k"
  shows "load k s2 = Some (Some v, s2)"
proof -
  have "good s1" using save_total [OF assms(1)] assms(2) by (metis option.inject prod.inject)
  moreover have "load k s1 = Some (Some v, s1)" using assms(1-3) load_saved by blast
  ultimately show ?thesis using assms(4,5) load_other by metis
qed

text \<open>
  A setting with a default: read it; when there is none, store the default and answer it.
  After such a read with a successful write, or with a stored value, reading again gives the
  same answer and changes nothing.
\<close>

lemma default_then_stable:
  assumes "good s" "load k s = Some (None, s)" "save k d s = Some (True, s')" "fits d"
  shows "load k s' = Some (Some d, s')"
  using assms load_saved by blast

end

lemma nvs_set_out:
  "nvs_set k v s = (ok, s') \<Longrightarrow>
     running s' = running s \<and> items s' = (if ok then (items s)(k \<mapsto> v) else items s)"
  by (auto simp: nvs_set_def running_def split: list.splits bool.splits)

interpretation u8_store: kv_store nvs_save_uint8 nvs_read_uint8 running "\<lambda>_. True"
  by unfold_locales (auto simp: nvs_ops dest!: nvs_set_out, metis nvs_set_out prod.exhaust)

interpretation u32_store: kv_store nvs_save_uint32 nvs_read_uint32 running "\<lambda>_. True"
  by unfold_locales (auto simp: nvs_ops dest!: nvs_set_out, metis nvs_set_out prod.exhaust)

interpretation str_store: kv_store nvs_save_string "\<lambda>k. nvs_read_string k n" running
  "\<lambda>v. length v < n" for n
  by unfold_locales (auto simp: nvs_ops dest!: nvs_set_out, metis nvs_set_out prod.exhaust)

section \<open>Across a restart\<close>

text \<open>A settings partition whose library calls succeed, before or after its first use.\<close>

definition healthy :: "nvs_state \<Rightarrow> bool" where
  "healthy n = (mutex_ok n \<and> flash_init n = [] \<and> open_ok n \<and> writes n = [] \<and> (initialized n \<longrightarrow> mutex n))"

text \<open>What a restart leaves of the settings: the partition.\<close>

definition rebooted :: "nvs_state \<Rightarrow> nvs_state" where
  "rebooted n = n\<lparr>initialized := False, mutex := False\<rparr>"

lemma healthy_rebooted [simp]: "healthy n \<Longrightarrow> healthy (rebooted n)" "items (rebooted n) = items n"
  by (simp_all add: healthy_def rebooted_def)

lemma nvs_enter_healthy:
  assumes "healthy n"
  shows "\<exists>n'. nvs_enter n = Some n' \<and> healthy n' \<and> items n' = items n"
  using assms by (cases "initialized n")
    (auto simp: healthy_def nvs_enter_def nvs_init_def nvs_flash_init_def Let_def)

lemma nvs_save_healthy:
  assumes "healthy n"
  shows "\<exists>n'. nvs_save_uint32 key v n = Some (True, n') \<and> healthy n' \<and> items n' = (items n)(key \<mapsto> NvsU32 v)"
    and "\<exists>n'. nvs_save_uint8 key w n = Some (True, n') \<and> healthy n' \<and> items n' = (items n)(key \<mapsto> NvsU8 w)"
  using nvs_enter_healthy [OF assms]
  by (auto simp: nvs_save_uint32_def nvs_save_uint8_def nvs_set_def healthy_def)

lemma nvs_read_healthy:
  assumes "healthy n"
  shows "\<exists>n'. nvs_read_uint32 key n = Some (case items n key of Some (NvsU32 v) \<Rightarrow> Some v | _ \<Rightarrow> None, n') \<and>
    healthy n' \<and> items n' = items n"
  using nvs_enter_healthy [OF assms] by (auto simp: nvs_read_uint32_def)

lemma nvs_save_string_healthy:
  assumes "healthy n"
  shows "\<exists>n'. nvs_save_string key v n = Some (True, n') \<and> healthy n' \<and> items n' = (items n)(key \<mapsto> NvsStr v)"
  using nvs_enter_healthy [OF assms] by (auto simp: nvs_save_string_def nvs_set_def healthy_def)

lemma nvs_read_string_healthy:
  assumes "healthy n"
  shows "\<exists>n'. nvs_read_string key m n =
      Some (case items n key of Some (NvsStr v) \<Rightarrow> if length v < m then Some v else None | _ \<Rightarrow> None, n') \<and>
    healthy n' \<and> items n' = items n"
  using nvs_enter_healthy [OF assms] by (auto simp: nvs_read_string_def)

end
