(* ===== verification/Config.thy ===== *)
theory Config
  imports Prelude Nvs
begin

text \<open>
  \<open>src/firmware/main/config/config.c\<close> with the values of \<open>defaults.h\<close>: the settings of
  the player over the settings partition. A getter that finds nothing readable stores the
  default and answers it. A \<open>char *\<close> answer that may be null is an option; an
  \<open>int8_t\<close> is an integer.
\<close>

section \<open>Getters with a default\<close>

definition u8_setting :: "string \<Rightarrow> u8 \<Rightarrow> nvs_state \<Rightarrow> (u8 \<times> nvs_state) option" where
  "u8_setting key d s =
     (case nvs_read_uint8 key s of
        None \<Rightarrow> None
      | Some (Some v, s1) \<Rightarrow> Some (v, s1)
      | Some (None, s1) \<Rightarrow> map_option (\<lambda>(_, s2). (d, s2)) (nvs_save_uint8 key d s1))"

definition str_setting :: "string \<Rightarrow> nat \<Rightarrow> string \<Rightarrow> nvs_state \<Rightarrow> (string \<times> nvs_state) option" where
  "str_setting key n d s =
     (case nvs_read_string key n s of
        None \<Rightarrow> None
      | Some (Some v, s1) \<Rightarrow> Some (v, s1)
      | Some (None, s1) \<Rightarrow> map_option (\<lambda>(_, s2). (d, s2)) (nvs_save_string key d s1))"

section \<open>Network\<close>

definition config_save_wifi_ssid :: "string option \<Rightarrow> nvs_state \<Rightarrow> (bool \<times> nvs_state) option" where
  "config_save_wifi_ssid arg s =
     (case arg of None \<Rightarrow> Some (False, s) | Some a \<Rightarrow> nvs_save_string ''wifi_ssid'' a s)"

definition config_save_wifi_pass :: "string option \<Rightarrow> nvs_state \<Rightarrow> (bool \<times> nvs_state) option" where
  "config_save_wifi_pass arg s =
     (case arg of None \<Rightarrow> Some (False, s) | Some a \<Rightarrow> nvs_save_string ''wifi_pass'' a s)"

definition config_wifi_ssid :: "nvs_state \<Rightarrow> (string option \<times> nvs_state) option" where
  "config_wifi_ssid s =
     (case nvs_read_string ''wifi_ssid'' 32 s of
        None \<Rightarrow> None
      | Some (Some v, s1) \<Rightarrow> Some (Some v, s1)
      | Some (None, s1) \<Rightarrow> map_option (\<lambda>(_, s2). (None, s2)) (config_save_wifi_ssid None s1))"

definition config_wifi_pass :: "nvs_state \<Rightarrow> (string option \<times> nvs_state) option" where
  "config_wifi_pass s =
     (case nvs_read_string ''wifi_pass'' 64 s of
        None \<Rightarrow> None
      | Some (Some v, s1) \<Rightarrow> Some (Some v, s1)
      | Some (None, s1) \<Rightarrow> map_option (\<lambda>(_, s2). (None, s2)) (config_save_wifi_pass None s1))"

section \<open>Sound\<close>

definition config_save_volume :: "u8 \<Rightarrow> nvs_state \<Rightarrow> (bool \<times> nvs_state) option" where
  "config_save_volume arg = nvs_save_uint8 ''volume'' arg"

definition config_volume :: "nvs_state \<Rightarrow> (u8 \<times> nvs_state) option" where
  "config_volume s =
     (case nvs_read_uint8 ''volume'' s of
        None \<Rightarrow> None
      | Some (None, s1) \<Rightarrow> map_option (\<lambda>(_, s2). (100, s2)) (config_save_volume 100 s1)
      | Some (Some value, s1) \<Rightarrow> if value > 100 then Some (100, s1) else Some (value, s1))"

definition config_bass_freqlimit :: "nvs_state \<Rightarrow> (u8 \<times> nvs_state) option" where
  "config_bass_freqlimit = u8_setting ''bass_freqlim'' 0"

definition config_bass_amplitude :: "nvs_state \<Rightarrow> (u8 \<times> nvs_state) option" where
  "config_bass_amplitude = u8_setting ''bass_amp'' 0"

definition config_treble_freqlimit :: "nvs_state \<Rightarrow> (u8 \<times> nvs_state) option" where
  "config_treble_freqlimit = u8_setting ''treb_freqlim'' 0"

definition config_treble_amplitude :: "nvs_state \<Rightarrow> (int \<times> nvs_state) option" where
  "config_treble_amplitude s = map_option (\<lambda>(v, s'). (sint v, s')) (u8_setting ''treb_amp'' 0 s)"

definition config_save_bass_freqlimit :: "u8 \<Rightarrow> nvs_state \<Rightarrow> (bool \<times> nvs_state) option" where
  "config_save_bass_freqlimit arg = nvs_save_uint8 ''bass_freqlim'' arg"

definition config_save_bass_amplitude :: "u8 \<Rightarrow> nvs_state \<Rightarrow> (bool \<times> nvs_state) option" where
  "config_save_bass_amplitude arg = nvs_save_uint8 ''bass_amp'' arg"

definition config_save_treble_freqlimit :: "u8 \<Rightarrow> nvs_state \<Rightarrow> (bool \<times> nvs_state) option" where
  "config_save_treble_freqlimit arg = nvs_save_uint8 ''treb_freqlim'' arg"

definition config_save_treble_amplitude :: "int \<Rightarrow> nvs_state \<Rightarrow> (bool \<times> nvs_state) option" where
  "config_save_treble_amplitude arg = nvs_save_uint8 ''treb_amp'' (word_of_int arg)"

definition config_save_random :: "bool \<Rightarrow> nvs_state \<Rightarrow> (bool \<times> nvs_state) option" where
  "config_save_random arg = nvs_save_uint8 ''random'' (if arg then 1 else 0)"

definition config_random :: "nvs_state \<Rightarrow> (bool \<times> nvs_state) option" where
  "config_random s =
     (case nvs_read_uint8 ''random'' s of
        None \<Rightarrow> None
      | Some (None, s1) \<Rightarrow> map_option (\<lambda>(_, s2). (False, s2)) (config_save_random False s1)
      | Some (Some value, s1) \<Rightarrow> Some (value \<noteq> 0, s1))"

section \<open>Identity and server\<close>

definition config_web_login :: string where
  "config_web_login = ''admin''"

definition config_ap_password :: "nvs_state \<Rightarrow> (string \<times> nvs_state) option" where
  "config_ap_password = str_setting ''ap_pass'' 16 ''12345678''"

definition config_web_password :: "nvs_state \<Rightarrow> (string \<times> nvs_state) option" where
  "config_web_password = config_ap_password"

definition config_deviceid :: "nvs_state \<Rightarrow> (string \<times> nvs_state) option" where
  "config_deviceid = str_setting ''deviceid'' 10 ''vanillaesp''"

definition config_server_password :: "nvs_state \<Rightarrow> (string \<times> nvs_state) option" where
  "config_server_password = str_setting ''server_pass'' 16 ''vanillaesppass''"

definition config_server_url :: "nvs_state \<Rightarrow> (string \<times> nvs_state) option" where
  "config_server_url = str_setting ''server_url'' 32 ''https://cloud.slon-ds.ru/''"

definition config_ap_static_ip :: "u8 \<times> u8 \<times> u8 \<times> u8" where
  "config_ap_static_ip = (10, 10, 0, 1)"

definition config_save_timezone :: "string \<Rightarrow> nvs_state \<Rightarrow> (bool \<times> nvs_state) option" where
  "config_save_timezone arg = nvs_save_string ''timezone'' arg"

definition config_timezone :: "nvs_state \<Rightarrow> (string \<times> nvs_state) option" where
  "config_timezone s =
     (case nvs_read_string ''timezone'' 32 s of
        None \<Rightarrow> None
      | Some (Some v, s1) \<Rightarrow> Some (v, s1)
      | Some (None, s1) \<Rightarrow>
          map_option (\<lambda>(_, s2). (''Europe/Kaliningrad'', s2)) (config_save_timezone ''Europe/Kaliningrad'' s1))"

definition config_stream_retries :: u8 where
  "config_stream_retries = 3"

definition config_save_disable_tls_certs_verification :: "bool \<Rightarrow> nvs_state \<Rightarrow> (bool \<times> nvs_state) option" where
  "config_save_disable_tls_certs_verification arg = nvs_save_uint8 ''nocerts'' (if arg then 1 else 0)"

definition config_disable_tls_certs_verification :: "nvs_state \<Rightarrow> (bool \<times> nvs_state) option" where
  "config_disable_tls_certs_verification s =
     map_option (\<lambda>(v, s1). (case v of None \<Rightarrow> False | Some value \<Rightarrow> value \<noteq> 0, s1))
       (nvs_read_uint8 ''nocerts'' s)"

section \<open>Settings\<close>

text \<open>
  The contract of a setting that can be changed: after a successful save of an acceptable
  value the getter answers it, brought into its range, and changes nothing.
\<close>

locale setting =
  fixes get :: "'s \<Rightarrow> ('a \<times> 's) option"
    and put :: "'b \<Rightarrow> 's \<Rightarrow> (bool \<times> 's) option"
    and norm :: "'b \<Rightarrow> 'a"
    and ok :: "'b \<Rightarrow> bool"
    and good :: "'s \<Rightarrow> bool"
  assumes put_total: "good s \<Longrightarrow> \<exists>r s'. put v s = Some (r, s') \<and> good s'"
    and get_put: "good s \<Longrightarrow> ok v \<Longrightarrow> put v s = Some (True, s') \<Longrightarrow> get s' = Some (norm v, s')"
begin

lemma last_put_wins:
  assumes "good s" "ok w" "put v s = Some (r, s1)" "put w s1 = Some (True, s2)"
  shows "get s2 = Some (norm w, s2)"
proof -
  have "good s1" using put_total [OF assms(1), of v] assms(3) by simp
  then show ?thesis using get_put assms(2,4) by blast
qed

lemma get_get:
  assumes "good s" "ok v" "put v s = Some (True, s')" "get s' = Some (a, s'')"
  shows "get s'' = Some (a, s'')"
  using assms get_put by fastforce

end

lemmas config_defs = u8_setting_def str_setting_def
  config_bass_freqlimit_def config_bass_amplitude_def config_treble_freqlimit_def
  config_save_bass_freqlimit_def config_save_bass_amplitude_def config_save_treble_freqlimit_def
  config_treble_amplitude_def config_save_treble_amplitude_def config_save_volume_def
  config_random_def config_save_random_def config_timezone_def config_save_timezone_def
  config_disable_tls_certs_verification_def config_save_disable_tls_certs_verification_def

lemma sint_word_of_int_8 [simp]: "- 128 \<le> v \<Longrightarrow> v < 128 \<Longrightarrow> sint (word_of_int v :: u8) = v"
  by (simp add: signed_of_int signed_take_bit_int_eq_self)

interpretation volume: setting config_volume config_save_volume "\<lambda>v. min v 100" "\<lambda>_. True" running
  using u8_store.save_total u8_store.load_saved
  by unfold_locales (auto simp: config_volume_def config_save_volume_def min_def not_less)

interpretation bass_freqlimit: setting config_bass_freqlimit config_save_bass_freqlimit
  "\<lambda>v. v" "\<lambda>_. True" running
  using u8_store.save_total u8_store.load_saved by unfold_locales (auto simp: config_defs)

interpretation bass_amplitude: setting config_bass_amplitude config_save_bass_amplitude
  "\<lambda>v. v" "\<lambda>_. True" running
  using u8_store.save_total u8_store.load_saved by unfold_locales (auto simp: config_defs)

interpretation treble_freqlimit: setting config_treble_freqlimit config_save_treble_freqlimit
  "\<lambda>v. v" "\<lambda>_. True" running
  using u8_store.save_total u8_store.load_saved by unfold_locales (auto simp: config_defs)

interpretation treble_amplitude: setting config_treble_amplitude config_save_treble_amplitude
  "\<lambda>v. v" "\<lambda>v. - 128 \<le> v \<and> v < 128" running
  using u8_store.save_total u8_store.load_saved by unfold_locales (auto simp: config_defs)

interpretation random_mode: setting config_random config_save_random "\<lambda>v. v" "\<lambda>_. True" running
  using u8_store.save_total u8_store.load_saved
  by unfold_locales (auto simp: config_defs split: if_splits)

interpretation no_certs: setting config_disable_tls_certs_verification
  config_save_disable_tls_certs_verification "\<lambda>v. v" "\<lambda>_. True" running
  using u8_store.save_total u8_store.load_saved
  by unfold_locales (auto simp: config_defs split: if_splits)

interpretation timezone: setting config_timezone config_save_timezone
  "\<lambda>v. v" "\<lambda>v. length v < 32" running
  using str_store.save_total str_store.load_saved by unfold_locales (auto simp: config_defs)

interpretation ssid: setting config_wifi_ssid config_save_wifi_ssid
  "\<lambda>v. v" "\<lambda>v. \<exists>a. v = Some a \<and> length a < 32" running
  using str_store.save_total str_store.load_saved
  by unfold_locales (auto simp: config_wifi_ssid_def config_save_wifi_ssid_def split: option.splits)

interpretation wifi_pass: setting config_wifi_pass config_save_wifi_pass
  "\<lambda>v. v" "\<lambda>v. \<exists>a. v = Some a \<and> length a < 64" running
  using str_store.save_total str_store.load_saved
  by unfold_locales (auto simp: config_wifi_pass_def config_save_wifi_pass_def split: option.splits)

section \<open>Properties\<close>

text \<open>
  On a running store, what a successful save of a setting stored is what its getter
  answers afterwards: the volume limited to 100, the treble amplitude for every
  \<open>int8_t\<close>, the time zone when its name has fewer than 32 characters.
\<close>

theorem config_roundtrip:
  assumes "running s"
  shows "(\<forall>v s'. config_save_volume v s = Some (True, s') \<longrightarrow>
             config_volume s' = Some (min v 100, s')) \<and>
         (\<forall>v s'. - 128 \<le> v \<and> v < 128 \<and> config_save_treble_amplitude v s = Some (True, s') \<longrightarrow>
             config_treble_amplitude s' = Some (v, s')) \<and>
         (\<forall>v s'. config_save_random v s = Some (True, s') \<longrightarrow> config_random s' = Some (v, s')) \<and>
         (\<forall>v s'. length v < 32 \<and> config_save_timezone v s = Some (True, s') \<longrightarrow>
             config_timezone s' = Some (v, s'))"
  using volume.get_put [OF assms] treble_amplitude.get_put [OF assms]
    random_mode.get_put [OF assms] timezone.get_put [OF assms] by blast

definition fresh_nvs :: nvs_state where
  "fresh_nvs = \<lparr>initialized = True, mutex = True, items = Map.empty, mutex_ok = True,
     flash_init = [], open_ok = True, writes = []\<rparr>"

theorem config_roundtrip_witness:
  "\<exists>s'. config_save_treble_amplitude (- 3) fresh_nvs = Some (True, s') \<and>
        config_treble_amplitude s' = Some (- 3, s')"
proof -
  have "running fresh_nvs" by (simp add: fresh_nvs_def running_def)
  moreover have "\<exists>s'. config_save_treble_amplitude (- 3) fresh_nvs = Some (True, s')"
    using \<open>running fresh_nvs\<close>
    by (simp add: config_save_treble_amplitude_def nvs_save_uint8_def nvs_set_def fresh_nvs_def)
  ultimately show ?thesis using config_roundtrip [of fresh_nvs] by force
qed

text \<open>
  Network name and password saved one after the other are both read back, when they fit
  their buffers of 32 and 64 bytes with the NUL.
\<close>

theorem wifi_settings_kept:
  assumes "running s" and "length a < 32" and "length b < 64"
    and "config_save_wifi_ssid (Some a) s = Some (True, s1)"
    and "config_save_wifi_pass (Some b) s1 = Some (True, s2)"
  shows "config_wifi_ssid s2 = Some (Some a, s2) \<and> config_wifi_pass s2 = Some (Some b, s2)"
proof -
  have "running s1" using ssid.put_total [OF assms(1), of "Some a"] assms(4) by simp
  moreover have "nvs_read_string ''wifi_ssid'' 32 s2 = Some (Some a, s2)"
    using str_store.save_kept [of s "''wifi_ssid''" a s1 32 "''wifi_pass''" b True s2] assms
    by (simp add: config_save_wifi_ssid_def config_save_wifi_pass_def)
  ultimately show ?thesis
    using wifi_pass.get_put assms(3,5) by (simp add: config_wifi_ssid_def)
qed

theorem wifi_settings_kept_witness:
  "\<exists>s1 s2. config_save_wifi_ssid (Some ''home'') fresh_nvs = Some (True, s1) \<and>
     config_save_wifi_pass (Some ''secret'') s1 = Some (True, s2) \<and>
     config_wifi_ssid s2 = Some (Some ''home'', s2) \<and> config_wifi_pass s2 = Some (Some ''secret'', s2)"
proof -
  have r: "running fresh_nvs" by (simp add: fresh_nvs_def running_def)
  let ?s1 = "fresh_nvs\<lparr>items := [''wifi_ssid'' \<mapsto> NvsStr ''home'']\<rparr>"
  let ?s2 = "?s1\<lparr>items := (items ?s1)(''wifi_pass'' \<mapsto> NvsStr ''secret'')\<rparr>"
  have "config_save_wifi_ssid (Some ''home'') fresh_nvs = Some (True, ?s1)"
    using r by (simp add: config_save_wifi_ssid_def nvs_save_string_def nvs_set_def fresh_nvs_def)
  moreover have "running ?s1" by (simp add: fresh_nvs_def running_def)
  then have "config_save_wifi_pass (Some ''secret'') ?s1 = Some (True, ?s2)"
    by (simp add: config_save_wifi_pass_def nvs_save_string_def nvs_set_def fresh_nvs_def)
  ultimately show ?thesis
    using wifi_settings_kept [OF r, of "''home''" "''secret''" ?s1 ?s2] by force
qed

text \<open>
  A stored device id of ten characters or more is not only unreadable through the ten
  byte buffer, the read replaces it in flash by the default id; the default has ten
  characters itself, so it is never read back and every later call writes it again.
\<close>

theorem deviceid_overwritten:
  assumes "running s" and "writes s = []" and "items s ''deviceid'' = Some (NvsStr v)"
  shows "config_deviceid s =
     (if length v < 10 then Some (v, s)
      else Some (''vanillaesp'', s\<lparr>items := (items s)(''deviceid'' \<mapsto> NvsStr ''vanillaesp'')\<rparr>)) \<and>
     \<not> length ''vanillaesp'' < 10"
  using assms by (simp add: config_deviceid_def config_defs nvs_ops nvs_set_def)

theorem deviceid_overwritten_witness:
  "config_deviceid (fresh_nvs\<lparr>items := [''deviceid'' \<mapsto> NvsStr ''lobby-speaker'']\<rparr>) =
     Some (''vanillaesp'', fresh_nvs\<lparr>items := [''deviceid'' \<mapsto> NvsStr ''vanillaesp'']\<rparr>)"
  using deviceid_overwritten
      [of "fresh_nvs\<lparr>items := [''deviceid'' \<mapsto> NvsStr ''lobby-speaker'']\<rparr>" "''lobby-speaker''"]
  by (simp add: fresh_nvs_def running_def)

end
