(* ===== verification/OfflineScheduler.thy ===== *)
theory OfflineScheduler
  imports Prelude Strings Recurse Trail StreamPlaylist StreamScheduler Config
begin

text \<open>
  \<open>src/firmware/main/playlist/offline/scheduler.c\<close>: the player of the files of the card,
  one after the other or at random. The static state, the stop flag and the modules the
  scheduler uses (settings, random trail, stream scheduler) form one record; \<open>trace\<close>
  collects what it tells the player and the server. \<open>player_start\<close> blocks while other
  tasks issue commands, so each track comes with the commands that arrive during it and with
  its result (\<open>plays\<close>; past the end: no command, success). None means that the firmware
  stopped.
\<close>

datatype event =
    TRACK_BEGIN string
  | PLAYER_START string
  | TRACK_END string
  | PLAYER_STOP

text \<open>What other tasks do during a track.\<close>

datatype remote_cmd =
    CmdNext
  | CmdPrev
  | CmdRandom bool
  | CmdDeinit
  | CmdForceProbe
  | CmdMarkDead u16
  | CmdMarkAlive u16

record offline =
  mutex :: bool
  current :: u16
  next_index :: u16
  total :: u16
  thread_handle :: bool
  stop_flag :: bool
  store :: nvs_state
  rand :: random_state
  streams :: stream_sched
  trace :: "event list"
  plays :: "(remote_cmd list \<times> bool) list"

section \<open>Commands\<close>

definition emit :: "event \<Rightarrow> offline \<Rightarrow> offline" where
  "emit e st = st\<lparr>trace := trace st @ [e]\<rparr>"

definition stop :: "offline \<Rightarrow> offline" where
  "stop st = emit PLAYER_STOP st"

definition offline_scheduler_random :: "offline \<Rightarrow> (bool \<times> offline) option" where
  "offline_scheduler_random st =
     map_option (\<lambda>(v, s). (v, st\<lparr>store := s\<rparr>)) (config_random (store st))"

definition offline_scheduler_set_random :: "bool \<Rightarrow> offline \<Rightarrow> (bool \<times> offline) option" where
  "offline_scheduler_set_random arg st =
     (case config_random (store st) of
        None \<Rightarrow> None
      | Some (v, s1) \<Rightarrow>
          if arg \<noteq> v
          then map_option (\<lambda>(_, s2). (True, st\<lparr>store := s2\<rparr>)) (config_save_random arg s1)
          else Some (True, st\<lparr>store := s1\<rparr>))"

definition offline_scheduler_next :: "offline \<Rightarrow> bool \<times> offline" where
  "offline_scheduler_next st =
     (if \<not> mutex st then (False, st)
      else (True, stop
        (if uint (current st) \<ge> uint (total st) - 1 then st\<lparr>next_index := 0\<rparr>
         else st\<lparr>next_index := current st + 1\<rparr>)))"

definition offline_scheduler_prev :: "offline \<Rightarrow> bool \<times> offline" where
  "offline_scheduler_prev st =
     (if \<not> mutex st then (False, st)
      else (True, stop
        (if current st = 0 then st\<lparr>next_index := total st - 1\<rparr>
         else st\<lparr>next_index := current st - 1\<rparr>)))"

definition offline_scheduler_deinit :: "offline \<Rightarrow> offline" where
  "offline_scheduler_deinit st =
     (if \<not> thread_handle st then st else emit PLAYER_STOP (st\<lparr>stop_flag := True\<rparr>))"

text \<open>The creations of the mutex and of the task may fail.\<close>

definition offline_scheduler_init :: "bool \<Rightarrow> bool \<Rightarrow> offline \<Rightarrow> (bool \<times> offline) option" where
  "offline_scheduler_init new_mutex task_ok st =
     (if thread_handle st then Some (False, st)
      else let st1 = st\<lparr>mutex := new_mutex\<rparr>
           in if \<not> new_mutex then Some (False, st1)
              else (let st2 = st1\<lparr>stop_flag := False\<rparr>
                    in (case config_random (store st2) of
                          None \<Rightarrow> None
                        | Some (r, s) \<Rightarrow>
                          (case offline_scheduler_set_random r (st2\<lparr>store := s\<rparr>) of
                             None \<Rightarrow> None
                           | Some (_, st3) \<Rightarrow> Some (task_ok, st3\<lparr>thread_handle := task_ok\<rparr>)))))"

definition offline_scheduler_mediafile_match_func :: "files \<Rightarrow> string \<Rightarrow> bool" where
  "offline_scheduler_mediafile_match_func fs fname =
     (string_ends_with fname ''.mp3'' \<or> stream_playlist_is_stream fs fname)"

definition on_streams :: "(stream_sched \<Rightarrow> stream_sched option) \<Rightarrow> offline \<Rightarrow> offline option" where
  "on_streams f st = map_option (\<lambda>q. st\<lparr>streams := q\<rparr>) (f (streams st))"

fun run_cmd :: "remote_cmd \<Rightarrow> offline \<Rightarrow> offline option" where
  "run_cmd CmdNext st = Some (snd (offline_scheduler_next st))"
| "run_cmd CmdPrev st = Some (snd (offline_scheduler_prev st))"
| "run_cmd (CmdRandom b) st = map_option snd (offline_scheduler_set_random b st)"
| "run_cmd CmdDeinit st = Some (offline_scheduler_deinit st)"
| "run_cmd CmdForceProbe st = Some (st\<lparr>streams := stream_scheduler_force_probe (streams st)\<rparr>)"
| "run_cmd (CmdMarkDead i) st = on_streams (stream_scheduler_mark_dead i) st"
| "run_cmd (CmdMarkAlive i) st = on_streams (stream_scheduler_mark_alive i) st"

fun run_cmds :: "remote_cmd list \<Rightarrow> offline \<Rightarrow> offline option" where
  "run_cmds [] st = Some st"
| "run_cmds (c # cs) st = (case run_cmd c st of None \<Rightarrow> None | Some st' \<Rightarrow> run_cmds cs st')"

section \<open>Playing\<close>

definition player_start :: "string \<Rightarrow> offline \<Rightarrow> (bool \<times> offline) option" where
  "player_start path st =
     (let st1 = emit (PLAYER_START path) st
      in case plays st1 of
           [] \<Rightarrow> Some (True, st1)
         | (cmds, ok) # ps \<Rightarrow> map_option (Pair ok) (run_cmds cmds (st1\<lparr>plays := ps\<rparr>)))"

definition play :: "string \<Rightarrow> offline \<Rightarrow> (bool \<times> offline) option" where
  "play path st =
     (case player_start path (emit (TRACK_BEGIN path) st) of
        None \<Rightarrow> None
      | Some (ok, st') \<Rightarrow> Some (ok, emit (TRACK_END path) st'))"

text \<open>The choice of the next index, between taking and giving the mutex.\<close>

definition choose_next :: "(nat \<Rightarrow> u32) \<Rightarrow> offline \<Rightarrow> offline option" where
  "choose_next r st =
     (case offline_scheduler_random st of
        None \<Rightarrow> None
      | Some (True, st1) \<Rightarrow>
          (case random_next r (rand st1) of (v, rs) \<Rightarrow> Some (st1\<lparr>next_index := v, rand := rs\<rparr>))
      | Some (False, st1) \<Rightarrow>
          if uint (next_index st1) \<ge> uint (total st1) - 1 then Some (st1\<lparr>next_index := 0\<rparr>)
          else Some (st1\<lparr>next_index := current st1 + 1\<rparr>))"

definition play_selected :: "string \<Rightarrow> u16 \<Rightarrow> offline \<Rightarrow> offline option" where
  "play_selected path index st =
     (case stream_scheduler_is_known_stream index (streams st) of
        None \<Rightarrow> None
      | Some True \<Rightarrow>
          (case stream_scheduler_is_alive index (streams st) of
             None \<Rightarrow> None
           | Some False \<Rightarrow> Some st
           | Some True \<Rightarrow>
               (case play path st of
                  None \<Rightarrow> None
                | Some (True, st') \<Rightarrow> on_streams (stream_scheduler_mark_alive index) st'
                | Some (False, st') \<Rightarrow> on_streams (stream_scheduler_mark_dead index) st'))
      | Some False \<Rightarrow>
          (case stream_scheduler_any_alive_streams (streams st) of
             None \<Rightarrow> None
           | Some True \<Rightarrow> Some st
           | Some False \<Rightarrow> map_option snd (play path st)))"

definition on_medifile :: "(nat \<Rightarrow> u32) \<Rightarrow> string \<Rightarrow> u16 \<Rightarrow> offline option \<Rightarrow> offline option" where
  "on_medifile r path index sto =
     (case sto of
        None \<Rightarrow> None
      | Some st \<Rightarrow>
          if stop_flag st then Some st
          else if index \<noteq> next_index st then Some st
          else if \<not> mutex st then None
          else (case choose_next r (st\<lparr>current := index\<rparr>) of
                  None \<Rightarrow> None
                | Some st' \<Rightarrow> play_selected path index st'))"

definition mediafile_enum_func :: "files \<Rightarrow> string \<Rightarrow> u16 \<Rightarrow> offline option \<Rightarrow> offline option" where
  "mediafile_enum_func fs fname index sto =
     (case sto of
        None \<Rightarrow> None
      | Some st \<Rightarrow>
          if stream_playlist_is_stream fs fname
          then on_streams (\<lambda>q. map_option snd (stream_scheduler_add_stream index q)) st
          else Some st)"

section \<open>The thread\<close>

definition STORAGE_SD_MOUNTPOINT :: string where
  "STORAGE_SD_MOUNTPOINT = ''/sdcard''"

definition OFFLINE_SCHEDULER_MAX_MEDIAFILES :: u32 where
  "OFFLINE_SCHEDULER_MAX_MEDIAFILES = 65534"

definition walk :: "files \<Rightarrow> dnode \<Rightarrow> (string \<Rightarrow> u16 \<Rightarrow> offline option \<Rightarrow> offline option) \<Rightarrow>
    offline option \<Rightarrow> u32 \<times> offline option" where
  "walk fs tree cb sto =
     (case recurse_dir (Some (offline_scheduler_mediafile_match_func fs)) (Some cb)
             STORAGE_SD_MOUNTPOINT 0 tree (Some 0) sto of
        (n, i, sto') \<Rightarrow> (n, sto'))"

text \<open>One round of the main loop.\<close>

definition scheduler_pass :: "(nat \<Rightarrow> u32) \<Rightarrow> files \<Rightarrow> dnode \<Rightarrow> offline \<Rightarrow> offline option" where
  "scheduler_pass r fs tree st =
     map_option (\<lambda>st'. st'\<lparr>rand := random_reset (rand st')\<rparr>)
       (snd (walk fs tree (on_medifile r) (Some st)))"

text \<open>
  The main loop, \<open>while (!stop_flag)\<close>, runs until another task stops the scheduler; here it
  is cut after a number of rounds, which every claim leaves open.
\<close>

fun scheduler_loop :: "nat \<Rightarrow> (nat \<Rightarrow> u32) \<Rightarrow> files \<Rightarrow> dnode \<Rightarrow> offline \<Rightarrow> offline option" where
  "scheduler_loop 0 r fs tree st = Some st"
| "scheduler_loop (Suc n) r fs tree st =
     (if stop_flag st then Some st
      else (case scheduler_pass r fs tree st of
              None \<Rightarrow> None
            | Some st' \<Rightarrow> scheduler_loop n r fs tree st'))"

definition scheduler_setup :: "(nat \<Rightarrow> u32) \<Rightarrow> u32 \<Rightarrow> offline \<Rightarrow> offline option" where
  "scheduler_setup r total_mediafiles st =
     (let st1 = st\<lparr>total := ucast total_mediafiles\<rparr>;
          st2 = st1\<lparr>rand := random_init (total st1 - 1) (rand st1)\<rparr>
      in case offline_scheduler_random st2 of
           None \<Rightarrow> None
         | Some (True, st3) \<Rightarrow>
             (case random_next r (rand st3) of (v, rs) \<Rightarrow> Some (st3\<lparr>next_index := v, rand := rs\<rparr>))
         | Some (False, st3) \<Rightarrow> Some st3)"

definition cleared :: "offline \<Rightarrow> offline" where
  "cleared st = st\<lparr>mutex := False, current := 0, next_index := 0, total := 0,
     thread_handle := False, streams := stream_scheduler_deinit (streams st)\<rparr>"

text \<open>
  The thread with \<open>n\<close> rounds of its loop at most; \<open>m_ok\<close>, \<open>s_ok\<close> and \<open>t_ok\<close> are the
  creations of the stream scheduler's mutex, semaphore and task.
\<close>

definition scheduler_thread ::
  "nat \<Rightarrow> (nat \<Rightarrow> u32) \<Rightarrow> bool \<Rightarrow> bool \<Rightarrow> bool \<Rightarrow> files \<Rightarrow> dnode \<Rightarrow> offline \<Rightarrow> offline option" where
  "scheduler_thread n r m_ok s_ok t_ok fs tree st =
     (case tree of
        DDir (Some _) \<Rightarrow>
          (let st1 = st\<lparr>streams := snd (stream_scheduler_init m_ok s_ok (Some STORAGE_SD_MOUNTPOINT) (streams st))\<rparr>
           in case walk fs tree (mediafile_enum_func fs) (Some st1) of
                (_, None) \<Rightarrow> None
              | (total_mediafiles, Some st2) \<Rightarrow>
                (let st3 = st2\<lparr>streams := snd (stream_scheduler_start t_ok (streams st2))\<rparr>
                 in if total_mediafiles > 0 \<and> total_mediafiles < OFFLINE_SCHEDULER_MAX_MEDIAFILES then
                      (if \<not> mutex st3 then None
                       else (case scheduler_setup r total_mediafiles st3 of
                          None \<Rightarrow> None
                        | Some st4 \<Rightarrow>
                          (case stream_scheduler_max (streams st4) of
                             None \<Rightarrow> None
                           | Some _ \<Rightarrow>
                             map_option cleared (scheduler_loop n r fs tree st4))))
                    else Some (cleared st3)))
      | _ \<Rightarrow> Some st)"

section \<open>The invariant\<close>

text \<open>
  With \<open>N\<close> files on the card the current and the next index stay below \<open>N\<close>; the
  random choice is set up for \<open>N - 1\<close>.
\<close>

definition off_inv :: "nat \<Rightarrow> offline \<Rightarrow> bool" where
  "off_inv N st =
     (0 < N \<and> N < 65534 \<and> total st = of_nat N \<and> next_index st < total st \<and>
      current st < total st \<and> maximum (rand st) = total st - 1 \<and>
      (\<exists>cs. trail_inv cs (rand st)))"

definition off_inv_opt :: "nat \<Rightarrow> offline option \<Rightarrow> bool" where
  "off_inv_opt N sto = (\<forall>st. sto = Some st \<longrightarrow> off_inv N st)"

lemma off_inv_emit [simp]: "off_inv N (emit e st) = off_inv N st"
  by (simp add: off_inv_def emit_def)

lemma off_inv_stop [simp]: "off_inv N (stop st) = off_inv N st"
  by (simp add: stop_def)

lemma off_inv_frame [simp]:
  "off_inv N (st\<lparr>store := s\<rparr>) = off_inv N st"
  "off_inv N (st\<lparr>streams := q\<rparr>) = off_inv N st"
  "off_inv N (st\<lparr>plays := p\<rparr>) = off_inv N st"
  "off_inv N (st\<lparr>stop_flag := b\<rparr>) = off_inv N st"
  "off_inv N (st\<lparr>trace := t\<rparr>) = off_inv N st"
  by (simp_all add: off_inv_def)

lemma unat_total: "off_inv N st \<Longrightarrow> unat (total st) = N"
  by (simp add: off_inv_def unat_of_nat_u16)

lemma off_inv_next_index:
  "off_inv N st \<Longrightarrow> i < total st \<Longrightarrow> off_inv N (st\<lparr>next_index := i\<rparr>)"
  unfolding off_inv_def by auto

lemma off_inv_current: "off_inv N st \<Longrightarrow> current st < total st"
  unfolding off_inv_def by blast

lemma succ_below:
  assumes "\<not> uint (i :: u16) \<ge> uint (t :: u16) - 1"
  shows "i + 1 < t"
proof -
  have "Suc (unat i) < unat t"
    using assms uint_nat [of i] uint_nat [of t] by linarith
  moreover from this have "unat i < 65535"
    using unat_u16_less [of t] by linarith
  ultimately show ?thesis
    by (simp add: word_less_nat_alt unat_u16_add_1)
qed

lemma zero_below: "off_inv N st \<Longrightarrow> 0 < total st"
  by (simp add: off_inv_def word_less_nat_alt unat_of_nat_u16)

lemma pred_below: "(i :: u16) < t \<Longrightarrow> i \<noteq> 0 \<Longrightarrow> i - 1 < t"
  by (simp add: word_less_nat_alt unat_u16_sub_1)

lemma last_below: "off_inv N st \<Longrightarrow> total st - 1 < total st"
  using zero_below [of N st] by (simp add: word_less_nat_alt unat_u16_sub_1 unat_gt_0)

lemma off_inv_next [inv_intros]: "off_inv N st \<Longrightarrow> off_inv N (snd (offline_scheduler_next st))"
  by (auto simp: offline_scheduler_next_def not_le intro!: off_inv_next_index zero_below succ_below)

lemma off_inv_prev [inv_intros]: "off_inv N st \<Longrightarrow> off_inv N (snd (offline_scheduler_prev st))"
  by (auto simp: offline_scheduler_prev_def off_inv_current
      intro!: off_inv_next_index pred_below last_below)

lemma off_inv_cmd [inv_intros]: "off_inv N st \<Longrightarrow> run_cmd c st = Some st' \<Longrightarrow> off_inv N st'"
  by (cases c) (auto simp: offline_scheduler_set_random_def offline_scheduler_deinit_def on_streams_def
      intro: inv_intros split: option.splits if_splits prod.splits)

lemma off_inv_cmds [inv_intros]: "off_inv N st \<Longrightarrow> run_cmds cs st = Some st' \<Longrightarrow> off_inv N st'"
  by (induction cs arbitrary: st) (auto split: option.splits intro: off_inv_cmd)

lemma off_inv_play [inv_intros]: "off_inv N st \<Longrightarrow> play path st = Some (ok, st') \<Longrightarrow> off_inv N st'"
  by (auto simp: play_def player_start_def Let_def split: option.splits list.splits prod.splits
      dest!: off_inv_cmds [rotated])

lemma off_inv_selected [inv_intros]:
  "off_inv N st \<Longrightarrow> play_selected path i st = Some st' \<Longrightarrow> off_inv N st'"
  by (auto simp: play_selected_def on_streams_def intro: off_inv_play
      split: option.splits bool.splits prod.splits)


lemma random_below:
  assumes "off_inv N st" and "random_next r (rand st) = (v, rs)"
  shows "v < total st \<and> off_inv N (st\<lparr>next_index := v, rand := rs\<rparr>)"
proof -
  from assms(1) obtain cs where cs: "trail_inv cs (rand st)" "maximum (rand st) = total st - 1"
    unfolding off_inv_def by blast
  have "v \<le> total st - 1"
    using random_next_bound [OF assms(2)] cs(2) by (auto split: if_splits)
  then have v: "v < total st"
    using last_below [OF assms(1)] by (rule le_less_trans)
  have "maximum rs = total st - 1" "\<exists>cs. trail_inv cs rs"
    using trail_inv_next [OF cs(1) assms(2)] cs(2) by auto
  with assms(1) v show ?thesis
    unfolding off_inv_def by auto
qed

lemma off_inv_choose [inv_intros]:
  assumes "off_inv N st" and "current st = next_index st" and "choose_next r st = Some st'"
  shows "off_inv N st'"
proof (cases "offline_scheduler_random st")
  case (Some p)
  then obtain b s where p: "offline_scheduler_random st = Some (b, st\<lparr>store := s\<rparr>)"
    by (auto simp: offline_scheduler_random_def split: prod.splits)
  let ?st = "st\<lparr>store := s\<rparr>"
  have inv: "off_inv N ?st" using assms(1) by simp
  show ?thesis
  proof (cases b)
    case False
    with assms(2,3) p show ?thesis
      using off_inv_next_index [OF inv] zero_below [OF inv]
      by (auto simp: choose_next_def split: if_splits dest: succ_below)
  next
    case True
    obtain v rs where n: "random_next r (rand ?st) = (v, rs)" by fastforce
    from random_below [OF inv n] n True assms(3) p show ?thesis
      by (simp add: choose_next_def)
  qed
qed (use assms in \<open>simp add: choose_next_def\<close>)

lemma off_inv_callback [inv_intros]:
  assumes "off_inv N st" and "index < total st" and "on_medifile r path index (Some st) = Some st'"
  shows "off_inv N st'"
proof (cases "\<not> stop_flag st \<and> index = next_index st")
  case True
  let ?st = "st\<lparr>current := index\<rparr>"
  have inv: "off_inv N ?st" using assms(1,2) unfolding off_inv_def by auto
  from True assms(3) obtain st1 where "choose_next r ?st = Some st1"
    "play_selected path index st1 = Some st'"
    by (auto simp: on_medifile_def split: if_splits option.splits)
  with off_inv_choose [OF inv] True show ?thesis
    by (auto intro: off_inv_selected)
qed (use assms in \<open>auto simp: on_medifile_def split: if_splits\<close>)

lemma walk_feed:
  "walk fs tree cb sto =
     (let files = filter (offline_scheduler_mediafile_match_func fs)
                    (files_of STORAGE_SD_MOUNTPOINT 11 tree)
      in (of_nat (length files), feed cb files 0 sto))"
  by (simp add: walk_def Let_def recurse_walk(1) [of 0 11])

text \<open>The media files of a card, in the order of the walk.\<close>

definition media_files :: "files \<Rightarrow> dnode \<Rightarrow> string list" where
  "media_files fs tree =
     filter (offline_scheduler_mediafile_match_func fs) (files_of STORAGE_SD_MOUNTPOINT 11 tree)"

lemma off_inv_reset [inv_intros]:
  "off_inv N st \<Longrightarrow> off_inv N (st\<lparr>rand := random_reset (rand st)\<rparr>)"
  using trail_inv_reset [of "rand st"] unfolding off_inv_def by (auto simp: random_reset_def)

lemma off_inv_pass [inv_intros]:
  assumes "off_inv N st" and "length (media_files fs tree) = N"
    and "scheduler_pass r fs tree st = Some st'"
  shows "off_inv N st'"
proof -
  let ?f = "feed (on_medifile r) (media_files fs tree) (of_nat 0) (Some st)"
  have "off_inv_opt N ?f"
  proof (rule feed_indexed)
    fix k sto
    assume "k < length (media_files fs tree)" and inv: "off_inv_opt N sto"
    then have lt: "off_inv N s \<Longrightarrow> of_nat (0 + k) < total s" for s
      using assms(2) by (simp add: off_inv_def word_less_nat_alt unat_of_nat_u16)
    show "off_inv_opt N (on_medifile r (media_files fs tree ! k) (of_nat (0 + k)) sto)"
    proof (cases sto)
      case (Some s)
      with inv lt show ?thesis by (auto simp: off_inv_opt_def intro: off_inv_callback)
    qed (simp add: on_medifile_def off_inv_opt_def)
  qed (use assms(1) in \<open>simp add: off_inv_opt_def\<close>)
  moreover obtain s where "?f = Some s" "st' = s\<lparr>rand := random_reset (rand s)\<rparr>"
    using assms(3) by (auto simp: scheduler_pass_def walk_feed media_files_def Let_def)
  ultimately show ?thesis
    by (simp add: off_inv_opt_def off_inv_reset)
qed

text \<open>
  C18: with \<open>N\<close> media files on the card, 0 < N < 65534, the scheduler keeps the current and
  the next index below \<open>N\<close> through any number of rounds, whatever commands (next, previous,
  random on or off, stop, probes) arrive during the tracks and however the tracks end.
\<close>

theorem scheduler_invariant:
  assumes "off_inv N st" and "length (media_files fs tree) = N"
    and "scheduler_loop n r fs tree st = Some st'"
  shows "off_inv N st'"
  using assms(1,3)
proof (induction n arbitrary: st)
  case (Suc n)
  then show ?case
    using off_inv_pass [OF _ assms(2)] by (auto split: if_splits option.splits)
qed simp

section \<open>Sequential playing\<close>

definition play_events :: "string \<Rightarrow> event list" where
  "play_events f = [TRACK_BEGIN f, PLAYER_START f, TRACK_END f]"

text \<open>Random mode off, no streams on the card, no commands, every track ends well.\<close>

definition quiet :: "offline \<Rightarrow> bool" where
  "quiet st = (\<not> stop_flag st \<and> mutex st \<and> plays st = [] \<and>
     config_random (store st) = Some (False, store st) \<and>
     wf_sched (streams st) \<and> slots (known (streams st)) = {#})"

lemma quiet_streams:
  "quiet st \<Longrightarrow> i \<noteq> BLANK_LIST_ITEM \<Longrightarrow> stream_scheduler_is_known_stream i (streams st) = Some False"
  "quiet st \<Longrightarrow> stream_scheduler_any_alive_streams (streams st) = Some False"
  by (auto simp: quiet_def wf_sched_def stream_scheduler_is_known_stream_def dl.contains_bag
      stream_scheduler_any_alive_streams_def stream_scheduler_max_def list_size_zero)

lemma quiet_play:
  "quiet st \<Longrightarrow> play f st = Some (True, st\<lparr>trace := trace st @ play_events f\<rparr>)"
  by (simp add: quiet_def play_def player_start_def emit_def play_events_def Let_def)

lemma quiet_frame [simp]:
  "quiet (st\<lparr>current := c\<rparr>) = quiet st" "quiet (st\<lparr>next_index := n\<rparr>) = quiet st"
  "quiet (st\<lparr>trace := t\<rparr>) = quiet st" "quiet (st\<lparr>rand := rs\<rparr>) = quiet st"
  by (simp_all add: quiet_def)

lemma on_medifile_skip: "i \<noteq> next_index st \<Longrightarrow> on_medifile r f i (Some st) = Some st"
  by (simp add: on_medifile_def)

text \<open>The callback on the file whose turn it is.\<close>

lemma on_medifile_turn:
  assumes "quiet st" and "total st = of_nat N" and "N < 65534" and "k < N"
    and "next_index st = of_nat k"
  shows "on_medifile r f (of_nat k) (Some st) =
    Some (st\<lparr>current := of_nat k, next_index := of_nat (if Suc k < N then Suc k else 0),
             trace := trace st @ play_events f\<rparr>)"
proof -
  let ?st = "st\<lparr>current := of_nat k\<rparr>"
  have ge: "uint (of_nat N :: u16) - 1 \<le> uint (of_nat k :: u16) \<longleftrightarrow> \<not> Suc k < N"
    using assms(3,4) unat_of_nat_u16 [of N] unat_of_nat_u16 [of k]
      uint_nat [of "of_nat N :: u16"] uint_nat [of "of_nat k :: u16"] by auto
  have "offline_scheduler_random ?st = Some (False, ?st)"
    using assms(1) by (simp add: offline_scheduler_random_def quiet_def)
  then have "choose_next r ?st =
      Some (?st\<lparr>next_index := of_nat (if Suc k < N then Suc k else 0)\<rparr>)"
    using assms(2,5) ge by (simp add: choose_next_def add.commute)
  moreover have "(of_nat k :: u16) \<noteq> BLANK_LIST_ITEM"
    using assms(3,4) by (intro index_not_blank) simp
  ultimately show ?thesis
    using assms(1,5) quiet_streams [of ?st] quiet_streams [of st] quiet_play
    by (simp add: on_medifile_def play_selected_def quiet_def)
qed

lemma feed_turns:
  assumes "n + length fs = N" and "N < 65534" and "quiet st" and "total st = of_nat N"
    and "next_index st = of_nat k" and "k < N"
  shows "\<exists>c. feed (on_medifile r) fs (of_nat n) (Some st) =
    Some (if n \<le> k then
            st\<lparr>current := c, next_index := 0,
               trace := trace st @ concat (map play_events (drop (k - n) fs))\<rparr>
          else st)"
  using assms
proof (induction fs arbitrary: n k st)
  case Nil
  then show ?case by simp
next
  case (Cons f fs)
  show ?case
  proof (cases "n = k")
    case False
    then have "(of_nat n :: u16) \<noteq> next_index st"
      using Cons.prems u16_of_nat_inject [of n k] by simp
    then have "feed (on_medifile r) (f # fs) (of_nat n) (Some st) =
        feed (on_medifile r) fs (of_nat (Suc n)) (Some st)"
      by (simp add: on_medifile_skip add.commute)
    moreover have "n \<le> k \<longleftrightarrow> Suc n \<le> k" "drop (k - Suc n) fs = drop (k - n) (f # fs)" if "n \<le> k"
      using False that by (simp_all add: drop_Cons' Suc_diff_Suc)
    ultimately show ?thesis
      using Cons.IH [of "Suc n" st k] Cons.prems False by (cases "n \<le> k") auto
  next
    case True
    let ?st = "st\<lparr>current := of_nat k, next_index := of_nat (if Suc k < N then Suc k else 0),
             trace := trace st @ play_events f\<rparr>"
    have step: "feed (on_medifile r) (f # fs) (of_nat n) (Some st) =
        feed (on_medifile r) fs (of_nat (Suc n)) (Some ?st)"
      using on_medifile_turn [OF Cons.prems(3,4,2,6,5), of r f] True by (simp add: add.commute)
    show ?thesis
    proof (cases "Suc k < N")
      case True
      then show ?thesis
        using step Cons.IH [of "Suc n" ?st "Suc k"] Cons.prems \<open>n = k\<close> by auto
    next
      case False
      then have "\<not> 0 < length fs" using Cons.prems(1) \<open>n = k\<close> by auto
      then have "fs = []" by blast
      with False show ?thesis using step \<open>n = k\<close> by auto
    qed
  qed
qed

text \<open>
  C2: in sequential mode on a card without streams a round of the main loop plays the files
  from the next index to the last one, each once, in the order of the card, each between its
  begin and end report, and leaves the next index at the first file; so every following round
  plays the whole card.
\<close>

theorem sequential_pass:
  assumes "media_files fs tree = files" and "length files = N" and "0 < N" and "N < 65534"
    and "quiet st" and "total st = of_nat N" and "next_index st = of_nat k" and "k < N"
  shows "\<exists>c. scheduler_pass r fs tree st = Some (st\<lparr>current := c, next_index := 0,
     trace := trace st @ concat (map play_events (drop k files)),
     rand := random_reset (rand st)\<rparr>)"
proof -
  have w: "snd (walk fs tree (on_medifile r) (Some st)) = feed (on_medifile r) files (of_nat 0) (Some st)"
    using assms(1) by (simp add: walk_feed media_files_def Let_def)
  show ?thesis
    using feed_turns [of 0 files N st k r] assms(2-) w by (auto simp: scheduler_pass_def)
qed

definition two_songs :: dnode where
  "two_songs = DDir (Some [(''a.mp3'', DReg), (''notes.txt'', DReg), (''b.mp3'', DReg)])"

definition started :: offline where
  "started = \<lparr>mutex = True, current = 0, next_index = 0, total = 2, thread_handle = True,
     stop_flag = False,
     store = fresh_nvs\<lparr>items := [''random'' \<mapsto> NvsU8 0]\<rparr>,
     rand = random_init 1 (random_reset random_zero), streams = sched0, trace = [], plays = []\<rparr>"

lemma two_songs_files:
  "media_files Map.empty two_songs = [''/sdcard/a.mp3'', ''/sdcard/b.mp3'']"
  by code_simp

theorem sequential_pass_witness:
  "\<exists>c. scheduler_pass (\<lambda>_. 0) Map.empty two_songs started = Some (started\<lparr>current := c,
     next_index := 0,
     trace := concat (map play_events (drop 0 [''/sdcard/a.mp3'', ''/sdcard/b.mp3''])),
     rand := random_reset (rand started)\<rparr>)"
proof -
  have "wf_sched sched0" "slots (known sched0) = {#}" by code_simp+
  then have "quiet started"
    by (simp add: quiet_def started_def config_random_def fresh_nvs_def nvs_ops running_def)
  then show ?thesis
    using sequential_pass [OF two_songs_files, of 2 started 0 "\<lambda>_. 0"] by (simp add: started_def)
qed

theorem scheduler_invariant_witness:
  "off_inv 2 started \<and>
   (\<exists>st'. scheduler_loop 1 (\<lambda>_. 0) Map.empty two_songs started = Some st' \<and> off_inv 2 st')"
proof -
  have inv: "off_inv 2 started"
    using trail_inv_init [OF trail_inv_reset, of 1 random_zero]
    by (auto simp: off_inv_def started_def random_init_def)
  have "wf_sched sched0" "slots (known sched0) = {#}" by code_simp+
  then have "quiet started"
    by (simp add: quiet_def started_def config_random_def fresh_nvs_def nvs_ops running_def)
  then have "\<exists>st'. scheduler_loop 1 (\<lambda>_. 0) Map.empty two_songs started = Some st'"
    using feed_turns [of 0 "[''/sdcard/a.mp3'', ''/sdcard/b.mp3'']" 2 started 0 "\<lambda>_. 0"]
      two_songs_files
    by (auto simp: scheduler_pass_def walk_feed media_files_def Let_def started_def)
  with inv show ?thesis
    using scheduler_invariant [OF inv, of Map.empty two_songs 1 "\<lambda>_. 0"] two_songs_files by auto
qed

text \<open>
  In random mode the next index is never that of the last file of the card (there being
  two files or more): the generator is set up with the number of files less one and answers
  a number below it.
\<close>

theorem random_mode_skips_last:
  assumes "off_inv N st" and "2 \<le> N" and "config_random (store st) = Some (True, s)"
  shows "\<exists>st'. choose_next r st = Some st' \<and> next_index st' < of_nat (N - 1)"
proof -
  obtain v rs where n: "random_next r (rand st) = (v, rs)" by fastforce
  have "maximum (rand st) = of_nat (N - 1)"
    using assms(1,2) unfolding off_inv_def by (auto simp: of_nat_diff)
  moreover have "(of_nat (N - 1) :: u16) \<noteq> 0"
  proof -
    have "N - 1 < 65536" using assms(1) unfolding off_inv_def by linarith
    then show ?thesis using assms(2) u16_of_nat_inject [of "N - 1" 0] by simp
  qed
  ultimately have "v < of_nat (N - 1)"
    using random_next_bound [OF n] by simp
  then show ?thesis
    using assms(3) n by (simp add: choose_next_def offline_scheduler_random_def)
qed

theorem random_mode_skips_last_witness:
  "\<exists>st'. choose_next (\<lambda>_. 7)
      (started\<lparr>store := fresh_nvs\<lparr>items := [''random'' \<mapsto> NvsU8 1]\<rparr>\<rparr>) = Some st' \<and>
     next_index st' < of_nat (2 - 1)"
proof (rule random_mode_skips_last)
  show "off_inv 2 (started\<lparr>store := fresh_nvs\<lparr>items := [''random'' \<mapsto> NvsU8 1]\<rparr>\<rparr>)"
    using trail_inv_init [OF trail_inv_reset, of 1 random_zero]
    by (auto simp: off_inv_def started_def random_init_def)
  show "config_random (store (started\<lparr>store := fresh_nvs\<lparr>items := [''random'' \<mapsto> NvsU8 1]\<rparr>\<rparr>)) =
    Some (True, fresh_nvs\<lparr>items := [''random'' \<mapsto> NvsU8 1]\<rparr>)"
    by (simp add: config_random_def fresh_nvs_def nvs_ops running_def)
qed simp

end
