(* ===== verification/Ds3231.thy ===== *)
theory Ds3231
  imports Prelude Datetime
begin

text \<open>
  \<open>src/firmware/main/clock/ds3231.c\<close>: the battery-backed clock on the I2C bus. A transfer
  is the list of bus operations that the code queues; the chip is a parameter with a
  state that answers such a list with the bytes read, or None for a bus error. \<open>mktime\<close> and the system clock
  are a parameter and an argument. Bytes are \<^typ>\<open>u8\<close>; the fields of \<open>struct tm\<close>
  are integers.
\<close>

unbundle bit_operations_syntax

datatype i2c_op = I2cStart | I2cWriteByte u8 | I2cWrite "u8 list" | I2cRead nat | I2cStop

type_synonym 'd i2c_bus = "'d \<Rightarrow> i2c_op list \<Rightarrow> (u8 list \<times> 'd) option"

definition DS3231_ADDRESS :: u8 where
  "DS3231_ADDRESS = 0x68"

definition read_ops :: "u8 \<Rightarrow> nat \<Rightarrow> i2c_op list" where
  "read_ops reg n =
     [I2cStart, I2cWriteByte (push_bit 1 DS3231_ADDRESS OR 0), I2cWriteByte reg,
      I2cStart, I2cWriteByte (push_bit 1 DS3231_ADDRESS OR 1), I2cRead n, I2cStop]"

definition write_ops :: "u8 \<Rightarrow> u8 list \<Rightarrow> i2c_op list" where
  "write_ops reg data =
     [I2cStart, I2cWriteByte (push_bit 1 DS3231_ADDRESS OR 0), I2cWriteByte reg,
      I2cWrite data, I2cStop]"

definition i2c_read :: "'d i2c_bus \<Rightarrow> u8 \<Rightarrow> nat \<Rightarrow> 'd \<Rightarrow> u8 list option \<times> 'd" where
  "i2c_read bus reg n d =
     (if n = 0 then (None, d)
      else (case bus d (read_ops reg n) of None \<Rightarrow> (None, d) | Some (r, d') \<Rightarrow> (Some r, d')))"

definition i2c_write :: "'d i2c_bus \<Rightarrow> u8 \<Rightarrow> u8 list \<Rightarrow> 'd \<Rightarrow> bool \<times> 'd" where
  "i2c_write bus reg data d =
     (if length data = 0 then (False, d)
      else (case bus d (write_ops reg data) of None \<Rightarrow> (False, d) | Some (_, d') \<Rightarrow> (True, d')))"

section \<open>Binary coded decimals\<close>

definition bcd2dec :: "u8 \<Rightarrow> u8" where
  "bcd2dec val = drop_bit 4 val * 10 + (val AND 0x0F)"

definition dec2bcd :: "u8 \<Rightarrow> u8" where
  "dec2bcd val = push_bit 4 (val div 10) + val mod 10"

section \<open>The time\<close>

record rtc_tm =
  rsec :: int
  rmin :: int
  rhour :: int
  rwday :: int
  rmday :: int
  rmon :: int
  ryear :: int

definition dec :: "u8 \<Rightarrow> int" where
  "dec b = uint (bcd2dec b)"

definition decode_hour :: "u8 \<Rightarrow> int" where
  "decode_hour d =
     (if d AND 0x40 \<noteq> 0
      then dec (d AND 0x1F) - 1 + (if d AND 0x20 \<noteq> 0 then 12 else 0)
      else dec d)"

definition decode_time :: "u8 list \<Rightarrow> rtc_tm" where
  "decode_time d =
     \<lparr>rsec = dec (d ! 0), rmin = dec (d ! 1), rhour = decode_hour (d ! 2), rwday = dec (d ! 3) - 1,
      rmday = dec (d ! 4), rmon = dec (d ! 5 AND 0x1F) - 1, ryear = dec (d ! 6) + 100\<rparr>"

definition encode_time :: "rtc_tm \<Rightarrow> u8 list" where
  "encode_time t =
     [dec2bcd (word_of_int (rsec t)), dec2bcd (word_of_int (rmin t)),
      dec2bcd (word_of_int (rhour t)), dec2bcd (word_of_int (rwday t + 1)),
      dec2bcd (word_of_int (rmday t)), dec2bcd (word_of_int (rmon t + 1)),
      dec2bcd (word_of_int (ryear t - 100))]"

definition ds3231_get_time :: "(rtc_tm \<Rightarrow> int) \<Rightarrow> 'd i2c_bus \<Rightarrow> 'd \<Rightarrow> int \<times> 'd" where
  "ds3231_get_time mktime bus d =
     (case i2c_read bus 0x00 7 d of
        (None, d') \<Rightarrow> (0, d')
      | (Some data, d') \<Rightarrow> (mktime (decode_time data), d'))"

definition ds3231_set_time :: "'d i2c_bus \<Rightarrow> rtc_tm \<Rightarrow> 'd \<Rightarrow> bool \<times> 'd" where
  "ds3231_set_time bus t d = i2c_write bus 0x00 (encode_time t) d"

text \<open>
  The start: the system clock is set from the chip when its time is past the first half
  minute of 1970. The driver and the mutex may fail; the answer is the success, the new
  system time and the chip.
\<close>

definition ds3231_init ::
  "(rtc_tm \<Rightarrow> int) \<Rightarrow> 'd i2c_bus \<Rightarrow> bool \<Rightarrow> bool \<Rightarrow> int \<Rightarrow> 'd \<Rightarrow> bool \<times> int \<times> 'd" where
  "ds3231_init mktime bus driver_ok mutex_ok system_time d =
     (if \<not> driver_ok then (False, system_time, d)
      else if \<not> mutex_ok then (False, system_time, d)
      else (case ds3231_get_time mktime bus d of
              (now, d') \<Rightarrow> (True, if now > 30 then now else system_time, d')))"

section \<open>Properties\<close>

lemma bcd_roundtrip_nat: "n < 100 \<Longrightarrow> bcd2dec (dec2bcd (of_nat n)) = of_nat n"
proof -
  assume n: "n < 100"
  have "\<forall>n\<in>set [0..<100]. bcd2dec (dec2bcd (of_nat n)) = of_nat n"
    by code_simp
  with n show ?thesis by simp
qed

lemma dec_roundtrip: "0 \<le> v \<Longrightarrow> v < 100 \<Longrightarrow> dec (dec2bcd (word_of_int v)) = v"
  using bcd_roundtrip_nat [of "nat v"] by (simp add: dec_def unsigned_of_int take_bit_int_eq_self)

lemma hour_roundtrip: "0 \<le> v \<Longrightarrow> v < 24 \<Longrightarrow> decode_hour (dec2bcd (word_of_int v)) = v"
proof -
  assume v: "0 \<le> v" "v < 24"
  have "\<forall>n\<in>set [0..<24]. decode_hour (dec2bcd (of_nat n)) = int n"
    by code_simp
  moreover obtain n where "v = int n" using v(1) nonneg_int_cases by blast
  ultimately show ?thesis using v by auto
qed

lemma month_roundtrip: "1 \<le> v \<Longrightarrow> v \<le> 12 \<Longrightarrow> dec (dec2bcd (word_of_int v) AND 0x1F) = v"
proof -
  assume v: "1 \<le> v" "v \<le> 12"
  have "\<forall>n\<in>set [1..<13]. dec (dec2bcd (of_nat n) AND 0x1F) = int n"
    by code_simp
  moreover obtain n where "v = int n" using v(1) zero_le_imp_eq_int [of v] by auto
  ultimately show ?thesis using v by auto
qed

definition valid_time :: "rtc_tm \<Rightarrow> bool" where
  "valid_time t =
     (0 \<le> rsec t \<and> rsec t \<le> 60 \<and> 0 \<le> rmin t \<and> rmin t < 60 \<and> 0 \<le> rhour t \<and> rhour t < 24 \<and>
      0 \<le> rwday t \<and> rwday t < 7 \<and> 1 \<le> rmday t \<and> rmday t \<le> 31 \<and> 0 \<le> rmon t \<and> rmon t < 12 \<and>
      100 \<le> ryear t \<and> ryear t < 200)"

lemma decode_encode: "valid_time t \<Longrightarrow> decode_time (encode_time t) = t"
  by (simp add: decode_time_def encode_time_def valid_time_def dec_roundtrip hour_roundtrip
      month_roundtrip del: of_int_add of_int_diff)

interpretation rtc: codec encode_time decode_time valid_time
  by unfold_locales (rule decode_encode)

lemma chip_keeps:
  assumes "valid_time t"
    and "\<And>d data r d'. bus d (write_ops 0 data) = Some (r, d') \<Longrightarrow> length data = 7 \<Longrightarrow>
           bus d' (read_ops 0 7) = Some (data, d')"
    and "ds3231_set_time bus t d = (True, d')"
  shows "ds3231_get_time mktime bus d' = (mktime t, d')"
    and "ds3231_init mktime bus True True now d' = (True, if mktime t > 30 then mktime t else now, d')"
proof -
  have len: "length (encode_time t) = 7" by (simp add: encode_time_def)
  then obtain r where "bus d (write_ops 0 (encode_time t)) = Some (r, d')"
    using assms(3) by (auto simp: ds3231_set_time_def i2c_write_def split: option.splits)
  from assms(2) [OF this len] show "ds3231_get_time mktime bus d' = (mktime t, d')"
    and "ds3231_init mktime bus True True now d' = (True, if mktime t > 30 then mktime t else now, d')"
    using rtc.dec_enc [OF assms(1)]
    by (simp_all add: ds3231_init_def ds3231_get_time_def i2c_read_def)
qed

text \<open>
  A time between 2000 and 2099 written to the chip is the time read back from it, when
  the chip answers a read of its seven time registers with the bytes last written to them.
\<close>

theorem rtc_roundtrip:
  assumes "valid_time t"
    and "\<And>d data r d'. bus d (write_ops 0 data) = Some (r, d') \<Longrightarrow> length data = 7 \<Longrightarrow>
           bus d' (read_ops 0 7) = Some (data, d')"
    and "ds3231_set_time bus t d = (True, d')"
  shows "ds3231_get_time mktime bus d' = (mktime t, d') \<and>
         ds3231_init mktime bus True True now d' =
           (True, if mktime t > 30 then mktime t else now, d')"
  using chip_keeps(1) [where mktime = mktime, OF assms]
    chip_keeps(2) [where mktime = mktime and now = now, OF assms] by simp

text \<open>A chip that is seven registers.\<close>

definition plain_chip :: "u8 list i2c_bus" where
  "plain_chip regs ops =
     (case ops of
        [I2cStart, _, _, I2cWrite data, I2cStop] \<Rightarrow> Some ([], data)
      | _ \<Rightarrow> Some (take 7 regs, regs))"

definition new_year :: rtc_tm where
  "new_year = \<lparr>rsec = 59, rmin = 59, rhour = 23, rwday = 2, rmday = 31, rmon = 11, ryear = 119\<rparr>"

theorem rtc_roundtrip_witness:
  "ds3231_get_time ryear plain_chip (encode_time new_year) = (119, encode_time new_year) \<and>
   ds3231_init ryear plain_chip True True 5 (encode_time new_year) =
     (True, if ryear new_year > 30 then ryear new_year else 5, encode_time new_year)"
proof -
  have s: "ds3231_set_time plain_chip new_year [] = (True, encode_time new_year)"
    by (simp add: ds3231_set_time_def i2c_write_def write_ops_def plain_chip_def encode_time_def)
  have v: "valid_time new_year"
    by (simp add: valid_time_def new_year_def)
  have law: "plain_chip d' (read_ops 0 7) = Some (data, d')"
    if "plain_chip d (write_ops 0 data) = Some (r, d')" "length data = 7" for d data r d'
    using that by (simp add: plain_chip_def write_ops_def read_ops_def)
  from rtc_roundtrip [where mktime = ryear and now = 5, OF v law s] show ?thesis
    by (simp add: new_year_def)
qed

text \<open>
  A chip in 12-hour mode is misread at every hour: the code subtracts one from the hour
  where only 12 stands for 0, so 1 AM reads as 0 and 12 AM as 11.
\<close>

theorem twelve_hour_off:
  assumes "1 \<le> h" and "h \<le> 12"
  shows "decode_hour (0x40 OR (if pm then 0x20 else 0) OR dec2bcd (of_nat h)) =
           int h - 1 + (if pm then 12 else 0) \<and>
         decode_hour (0x40 OR (if pm then 0x20 else 0) OR dec2bcd (of_nat h)) \<noteq>
           int h mod 12 + (if pm then 12 else 0)"
proof -
  have "\<forall>h\<in>set [1..<13]. \<forall>pm\<in>{True, False}.
      decode_hour (0x40 OR (if pm then 0x20 else 0) OR dec2bcd (of_nat h)) =
        int h - 1 + (if pm then 12 else 0)"
    by code_simp
  then have "decode_hour (0x40 OR (if pm then 0x20 else 0) OR dec2bcd (of_nat h)) =
        int h - 1 + (if pm then 12 else 0)"
    using assms by auto
  moreover have "int h - 1 \<noteq> int h mod 12"
    using assms by (cases "h = 12") auto
  ultimately show ?thesis by simp
qed

theorem twelve_hour_off_witness:
  "decode_hour (0x40 OR (if False then 0x20 else 0) OR dec2bcd (of_nat 12)) =
     int 12 - 1 + (if False then 12 else 0) \<and>
   decode_hour (0x40 OR (if False then 0x20 else 0) OR dec2bcd (of_nat 12)) \<noteq>
     int 12 mod 12 + (if False then 12 else 0)"
  by (rule twelve_hour_off) simp_all

end
