(* ===== verification/Vs1011.thy ===== *)
theory Vs1011
  imports Prelude
begin

unbundle bit_operations_syntax

text \<open>
  \<open>src/firmware/main/audio/vs1011.c\<close> with the register constants of \<open>vs10xx_uc.h\<close>:
  the driver of the decoder chip. The chip answers register reads; the values it will answer
  are a list (0 past its end), and everything the driver sends is recorded in order. An
  interrupt-driven wait for the chip's request line surrounds every transfer and has no
  effect on the data; failed transfers stop the firmware and are left out.
\<close>

definition SCI_MODE :: u8 where "SCI_MODE = 0x00"
definition SCI_STATUS :: u8 where "SCI_STATUS = 0x01"
definition SCI_BASS :: u8 where "SCI_BASS = 0x02"
definition SCI_CLOCKF :: u8 where "SCI_CLOCKF = 0x03"
definition SCI_DECODE_TIME :: u8 where "SCI_DECODE_TIME = 0x04"
definition SCI_HDAT1 :: u8 where "SCI_HDAT1 = 0x09"
definition SCI_VOL :: u8 where "SCI_VOL = 0x0B"
definition SCI_AICTRL1 :: u8 where "SCI_AICTRL1 = 0x0D"
definition SCI_AICTRL2 :: u8 where "SCI_AICTRL2 = 0x0E"
definition SM_RESET :: u16 where "SM_RESET = 4"
definition SM_OUTOFWAV :: u16 where "SM_OUTOFWAV = 8"
definition SM_SDINEW :: u16 where "SM_SDINEW = 2048"

datatype audio_format_t = af_unknown | af_riff | af_mp1 | af_mp2 | af_mp3

record audio_info_t =
  position :: u32
  total :: u32
  decode_time :: u16

datatype bus_op =
    SciWrite u8 u16
  | SciRead u8
  | Sdi "u8 list"
  | MuteGpio bool
  | ResetGpio bool
  | Callback audio_info_t

record vs =
  answers :: "u16 list"
  ops :: "bus_op list"

abbreviation VS_MAX_CHUNK_SIZE :: nat where
  "VS_MAX_CHUNK_SIZE \<equiv> 32"

section \<open>Transfers\<close>

definition record_op :: "bus_op \<Rightarrow> vs \<Rightarrow> vs" where
  "record_op e s = s\<lparr>ops := ops s @ [e]\<rparr>"

definition write_sci :: "u8 \<Rightarrow> u16 \<Rightarrow> vs \<Rightarrow> vs" where
  "write_sci addr data s = record_op (SciWrite addr data) s"

definition read_sci :: "u8 \<Rightarrow> vs \<Rightarrow> u16 \<times> vs" where
  "read_sci addr s =
     (case answers s of
        [] \<Rightarrow> (0, record_op (SciRead addr) s)
      | x # xs \<Rightarrow> (x, record_op (SciRead addr) (s\<lparr>answers := xs\<rparr>)))"

definition write_sdi :: "u8 list \<Rightarrow> vs \<Rightarrow> vs" where
  "write_sdi buffer s = (if length buffer > VS_MAX_CHUNK_SIZE then s else record_op (Sdi buffer) s)"

definition vs1011_transient_mute :: "bool \<Rightarrow> vs \<Rightarrow> vs" where
  "vs1011_transient_mute mute s = record_op (MuteGpio (\<not> mute)) s"

definition reset :: "vs \<Rightarrow> vs" where
  "reset s = record_op (ResetGpio True) (record_op (ResetGpio False) s)"

section \<open>Volume and tone\<close>

definition volume_reg :: "u8 \<Rightarrow> u16" where
  "volume_reg percents =
     (let percents = if percents > 100 then 100 else percents;
          scaled_percents = 50 * unat percents div 100 + 50;
          scaled_percents = if scaled_percents > 100 then 100 else scaled_percents;
          value = of_nat (254 - scaled_percents * 254 div 100)
      in value + value * 256)"

definition vs1011_set_volume :: "u8 \<Rightarrow> vs \<Rightarrow> u16 \<times> vs" where
  "vs1011_set_volume percents s = (volume_reg percents, write_sci SCI_VOL (volume_reg percents) s)"

text \<open>\<open>(current & ~MASK) | ((value << B) & MASK)\<close> for a four-bit field at bit \<open>b\<close>.\<close>

definition nibble :: u16 where
  "nibble = 0x000F"

definition field_mask :: "nat \<Rightarrow> u16" where
  "field_mask b = push_bit b nibble"

definition put_field :: "nat \<Rightarrow> u16 \<Rightarrow> u16 \<Rightarrow> u16" where
  "put_field b current value =
     (current AND NOT (field_mask b)) OR (push_bit b value AND field_mask b)"

definition set_bass_field :: "nat \<Rightarrow> u16 \<Rightarrow> vs \<Rightarrow> u16 \<times> vs" where
  "set_bass_field b value s =
     (case read_sci SCI_BASS s of (current, s') \<Rightarrow>
        (put_field b current value, write_sci SCI_BASS (put_field b current value) s'))"

definition vs1011_set_bass_freqlimit :: "u8 \<Rightarrow> vs \<Rightarrow> u16 \<times> vs" where
  "vs1011_set_bass_freqlimit value s =
     (let value = if value < 2 then 2 else value;
          value = if value > 15 then 15 else value
      in set_bass_field 0 (ucast value) s)"

definition vs1011_set_bass_amplitude :: "u8 \<Rightarrow> vs \<Rightarrow> u16 \<times> vs" where
  "vs1011_set_bass_amplitude value s =
     (let value = if value > 15 then 15 else value in set_bass_field 4 (ucast value) s)"

definition vs1011_set_treble_freqlimit :: "u8 \<Rightarrow> vs \<Rightarrow> u16 \<times> vs" where
  "vs1011_set_treble_freqlimit value s =
     (let value = if value > 15 then 15 else value in set_bass_field 8 (ucast value) s)"

definition vs1011_set_treble_amplitude :: "int \<Rightarrow> vs \<Rightarrow> u16 \<times> vs" where
  "vs1011_set_treble_amplitude value s =
     (let value = if value < - 8 then - 8 else value;
          value = if value > 7 then 7 else value
      in set_bass_field 12 (word_of_int value) s)"

section \<open>Start\<close>

definition chip_number :: "u16 \<Rightarrow> nat" where
  "chip_number i = [1001, 1011, 1011, 1003, 1053, 1033, 1063, 1103, 0, 0, 0, 0, 0, 0, 0, 0] ! unat i"

definition HZ_TO_SCI_CLOCKF :: "nat \<Rightarrow> u16" where
  "HZ_TO_SCI_CLOCKF hz = of_nat ((if hz < 16000000 then 0x8000 else 0) + (hz + 1000) div 2000)"

definition codec_init :: "vs \<Rightarrow> bool \<times> vs" where
  "codec_init s0 =
     (let s = snd (read_sci SCI_MODE s0);
          s = write_sci SCI_MODE (SM_SDINEW OR SM_RESET) s;
          s = write_sci SCI_AICTRL1 0xABAD s;
          s = write_sci SCI_AICTRL2 0x7E57 s;
          (a1, s) = read_sci SCI_AICTRL1 s
      in if a1 \<noteq> 0xABAD then (False, s)
         else (case read_sci SCI_AICTRL2 s of (a2, s) \<Rightarrow>
           if a2 \<noteq> 0x7E57 then (False, s)
           else (let s = write_sci SCI_AICTRL1 0 s;
                     s = write_sci SCI_AICTRL2 0 s;
                     (status, s) = read_sci SCI_STATUS s;
                     chip_id = drop_bit 4 status AND 0x0F
                 in if chip_number chip_id \<noteq> 0 then
                      (if chip_number chip_id \<noteq> 1011 then (False, s)
                       else (True, write_sci SCI_CLOCKF (HZ_TO_SCI_CLOCKF 12000000) s))
                    else (False, s))))"

definition bus_init :: "vs \<Rightarrow> vs" where
  "bus_init s = reset (vs1011_transient_mute True s)"

definition vs1011_init :: "bool \<Rightarrow> bool \<Rightarrow> vs \<Rightarrow> bool \<times> vs" where
  "vs1011_init mutex_ok sema_ok s =
     (if \<not> mutex_ok then (False, s)
      else if \<not> sema_ok then (False, s)
      else codec_init (bus_init s))"

definition audio_format :: "vs \<Rightarrow> audio_format_t \<times> vs" where
  "audio_format s =
     (case read_sci SCI_HDAT1 s of (h1, s') \<Rightarrow>
        (if h1 = 0x7665 then af_riff
         else if h1 AND 0xFFE6 = 0xFFE2 then af_mp3
         else if h1 AND 0xFFE6 = 0xFFE4 then af_mp2
         else if h1 AND 0xFFE6 = 0xFFE6 then af_mp1
         else af_unknown, s'))"

section \<open>Playing\<close>

text \<open>The inner loop: a buffer in transfers of at most 32 bytes.\<close>

function send_buffer :: "u8 list \<Rightarrow> vs \<Rightarrow> vs" where
  "send_buffer buf s =
     (if buf = [] then s
      else send_buffer (drop VS_MAX_CHUNK_SIZE buf) (write_sdi (take VS_MAX_CHUNK_SIZE buf) s))"
  by pat_completeness auto
termination
  by (relation "measure (\<lambda>(buf, s). length buf)") auto

declare send_buffer.simps [simp del]

definition report :: "bool \<Rightarrow> u32 \<Rightarrow> u32 \<Rightarrow> vs \<Rightarrow> vs" where
  "report has_callback total_size pos s =
     (if has_callback then
        (case read_sci SCI_DECODE_TIME s of (dt, s') \<Rightarrow>
           record_op (Callback \<lparr>position = pos, total = total_size, decode_time = dt\<rparr>) s')
      else s)"

text \<open>
  The outer loop: \<open>read_func\<close> fills the buffer time and again until it gives nothing; its
  results are a list of buffers.
\<close>

fun play_loop :: "bool \<Rightarrow> u32 \<Rightarrow> u32 \<Rightarrow> u8 list list \<Rightarrow> vs \<Rightarrow> vs" where
  "play_loop cb tot pos [] s = s"
| "play_loop cb tot pos (buf # bufs) s =
     (if buf = [] then s
      else (let pos' = pos + of_nat (length buf)
            in play_loop cb tot pos' bufs (report cb tot pos' (send_buffer buf s))))"

fun cancel_loop :: "nat \<Rightarrow> vs \<Rightarrow> vs" where
  "cancel_loop 0 s = s"
| "cancel_loop (Suc n) s =
     (case read_sci SCI_MODE (write_sdi (replicate VS_MAX_CHUNK_SIZE 0) s) of (m, s') \<Rightarrow>
        if m AND SM_OUTOFWAV = 0 then s' else cancel_loop n s')"

definition flush_zeros :: "vs \<Rightarrow> vs" where
  "flush_zeros s = ((write_sdi (replicate VS_MAX_CHUNK_SIZE 0)) ^^ 64) s"

definition play_data :: "bool \<Rightarrow> u32 \<Rightarrow> u8 list list \<Rightarrow> vs \<Rightarrow> vs" where
  "play_data cb total_size bufs s0 =
     (let s = write_sci SCI_DECODE_TIME 0 s0;
          s = write_sci SCI_DECODE_TIME 0 s;
          s = report cb total_size 0 s;
          s = write_sdi [0, 0] s;
          s = vs1011_transient_mute False s;
          s = play_loop cb total_size 0 bufs s
      in vs1011_transient_mute True s)"

definition cancel_format :: "vs \<Rightarrow> vs" where
  "cancel_format s =
     (case audio_format s of (af, s) \<Rightarrow>
        if af \<noteq> af_mp3 \<and> af \<noteq> af_unknown then
          (case read_sci SCI_MODE s of (m, s') \<Rightarrow>
             cancel_loop 512 (write_sci SCI_MODE (m OR SM_OUTOFWAV) s'))
        else s)"

definition play_end :: "bool \<Rightarrow> vs \<Rightarrow> vs" where
  "play_end cb s0 =
     (let s = flush_zeros s0;
          s = (if cb then record_op (Callback \<lparr>position = 0, total = 0, decode_time = 0\<rparr>) s else s)
      in (case read_sci SCI_MODE s of (m, s) \<Rightarrow>
            if m AND SM_OUTOFWAV \<noteq> 0 then snd (codec_init s) else s))"

definition vs1011_play :: "u8 list list option \<Rightarrow> u32 \<Rightarrow> bool \<Rightarrow> vs \<Rightarrow> vs" where
  "vs1011_play read_func total_size cb s =
     (case read_func of
        None \<Rightarrow> s
      | Some bufs \<Rightarrow> play_end cb (cancel_format (play_data cb total_size bufs s)))"

section \<open>Register fields\<close>

text \<open>The contract of a field of a register: a lens on the values that fit it.\<close>

locale field =
  fixes put :: "'r \<Rightarrow> 'v \<Rightarrow> 'r"
    and get :: "'r \<Rightarrow> 'v"
    and fits :: "'v \<Rightarrow> bool"
  assumes get_put: "fits v \<Longrightarrow> get (put r v) = v"
    and put_put: "put (put r v) w = put r w"
    and put_get: "put r (get r) = r"
begin

lemma put_inject: "fits v \<Longrightarrow> fits w \<Longrightarrow> put r v = put r w \<longleftrightarrow> v = w"
  using get_put by metis

lemma put_same: "fits v \<Longrightarrow> get r = v \<Longrightarrow> put r v = r"
  using put_get by blast

end

text \<open>Two fields that do not overlap.\<close>

locale fields = a: field put get fits + b: field put' get' fits'
  for put :: "'r \<Rightarrow> 'v \<Rightarrow> 'r" and get and fits
    and put' :: "'r \<Rightarrow> 'v \<Rightarrow> 'r" and get' and fits' +
  assumes put_commute: "put (put' r w) v = put' (put r v) w"
    and get_other: "get (put' r w) = get r"
    and get_other': "get' (put r v) = get' r"
begin

lemma get_both: "fits v \<Longrightarrow> fits' w \<Longrightarrow> get (put' (put r v) w) = v \<and> get' (put' (put r v) w) = w"
  by (simp add: get_other a.get_put b.get_put)

end

definition get_field :: "nat \<Rightarrow> u16 \<Rightarrow> u16" where
  "get_field b r = drop_bit b r AND nibble"

lemma bit_nibble: "bit nibble n \<longleftrightarrow> n < 4"
proof (cases "n < 16")
  case True
  have "\<forall>n\<in>set [0..<16]. bit nibble n = (n < 4)"
    by code_simp
  with True show ?thesis by simp
next
  case False
  then have "\<not> bit nibble n" using bit_imp_le_length [of nibble n] by auto
  with False show ?thesis by simp
qed

lemma bit_field_mask: "bit (field_mask b) n \<longleftrightarrow> b \<le> n \<and> n < b + 4 \<and> n < 16"
  by (auto simp: field_mask_def bit_push_bit_iff bit_nibble possible_bit_def)

lemma bit_put_field:
  "bit (put_field b r v) n \<longleftrightarrow>
     n < 16 \<and> (if b \<le> n \<and> n < b + 4 then bit v (n - b) else bit r n)"
  by (auto simp: put_field_def bit_or_iff bit_and_iff bit_not_iff bit_field_mask bit_push_bit_iff
      possible_bit_def dest: bit_imp_le_length)

lemma bit_get_field: "bit (get_field b r) n \<longleftrightarrow> n < 4 \<and> bit r (b + n)"
  by (auto simp: get_field_def bit_and_iff bit_nibble bit_drop_bit_eq)


lemma fits_bits: "v < (16 :: u16) \<Longrightarrow> bit v n \<Longrightarrow> n < 4"
proof (rule ccontr)
  assume v: "v < 16" "bit v n" and "\<not> n < 4"
  have "unat (take_bit 4 v) = unat v"
    using v(1) by (simp add: unsigned_take_bit_eq word_less_nat_alt take_bit_nat_eq_self)
  then have "take_bit 4 v = v" by (rule unsigned_word_eqI)
  then have "bit (take_bit 4 v) n" using v(2) by simp
  then show False using \<open>\<not> n < 4\<close> by (simp add: bit_take_bit_iff)
qed

lemma field_instance: "b \<le> 12 \<Longrightarrow> field (put_field b) (get_field b) (\<lambda>v. v < 16)"
proof
  fix v r :: u16
  assume "b \<le> 12" "v < 16"
  then show "get_field b (put_field b r v) = v"
    by (intro bit_word_eqI) (auto simp: bit_get_field bit_put_field dest: fits_bits)
next
  fix r v w :: u16
  show "put_field b (put_field b r v) w = put_field b r w"
    by (rule bit_word_eqI) (auto simp: bit_put_field)
next
  fix r :: u16
  show "put_field b r (get_field b r) = r"
    by (rule bit_word_eqI) (auto simp: bit_put_field bit_get_field)
qed


lemma fields_instance:
  assumes "b \<le> 12" "c \<le> 12" "b + 4 \<le> c \<or> c + 4 \<le> b"
  shows "fields (put_field b) (get_field b) (\<lambda>v. v < 16) (put_field c) (get_field c) (\<lambda>v. v < 16)"
proof (intro fields.intro fields_axioms.intro field_instance assms(1,2))
  fix r v w :: u16
  show "put_field b (put_field c r w) v = put_field c (put_field b r v) w"
    using assms(3) by (intro bit_word_eqI) (auto simp: bit_put_field)
  show "get_field b (put_field c r w) = get_field b r"
    using assms(3) by (intro bit_word_eqI) (auto simp: bit_put_field bit_get_field dest: bit_imp_le_length)
  show "get_field c (put_field b r v) = get_field c r"
    using assms(3) by (intro bit_word_eqI) (auto simp: bit_put_field bit_get_field dest: bit_imp_le_length)
qed

text \<open>The four fields of the tone register: bass limit 0, amplitude 4, treble limit 8, amplitude 12.\<close>

interpretation bass: fields "put_field 0" "get_field 0" "\<lambda>v. v < 16" "put_field 4" "get_field 4" "\<lambda>v. v < 16"
  by (rule fields_instance) simp_all

interpretation treble: fields "put_field 8" "get_field 8" "\<lambda>v. v < 16" "put_field 12" "get_field 12" "\<lambda>v. v < 16"
  by (rule fields_instance) simp_all

interpretation limits: fields "put_field 0" "get_field 0" "\<lambda>v. v < 16" "put_field 8" "get_field 8" "\<lambda>v. v < 16"
  by (rule fields_instance) simp_all

interpretation amplitudes: fields "put_field 4" "get_field 4" "\<lambda>v. v < 16" "put_field 12" "get_field 12" "\<lambda>v. v < 16"
  by (rule fields_instance) simp_all

interpretation low_high: fields "put_field 0" "get_field 0" "\<lambda>v. v < 16" "put_field 12" "get_field 12" "\<lambda>v. v < 16"
  by (rule fields_instance) simp_all

interpretation middle: fields "put_field 4" "get_field 4" "\<lambda>v. v < 16" "put_field 8" "get_field 8" "\<lambda>v. v < 16"
  by (rule fields_instance) simp_all

lemmas tone_fields = bass.get_other bass.get_other' treble.get_other treble.get_other'
  limits.get_other limits.get_other' amplitudes.get_other amplitudes.get_other'
  low_high.get_other low_high.get_other' middle.get_other middle.get_other'

lemma get_put_low: "b \<le> 12 \<Longrightarrow> get_field b (put_field b r v) = take_bit 4 v"
  by (intro bit_word_eqI) (auto simp: bit_get_field bit_put_field bit_take_bit_iff)

definition tone :: "u16 \<Rightarrow> u16 list" where
  "tone r = [get_field 0 r, get_field 4 r, get_field 8 r, get_field 12 r]"

lemma take_4_ucast: "v \<le> (15 :: u8) \<Longrightarrow> take_bit 4 (ucast v :: u16) = ucast v"
proof (rule unsigned_word_eqI)
  assume "v \<le> 15"
  then have "unat v < 16" by (simp add: word_le_nat_alt)
  then show "unat (take_bit 4 (ucast v :: u16)) = unat (ucast v :: u16)"
    by (simp add: unsigned_take_bit_eq unsigned_ucast_eq take_bit_nat_eq_self)
qed

lemma set_bass_field_out:
  "answers s = c # rest \<Longrightarrow> set_bass_field b v s =
     (put_field b c v,
      s\<lparr>answers := rest,
        ops := ops s @ [SciRead SCI_BASS, SciWrite SCI_BASS (put_field b c v)]\<rparr>)"
  by (simp add: set_bass_field_def read_sci_def write_sci_def record_op_def)

text \<open>
  Each of the four tone settings reads the tone register, stores its value, clamped to
  its range (the treble amplitude as a four-bit two's complement number), in its own field,
  leaves the other three fields as the chip reported them, and writes the result back.
\<close>

theorem tone_setting:
  assumes "answers s = c # rest"
  shows "tone (fst (vs1011_set_bass_freqlimit v s)) =
           (tone c)[0 := ucast (max 2 (min v 15))] \<and>
         tone (fst (vs1011_set_bass_amplitude v s)) = (tone c)[1 := ucast (min v 15)] \<and>
         tone (fst (vs1011_set_treble_freqlimit v s)) = (tone c)[2 := ucast (min v 15)] \<and>
         tone (fst (vs1011_set_treble_amplitude a s)) =
           (tone c)[3 := take_bit 4 (word_of_int (max (- 8) (min a 7)))] \<and>
         ops (snd (vs1011_set_bass_amplitude v s)) =
           ops s @ [SciRead SCI_BASS, SciWrite SCI_BASS (fst (vs1011_set_bass_amplitude v s))]"
proof -
  have 1: "(if 15 < (if v < 2 then 2 else v) then 15 else (if v < 2 then 2 else v)) = max 2 (min v 15)"
    by (auto simp: max_def min_def word_less_nat_alt word_le_nat_alt)
  have 2: "(if 15 < v then 15 else v) = min v 15"
    by (auto simp: min_def not_less)
  have 3: "(if 7 < (if a < - 8 then - 8 else a) then 7 else (if a < - 8 then - 8 else a)) =
      max (- 8) (min a 7)"
    by (auto simp: max_def min_def)
  have le: "max 2 (min v 15) \<le> 15" "min v 15 \<le> (15 :: u8)"
    by (auto simp: max_def min_def)
  show ?thesis
    using assms 1 2 3 le
    by (simp add: vs1011_set_bass_freqlimit_def vs1011_set_bass_amplitude_def
        vs1011_set_treble_freqlimit_def vs1011_set_treble_amplitude_def set_bass_field_out
        Let_def tone_def get_put_low tone_fields take_4_ucast)
qed

theorem tone_setting_witness:
  "tone (fst (vs1011_set_bass_amplitude 20 \<lparr>answers = [0x1234], ops = []\<rparr>)) = (tone 0x1234)[1 := 15]"
  using tone_setting [where s = "\<lparr>answers = [0x1234], ops = []\<rparr>" and c = "0x1234" and rest = "[]" and v = 20]
  by (simp add: min_def)

section \<open>Volume\<close>

definition attenuation :: "nat \<Rightarrow> nat" where
  "attenuation p = 254 - (50 * min p 100 div 100 + 50) * 254 div 100"

lemma attenuation_le: "attenuation p \<le> 127"
  by (simp add: attenuation_def)

lemma attenuation_antimono: "p \<le> q \<Longrightarrow> attenuation q \<le> attenuation p"
  unfolding attenuation_def by (intro diff_le_mono2 div_le_mono mult_le_mono add_mono) auto

lemma volume_reg_attenuation: "unat (volume_reg w) = attenuation (unat w) * 257"
proof -
  have u: "unat (if w > 100 then 100 else w) = min (unat w) 100"
    by (auto simp: word_less_nat_alt)
  have le: "\<not> 50 * min (unat w) 100 div 100 + 50 > 100"
    by simp
  have "volume_reg w = of_nat (attenuation (unat w)) + of_nat (attenuation (unat w)) * 256"
    unfolding volume_reg_def Let_def u attenuation_def using le by (simp only: if_False)
  then have "volume_reg w = of_nat (attenuation (unat w) * 257)"
    by simp
  moreover have "attenuation (unat w) * 257 < 65536"
    using attenuation_le [of "unat w"] by linarith
  ultimately show ?thesis by (simp only: unat_of_nat_u16)
qed

text \<open>
  The volume register never increases with the volume in percent, both channels get the
  same attenuation, it stays between 0 (for 100 percent and more) and 127 (for 0 percent).
\<close>

theorem volume_antitone:
  assumes "p \<le> q"
  shows "volume_reg q \<le> volume_reg p \<and>
         unat (volume_reg p) div 256 = unat (volume_reg p) mod 256 \<and>
         unat (volume_reg p) mod 256 \<le> 127 \<and>
         (100 \<le> p \<longrightarrow> volume_reg p = 0) \<and> volume_reg 0 = 127 * 257 \<and>
         vs1011_set_volume p s = (volume_reg p, s\<lparr>ops := ops s @ [SciWrite SCI_VOL (volume_reg p)]\<rparr>)"
proof -
  have "volume_reg q \<le> volume_reg p"
    using assms attenuation_antimono by (simp add: word_le_nat_alt volume_reg_attenuation)
  moreover have "unat (volume_reg p) div 256 = unat (volume_reg p) mod 256 \<and>
      unat (volume_reg p) mod 256 \<le> 127"
  proof -
    have "attenuation (unat p) * 257 = attenuation (unat p) + attenuation (unat p) * 256" by simp
    then show ?thesis
      using attenuation_le [of "unat p"] unfolding volume_reg_attenuation
      by (simp only: div_mult_self1 mod_mult_self1) simp
  qed
  moreover have "100 \<le> p \<longrightarrow> volume_reg p = 0"
  proof
    assume "100 \<le> p"
    then have "unat (volume_reg p) = 0"
      unfolding volume_reg_attenuation by (simp add: attenuation_def word_le_nat_alt min_def)
    then show "volume_reg p = 0" by (simp only: unat_eq_0)
  qed
  moreover have "volume_reg 0 = 127 * 257"
    by (simp add: volume_reg_def Let_def)
  ultimately show ?thesis
    by (simp add: vs1011_set_volume_def write_sci_def record_op_def)
qed

theorem volume_antitone_witness: "volume_reg 80 \<le> volume_reg 30"
  using volume_antitone [of 30 80] by simp

section \<open>What the chip hears\<close>

definition is_audio :: "bus_op \<Rightarrow> bool" where
  "is_audio e = (case e of Sdi _ \<Rightarrow> True | MuteGpio _ \<Rightarrow> True | _ \<Rightarrow> False)"

definition audio :: "vs \<Rightarrow> bus_op list" where
  "audio s = filter is_audio (ops s)"

function pieces :: "u8 list \<Rightarrow> u8 list list" where
  "pieces buf = (if buf = [] then [] else take VS_MAX_CHUNK_SIZE buf # pieces (drop VS_MAX_CHUNK_SIZE buf))"
  by pat_completeness auto
termination
  by (relation "measure length") auto

declare pieces.simps [simp del]

lemma concat_pieces: "concat (pieces buf) = buf"
proof (induction buf rule: pieces.induct)
  case (1 buf)
  then show ?case by (subst pieces.simps) auto
qed

lemma pieces_length: "\<forall>c\<in>set (pieces buf). 0 < length c \<and> length c \<le> VS_MAX_CHUNK_SIZE"
proof (induction buf rule: pieces.induct)
  case (1 buf)
  then show ?case by (subst pieces.simps) auto
qed

lemma audio_record [simp]: "audio (record_op e s) = audio s @ (if is_audio e then [e] else [])"
  by (simp add: audio_def record_op_def)

lemma audio_answers [simp]: "audio (s\<lparr>answers := xs\<rparr>) = audio s"
  by (simp add: audio_def)

lemma audio_write_sci [simp]: "audio (write_sci a d s) = audio s"
  by (simp add: write_sci_def is_audio_def)

lemma audio_read_sci: "read_sci a s = (v, s') \<Longrightarrow> audio s' = audio s"
  by (auto simp: read_sci_def is_audio_def split: list.splits)

lemma audio_read_sci_snd [simp]: "audio (snd (read_sci a s)) = audio s"
  by (rule audio_read_sci) (rule surjective_pairing)

lemma audio_mute [simp]: "audio (vs1011_transient_mute m s) = audio s @ [MuteGpio (\<not> m)]"
  by (simp add: vs1011_transient_mute_def is_audio_def)

lemma audio_write_sdi [simp]: "length b \<le> 32 \<Longrightarrow> audio (write_sdi b s) = audio s @ [Sdi b]"
  by (simp add: write_sdi_def is_audio_def)

lemma audio_report [simp]: "audio (report cb tot pos s) = audio s"
  by (auto simp: report_def is_audio_def dest: audio_read_sci split: prod.splits)

lemma audio_send_buffer: "audio (send_buffer buf s) = audio s @ map Sdi (pieces buf)"
proof (induction buf s rule: send_buffer.induct)
  case (1 buf s)
  then show ?case
    by (subst send_buffer.simps, subst pieces.simps) simp
qed

lemma audio_play_loop:
  "audio (play_loop cb tot pos bufs s) =
     audio s @ map Sdi (concat (map pieces (takeWhile (\<lambda>b. b \<noteq> []) bufs)))"
  by (induction bufs arbitrary: pos s) (auto simp: Let_def audio_send_buffer)

lemma audio_format_audio: "audio_format s = (af, s') \<Longrightarrow> audio s' = audio s"
  by (auto simp: audio_format_def dest: audio_read_sci split: prod.splits)

definition zeros :: "u8 list" where
  "zeros = replicate VS_MAX_CHUNK_SIZE 0"

lemma audio_cancel_loop: "\<exists>k. audio (cancel_loop n s) = audio s @ replicate k (Sdi zeros)"
proof (induction n arbitrary: s)
  case 0
  then show ?case by (auto intro: exI [of _ 0])
next
  case (Suc n)
  obtain m s' where r: "read_sci SCI_MODE (write_sdi (replicate 32 0) s) = (m, s')" by fastforce
  then have a: "audio s' = audio s @ [Sdi zeros]"
    using audio_read_sci [OF r] by (simp add: zeros_def)
  obtain k where "audio (cancel_loop n s') = audio s' @ replicate k (Sdi zeros)"
    using Suc.IH by blast
  with a r have "audio (cancel_loop (Suc n) s) = audio s @ replicate (Suc 0) (Sdi zeros) \<or>
      audio (cancel_loop (Suc n) s) = audio s @ replicate (Suc k) (Sdi zeros)"
    by simp
  then show ?case by blast
qed

lemma audio_flush: "audio (flush_zeros s) = audio s @ replicate 64 (Sdi zeros)"
proof -
  have "audio ((write_sdi (replicate VS_MAX_CHUNK_SIZE 0) ^^ n) s) = audio s @ replicate n (Sdi zeros)" for n
    by (induction n) (simp_all add: zeros_def replicate_append_same)
  then show ?thesis by (simp add: flush_zeros_def)
qed

lemma audio_codec_init: "audio (snd (codec_init s)) = audio s"
  by (auto simp: codec_init_def Let_def dest!: audio_read_sci split: prod.splits)

lemma audio_cancel_format: "\<exists>k. audio (cancel_format s) = audio s @ replicate k (Sdi zeros)"
proof -
  obtain af s1 where f: "audio_format s = (af, s1)" by fastforce
  obtain m s2 where r: "read_sci SCI_MODE s1 = (m, s2)" by fastforce
  note a = audio_format_audio [OF f] audio_read_sci [OF r]
  obtain k where "audio (cancel_loop 512 (write_sci SCI_MODE (m OR SM_OUTOFWAV) s2)) =
      audio s2 @ replicate k (Sdi zeros)"
    using audio_cancel_loop [of 512 "write_sci SCI_MODE (m OR SM_OUTOFWAV) s2"] by auto
  with f r a show ?thesis
    by (cases "af \<noteq> af_mp3 \<and> af \<noteq> af_unknown") (auto simp: cancel_format_def intro: exI [of _ 0])
qed

lemma audio_play_end: "audio (play_end cb s) = audio s @ replicate 64 (Sdi zeros)"
  by (auto simp: play_end_def Let_def audio_codec_init audio_flush is_audio_def
      dest!: audio_read_sci split: prod.splits)

lemma play_audio:
  "\<exists>chunks k. audio (vs1011_play (Some bufs) tot cb s) =
     audio s @ [Sdi [0, 0], MuteGpio True] @ map Sdi chunks @ [MuteGpio False] @
     replicate k (Sdi zeros) \<and>
     concat chunks = concat (takeWhile (\<lambda>b. b \<noteq> []) bufs) \<and>
     list_all (\<lambda>c. 0 < length c \<and> length c \<le> 32) chunks"
proof -
  let ?bs = "takeWhile (\<lambda>b. b \<noteq> []) bufs"
  let ?cs = "concat (map pieces ?bs)"
  have "\<exists>k. audio (vs1011_play (Some bufs) tot cb s) =
     audio s @ [Sdi [0, 0], MuteGpio True] @ map Sdi ?cs @ [MuteGpio False] @ replicate k (Sdi zeros)"
  proof -
    let ?s1 = "play_data cb tot bufs s"
    obtain k where "audio (cancel_format ?s1) = audio ?s1 @ replicate k (Sdi zeros)"
      using audio_cancel_format by blast
    then have "audio (vs1011_play (Some bufs) tot cb s) =
        audio ?s1 @ replicate (k + 64) (Sdi zeros)"
      by (simp add: vs1011_play_def audio_play_end replicate_add)
    moreover have "audio ?s1 = audio s @ [Sdi [0, 0], MuteGpio True] @ map Sdi ?cs @ [MuteGpio False]"
      by (simp add: play_data_def Let_def audio_play_loop)
    ultimately show ?thesis by auto
  qed
  moreover have "concat ?cs = concat ?bs"
    by (induction bufs) (auto simp: concat_pieces)
  moreover have "list_all (\<lambda>c. 0 < length c \<and> length c \<le> 32) ?cs"
    using pieces_length by (auto simp: list_all_iff)
  ultimately show ?thesis by blast
qed

text \<open>
  Playing a stream unmutes the amplifier, sends exactly the bytes that the reader
  delivered before its first empty buffer, in order and in transfers of 1 to 32 bytes, mutes
  again, and only then sends the zero transfers that flush the chip.
\<close>

theorem play_sends_stream:
  "\<exists>chunks k. audio (vs1011_play (Some bufs) tot cb s) =
     audio s @ [Sdi [0, 0], MuteGpio True] @ map Sdi chunks @ [MuteGpio False] @
     replicate k (Sdi zeros) \<and>
     concat chunks = concat (takeWhile (\<lambda>b. b \<noteq> []) bufs) \<and>
     list_all (\<lambda>c. 0 < length c \<and> length c \<le> 32) chunks"
  by (rule play_audio)

end
