(* ===== verification/Pdjson.thy ===== *)
theory Pdjson
  imports Prelude
begin

unbundle bit_operations_syntax

text \<open>
  \<open>src/firmware/components/pdjson/pdjson.c\<close>: the JSON parser whose events the firmware works on.
  The source, a buffer or a file, is the string of its unread bytes. Diagnostics (\<open>errmsg\<close>,
  \<open>lineno\<close>) are left out, allocations succeed, and the flag for streaming has the value that
  \<open>init\<close> gives it. A string event carries what \<open>json_get_string\<close> answers after it, without the
  terminating NUL; a number event carries what its users make of \<open>json_get_number\<close>, which is the
  parameter \<open>num\<close> of the digits.
\<close>

datatype json_event =
    JSON_OBJECT
  | JSON_OBJECT_END
  | JSON_ARRAY
  | JSON_ARRAY_END
  | JSON_STRING string
  | JSON_NUMBER int
  | JSON_TRUE
  | JSON_FALSE
  | JSON_NULL
  | JSON_DONE
  | JSON_ERROR

datatype container = In_Array | In_Object

text \<open>The stack has its top first; each entry counts the values, or keys and values, so far.\<close>

record json_stream =
  source :: string
  stack :: "(container \<times> nat) list"
  ntokens :: nat
  error_flag :: bool

definition json_open_string :: "string \<Rightarrow> json_stream" where
  "json_open_string s = \<lparr>source = s, stack = [], ntokens = 0, error_flag = False\<rparr>"

definition json_get_depth :: "json_stream \<Rightarrow> nat" where
  "json_get_depth j = length (stack j)"

section \<open>Strings\<close>

text \<open>What follows is None where the code sets the error flag.\<close>

definition hexchar :: "char \<Rightarrow> nat option" where
  "hexchar c =
     (let n = of_char c :: nat
      in if 48 \<le> n \<and> n \<le> 57 then Some (n - 48)
         else if 97 \<le> n \<and> n \<le> 102 then Some (n - 87)
         else if 65 \<le> n \<and> n \<le> 70 then Some (n - 55)
         else None)"

definition read_unicode_cp :: "string \<Rightarrow> (nat \<times> string) option" where
  "read_unicode_cp s =
     (case s of
        a # b # c # d # r \<Rightarrow>
          (case (hexchar a, hexchar b, hexchar c, hexchar d) of
             (Some w, Some x, Some y, Some z) \<Rightarrow> Some (w * 4096 + x * 256 + y * 16 + z, r)
           | _ \<Rightarrow> None)
      | _ \<Rightarrow> None)"

definition encode_utf8 :: "nat \<Rightarrow> string option" where
  "encode_utf8 c =
     (if c < 0x80 then Some [char_of c]
      else if c < 0x800 then
        Some [char_of ((drop_bit 6 c AND 0x1F) OR 0xC0), char_of ((c AND 0x3F) OR 0x80)]
      else if c < 0x10000 then
        (if c \<ge> 0xD800 \<and> c \<le> 0xDFFF then None
         else Some [char_of ((drop_bit 12 c AND 0x0F) OR 0xE0), char_of ((drop_bit 6 c AND 0x3F) OR 0x80),
                    char_of ((c AND 0x3F) OR 0x80)])
      else if c < 0x110000 then
        Some [char_of ((drop_bit 18 c AND 0x07) OR 0xF0), char_of ((drop_bit 12 c AND 0x3F) OR 0x80),
              char_of ((drop_bit 6 c AND 0x3F) OR 0x80), char_of ((c AND 0x3F) OR 0x80)]
      else None)"

definition read_unicode :: "string \<Rightarrow> (string \<times> string) option" where
  "read_unicode s =
     (case read_unicode_cp s of
        None \<Rightarrow> None
      | Some (cp, r) \<Rightarrow>
          if cp \<ge> 0xD800 \<and> cp \<le> 0xDBFF then
            (case r of
               b # u # r' \<Rightarrow>
                 if b \<noteq> CHR 0x5C then None
                 else if u \<noteq> CHR ''u'' then None
                 else (case read_unicode_cp r' of
                         None \<Rightarrow> None
                       | Some (l, r'') \<Rightarrow>
                           if l < 0xDC00 \<or> l > 0xDFFF then None
                           else map_option (\<lambda>t. (t, r''))
                                  (encode_utf8 ((cp - 0xD800) * 0x400 + ((l - 0xDC00) + 0x10000))))
             | _ \<Rightarrow> None)
          else if cp \<ge> 0xDC00 \<and> cp \<le> 0xDFFF then None
          else map_option (\<lambda>t. (t, r)) (encode_utf8 cp))"

text \<open>The characters pushed for an escape sequence, and the rest.\<close>

definition escape_codes :: "char \<rightharpoonup> char" where
  "escape_codes = map_of
     [(CHR 0x5C, CHR 0x5C), (CHR ''b'', CHR 0x08), (CHR ''f'', CHR 0x0C), (CHR ''n'', CHR 0x0A),
      (CHR ''r'', CHR 0x0D), (CHR ''t'', CHR 0x09), (CHR ''/'', CHR ''/''), (CHR 0x22, CHR 0x22)]"

definition read_escaped :: "string \<Rightarrow> (string \<times> string) option" where
  "read_escaped s =
     (case s of
        [] \<Rightarrow> None
      | c # r \<Rightarrow>
          if c = CHR ''u'' then read_unicode r
          else (case escape_codes c of None \<Rightarrow> None | Some d \<Rightarrow> Some ([d], r)))"

definition char_needs_escaping :: "char \<Rightarrow> bool" where
  "char_needs_escaping c = ((of_char c :: nat) < 0x20 \<or> c = CHR 0x22 \<or> c = CHR 0x5C)"

definition utf8_seq_length :: "nat \<Rightarrow> nat" where
  "utf8_seq_length u =
     (if u < 0x80 then 1
      else if 0x80 \<le> u \<and> u \<le> 0xBF then 0
      else if u = 0xC0 \<or> u = 0xC1 then 0
      else if 0xC2 \<le> u \<and> u \<le> 0xDF then 2
      else if 0xE0 \<le> u \<and> u \<le> 0xEF then 3
      else if 0xF0 \<le> u \<and> u \<le> 0xF4 then 4
      else 0)"

definition continuation :: "nat \<Rightarrow> bool" where
  "continuation a = (0x80 \<le> a \<and> a \<le> 0xBF)"

definition second_byte :: "nat \<Rightarrow> nat \<Rightarrow> bool" where
  "second_byte b a =
     (if b = 0xE0 then 0xA0 \<le> a \<and> a \<le> 0xBF
      else if b = 0xED then 0x80 \<le> a \<and> a \<le> 0x9F
      else if b = 0xF0 then 0x90 \<le> a \<and> a \<le> 0xBF
      else if b = 0xF4 then 0x80 \<le> a \<and> a \<le> 0x8F
      else continuation a)"

definition is_legal_utf8 :: "nat list \<Rightarrow> bool" where
  "is_legal_utf8 bytes =
     (case bytes of
        [b] \<Rightarrow> \<not> (b \<ge> 0x80 \<and> b < 0xC2) \<and> b \<le> 0xF4
      | [b, x] \<Rightarrow> second_byte b x \<and> \<not> (b \<ge> 0x80 \<and> b < 0xC2) \<and> b \<le> 0xF4
      | [b, x, y] \<Rightarrow> continuation y \<and> second_byte b x \<and> \<not> (b \<ge> 0x80 \<and> b < 0xC2) \<and> b \<le> 0xF4
      | [b, x, y, z] \<Rightarrow> continuation z \<and> continuation y \<and> second_byte b x \<and>
          \<not> (b \<ge> 0x80 \<and> b < 0xC2) \<and> b \<le> 0xF4
      | _ \<Rightarrow> False)"

text \<open>A sequence that the source cuts short is read as if followed by bytes \<open>0xFF\<close>, and is illegal.\<close>

definition read_utf8 :: "char \<Rightarrow> string \<Rightarrow> (string \<times> string) option" where
  "read_utf8 c r =
     (let count = utf8_seq_length (of_char c)
      in if count = 0 then None
         else (let bytes = c # take (count - 1) (r @ replicate 3 (CHR 0xFF))
               in if is_legal_utf8 (map of_char bytes) then Some (bytes, drop (count - 1) r) else None))"

lemma read_unicode_cp_shorter: "read_unicode_cp s = Some (n, r) \<Longrightarrow> length r < length s"
  by (auto simp: read_unicode_cp_def split: list.splits option.splits)

lemma read_unicode_shorter: "read_unicode s = Some (t, r) \<Longrightarrow> length r < length s"
  by (auto simp: read_unicode_def split: option.splits if_splits list.splits
      dest!: read_unicode_cp_shorter)

lemma read_escaped_shorter: "read_escaped s = Some (t, r) \<Longrightarrow> length r < length s"
  by (auto simp: read_escaped_def split: list.splits if_splits option.splits dest!: read_unicode_shorter)

lemma read_utf8_not_longer: "read_utf8 c s = Some (t, r) \<Longrightarrow> length r \<le> length s"
  by (auto simp: read_utf8_def Let_def split: if_splits)

function read_string :: "string \<Rightarrow> string \<Rightarrow> (string \<times> string) option" where
  "read_string acc [] = None"
| "read_string acc (c # r) =
     (if c = CHR 0x22 then Some (acc, r)
      else if c = CHR 0x5C then
        (case read_escaped r of None \<Rightarrow> None | Some (t, r') \<Rightarrow> read_string (acc @ t) r')
      else if (of_char c :: nat) \<ge> 0x80 then
        (case read_utf8 c r of None \<Rightarrow> None | Some (t, r') \<Rightarrow> read_string (acc @ t) r')
      else if char_needs_escaping c then None
      else read_string (acc @ [c]) r)"
  by pat_completeness auto
termination
  by (relation "measure (\<lambda>(acc, s). length s)")
     (auto dest: read_escaped_shorter read_utf8_not_longer)

declare read_string.simps [simp del]

section \<open>Numbers\<close>

text \<open>
  What the reading of a number gives: its text, None for \<open>JSON_ERROR\<close>; the rest of the source; and
  whether the error flag was set. The two do not go together: a missing digit after a point is an error
  without the flag, a sign without a digit sets the flag and still reads on.
\<close>

type_synonym reading = "string option \<times> string \<times> bool"

definition read_digits :: "string \<Rightarrow> string \<times> string" where
  "read_digits s = (takeWhile is_digit_char s, dropWhile is_digit_char s)"

definition read_exponent :: "string \<Rightarrow> string \<Rightarrow> bool \<Rightarrow> reading" where
  "read_exponent acc s flag =
     (case s of
        e # r \<Rightarrow>
          if e = CHR ''e'' \<or> e = CHR ''E'' then
            (case r of
               [] \<Rightarrow> (None, r, True)
             | c # r' \<Rightarrow>
                 if c = CHR ''+'' \<or> c = CHR ''-'' then
                   (case read_digits r' of (ds, r'') \<Rightarrow>
                      (if ds = [] then None else Some (acc @ [e, c] @ ds), r'', flag))
                 else if is_digit_char c then
                   (case read_digits r of (ds, r'') \<Rightarrow> (Some (acc @ [e] @ ds), r'', flag))
                 else (None, r, True))
          else (Some acc, s, flag)
      | [] \<Rightarrow> (Some acc, s, flag))"

text \<open>From the place where everything up to the decimal point or the exponent has been read.\<close>

definition read_fraction :: "string \<Rightarrow> string \<Rightarrow> bool \<Rightarrow> reading" where
  "read_fraction acc s flag =
     (case s of
        c # r \<Rightarrow>
          if c = CHR ''.'' then
            (case read_digits r of (ds, r') \<Rightarrow>
               if ds = [] then (None, r', flag) else read_exponent (acc @ [c] @ ds) r' flag)
          else read_exponent acc s flag
      | [] \<Rightarrow> (Some acc, s, flag))"

definition read_unsigned :: "string \<Rightarrow> char \<Rightarrow> string \<Rightarrow> reading" where
  "read_unsigned acc c s =
     (if c = CHR ''0'' then read_fraction (acc @ [c]) s False
      else (case read_digits s of (ds, r) \<Rightarrow> read_fraction (acc @ [c] @ ds) r False))"

definition read_number :: "char \<Rightarrow> string \<Rightarrow> reading" where
  "read_number c s =
     (if c = CHR ''-'' then
        (case s of
           [] \<Rightarrow> read_fraction [c] [] True
         | d # r \<Rightarrow> if is_digit_char d then read_unsigned [c] d r else read_fraction [c] r True)
      else read_unsigned [] c s)"

section \<open>Values\<close>

fun is_match :: "string \<Rightarrow> string \<Rightarrow> bool \<times> string" where
  "is_match [] s = (True, s)"
| "is_match (p # ps) [] = (False, [])"
| "is_match (p # ps) (c # s) = (if p = c then is_match ps s else (False, s))"

definition push :: "container \<Rightarrow> json_stream \<Rightarrow> json_stream" where
  "push k j = j\<lparr>stack := (k, 0) # stack j\<rparr>"

definition fail_with :: "json_stream \<Rightarrow> json_event \<times> json_stream" where
  "fail_with j = (JSON_ERROR, j\<lparr>error_flag := True\<rparr>)"

definition pop :: "container \<Rightarrow> json_stream \<Rightarrow> json_event \<times> json_stream" where
  "pop expected j =
     (case stack j of
        (k, n) # st \<Rightarrow>
          if k \<noteq> expected then fail_with j
          else (if expected = In_Array then JSON_ARRAY_END else JSON_OBJECT_END, j\<lparr>stack := st\<rparr>)
      | [] \<Rightarrow> fail_with j)"

definition literal :: "string \<Rightarrow> json_event \<Rightarrow> json_stream \<Rightarrow> json_event \<times> json_stream" where
  "literal pattern e j =
     (case is_match pattern (source j) of (ok, r) \<Rightarrow> (if ok then e else JSON_ERROR, j\<lparr>source := r\<rparr>))"

definition read_value :: "(string \<Rightarrow> int) \<Rightarrow> char option \<Rightarrow> json_stream \<Rightarrow> json_event \<times> json_stream" where
  "read_value num co j0 =
     (let j = j0\<lparr>ntokens := ntokens j0 + 1\<rparr>
      in case co of
           None \<Rightarrow> fail_with j
         | Some c \<Rightarrow>
             if c = CHR ''{'' then (JSON_OBJECT, push In_Object j)
             else if c = CHR ''['' then (JSON_ARRAY, push In_Array j)
             else if c = CHR 0x22 then
               (case read_string [] (source j) of
                  None \<Rightarrow> fail_with j
                | Some (t, r) \<Rightarrow> (JSON_STRING t, j\<lparr>source := r\<rparr>))
             else if c = CHR ''n'' then literal ''ull'' JSON_NULL j
             else if c = CHR ''f'' then literal ''alse'' JSON_FALSE j
             else if c = CHR ''t'' then literal ''rue'' JSON_TRUE j
             else if is_digit_char c \<or> c = CHR ''-'' then
               (case read_number c (source j) of (t, r, flag) \<Rightarrow>
                  (case t of None \<Rightarrow> JSON_ERROR | Some ds \<Rightarrow> JSON_NUMBER (num ds),
                   j\<lparr>source := r, error_flag := flag\<rparr>))
             else fail_with j)"

section \<open>The next event\<close>

definition json_isspace :: "char \<Rightarrow> bool" where
  "json_isspace c = (c \<in> {CHR 0x09, CHR 0x0A, CHR 0x0D, CHR 0x20})"

text \<open>The next character that is not white space, None at the end of the source.\<close>

definition next_char :: "json_stream \<Rightarrow> char option \<times> json_stream" where
  "next_char j =
     (case dropWhile json_isspace (source j) of
        [] \<Rightarrow> (None, j\<lparr>source := []\<rparr>)
      | c # r \<Rightarrow> (Some c, j\<lparr>source := r\<rparr>))"

definition count_up :: "json_stream \<Rightarrow> json_stream" where
  "count_up j = (case stack j of [] \<Rightarrow> j | (k, n) # st \<Rightarrow> j\<lparr>stack := (k, n + 1) # st\<rparr>)"

definition is_string_event :: "json_event \<Rightarrow> bool" where
  "is_string_event e = (case e of JSON_STRING s \<Rightarrow> True | _ \<Rightarrow> False)"

text \<open>A property name: anything but a string is an error.\<close>

definition read_name :: "(string \<Rightarrow> int) \<Rightarrow> char option \<Rightarrow> json_stream \<Rightarrow> json_event \<times> json_stream" where
  "read_name num c j =
     (case read_value num c j of (e, j') \<Rightarrow>
        if is_string_event e then (e, count_up j') else fail_with j')"

definition next_in :: "(string \<Rightarrow> int) \<Rightarrow> container \<Rightarrow> nat \<Rightarrow> char option \<Rightarrow> json_stream \<Rightarrow> json_event \<times> json_stream" where
  "next_in num k count c j =
     (case k of
        In_Array \<Rightarrow>
          if count = 0 then
            (if c = Some CHR '']'' then pop In_Array j else read_value num c (count_up j))
          else if c = Some CHR '','' then
            (case next_char (count_up j) of (c', j') \<Rightarrow> read_value num c' j')
          else if c = Some CHR '']'' then pop In_Array j
          else fail_with j
      | In_Object \<Rightarrow>
          if count = 0 then
            (if c = Some CHR ''}'' then pop In_Object j else read_name num c j)
          else if count mod 2 = 0 then
            (if c \<noteq> Some CHR '','' \<and> c \<noteq> Some CHR ''}'' then fail_with j
             else if c = Some CHR ''}'' then pop In_Object j
             else (case next_char j of (c', j') \<Rightarrow> read_name num c' j'))
          else
            (if c \<noteq> Some CHR '':'' then fail_with j
             else (case next_char (count_up j) of (c', j') \<Rightarrow> read_value num c' j')))"

definition json_next :: "(string \<Rightarrow> int) \<Rightarrow> json_stream \<Rightarrow> json_event \<times> json_stream" where
  "json_next num j =
     (if error_flag j then (JSON_ERROR, j)
      else if ntokens j > 0 \<and> stack j = [] then
        (JSON_DONE, j\<lparr>source := dropWhile json_isspace (source j)\<rparr>)
      else
        (case next_char j of (c, j') \<Rightarrow>
           (case stack j' of
              [] \<Rightarrow> read_value num c j'
            | (k, count) # st \<Rightarrow> next_in num k count c j')))"

section \<open>The end of the events\<close>

definition final :: "json_event \<Rightarrow> bool" where
  "final e = (e = JSON_DONE \<or> e = JSON_ERROR)"

lemma final_simps [simp]:
  "final JSON_DONE" "final JSON_ERROR" "\<not> final JSON_OBJECT" "\<not> final JSON_OBJECT_END" "\<not> final JSON_ARRAY"
  "\<not> final JSON_ARRAY_END" "\<not> final (JSON_STRING s)" "\<not> final (JSON_NUMBER n)" "\<not> final JSON_TRUE"
  "\<not> final JSON_FALSE" "\<not> final JSON_NULL"
  by (simp_all add: final_def)

lemma next_char_shorter:
  "next_char j = (Some c, j') \<Longrightarrow> length (source j') < length (source j)"
  "next_char j = (None, j') \<Longrightarrow> source j' = []"
  using length_dropWhile_le [of json_isspace "source j"]
  by (auto simp: next_char_def split: list.splits)

lemma next_char_not_longer: "next_char j = (c, j') \<Longrightarrow> length (source j') \<le> length (source j)"
  by (cases c) (auto dest: next_char_shorter)

lemma read_string_shorter: "read_string acc s = Some (t, r) \<Longrightarrow> length r \<le> length s"
proof (induction acc s rule: read_string.induct)
  case (2 acc c s)
  show ?case
  proof (cases "c = CHR 0x22")
    case True
    with 2(4) show ?thesis by (simp add: read_string.simps)
  next
    case F1: False
    show ?thesis
    proof (cases "c = CHR 0x5C")
      case True
      with F1 2(4) obtain u r' where e: "read_escaped s = Some (u, r')" "read_string (acc @ u) r' = Some (t, r)"
        by (auto simp: read_string.simps split: option.splits)
      from 2(1) [OF F1 True e(1) refl e(2)] read_escaped_shorter [OF e(1)] show ?thesis by simp
    next
      case F2: False
      show ?thesis
      proof (cases "128 \<le> (of_char c :: nat)")
        case True
        with F1 F2 2(4) obtain u r' where e: "read_utf8 c s = Some (u, r')" "read_string (acc @ u) r' = Some (t, r)"
          by (auto simp: read_string.simps split: option.splits)
        from 2(2) [OF F1 F2 True e(1) refl e(2)] read_utf8_not_longer [OF e(1)] show ?thesis by simp
      next
        case False
        with F1 F2 2(4) have "\<not> char_needs_escaping c" "read_string (acc @ [c]) s = Some (t, r)"
          by (auto simp: read_string.simps split: if_splits)
        from 2(3) [OF F1 F2 False this] show ?thesis by simp
      qed
    qed
  qed
qed (simp add: read_string.simps)

lemma read_digits_shorter: "length (snd (read_digits s)) \<le> length s"
  by (simp add: read_digits_def length_dropWhile_le)

lemma read_exponent_shorter: "read_exponent acc s f = (t, r, g) \<Longrightarrow> length r \<le> length s"
  using read_digits_shorter
  by (auto simp: read_exponent_def read_digits_def length_dropWhile_le le_SucI split: list.splits if_splits
      intro: le_trans [OF length_dropWhile_le])

lemma read_fraction_shorter: "read_fraction acc s f = (t, r, g) \<Longrightarrow> length r \<le> length s"
  by (auto simp: read_fraction_def read_digits_def split: list.splits if_splits
      dest!: read_exponent_shorter intro: le_trans [OF _ length_dropWhile_le] le_SucI
      intro!: le_SucI [OF length_dropWhile_le] elim!: le_trans)

lemma read_number_shorter: "read_number c s = (t, r, g) \<Longrightarrow> length r \<le> length s"
  by (auto simp: read_number_def read_unsigned_def read_digits_def split: list.splits if_splits
      dest!: read_fraction_shorter intro: le_trans [OF _ length_dropWhile_le] le_SucI)

lemma is_match_shorter: "is_match p s = (b, r) \<Longrightarrow> length r \<le> length s"
  by (induction p s rule: is_match.induct) (auto split: if_splits)

lemma count_up_frame [simp]:
  "source (count_up j) = source j" "ntokens (count_up j) = ntokens j" "error_flag (count_up j) = error_flag j"
  by (auto simp: count_up_def split: list.splits)

text \<open>Each reading leaves at most what it was given, and at the end of the source there is an error.\<close>

lemma source_simps [simp]:
  "source (snd (fail_with j)) = source j" "fst (fail_with j) = JSON_ERROR"
  "source (push k j) = source j"
  by (simp_all add: fail_with_def push_def)

lemma pop_source [simp]: "source (snd (pop k j)) = source j"
  by (simp add: pop_def split: list.split)

lemma literal_shorter [simp]: "length (source (snd (literal p e j))) \<le> length (source j)"
  using is_match_shorter [of p "source j"] by (simp add: literal_def split: prod.split)

lemma read_value_shorter: "length (source (snd (read_value num c j))) \<le> length (source j)"
proof (cases c)
  case (Some d)
  show ?thesis
    using read_string_shorter [of "[]" "source j"] read_number_shorter [of d "source j"]
      literal_shorter [of _ _ "j\<lparr>ntokens := Suc (ntokens j)\<rparr>"]
    by (simp add: read_value_def Let_def Some split: option.split prod.split)
qed (simp add: read_value_def Let_def)

lemma read_value_None: "fst (read_value num None j) = JSON_ERROR"
  by (simp add: read_value_def Let_def)

lemma read_name_shorter:
  "length (source (snd (read_name num c j))) \<le> length (source j)"
  "fst (read_name num None j) = JSON_ERROR"
  using read_value_shorter [of num c j] read_value_None [of num j]
  by (auto simp: read_name_def split: prod.split)

lemma next_value_shorter:
  "length (source (snd (case next_char j of (c', j') \<Rightarrow> read_value num c' j'))) \<le> length (source j)"
  "length (source (snd (case next_char j of (c', j') \<Rightarrow> read_name num c' j'))) \<le> length (source j)"
  using next_char_not_longer [of j]
  by (auto split: prod.split intro: le_trans [OF read_value_shorter] le_trans [OF read_name_shorter(1)])

lemma next_in_shorter: "length (source (snd (next_in num k n c j))) \<le> length (source j)"
proof -
  have 1: "length (source (snd (read_value num c (count_up j)))) \<le> length (source j)"
    using read_value_shorter [of num c "count_up j"] by simp
  have 2: "length (source (snd (case next_char (count_up j) of (c', j') \<Rightarrow> read_value num c' j'))) \<le> length (source j)"
    using next_value_shorter(1) [where j = "count_up j" and num = num] by simp
  note 3 = read_name_shorter(1) [of num c j] next_value_shorter(2) [where j = j and num = num]
  show ?thesis
    by (cases k) (auto simp only: next_in_def container.case source_simps pop_source 1 2 3 order_refl
        split: if_split)
qed

lemma next_in_None: "fst (next_in num k n None j) = JSON_ERROR"
  by (cases k) (simp_all add: next_in_def read_value_None read_name_shorter(2))

lemma json_next_shorter:
  assumes "json_next num j = (e, j')" "\<not> final e"
  shows "length (source j') < length (source j)"
proof -
  obtain c j1 where n: "next_char j = (c, j1)" by fastforce
  have "length (source j') \<le> length (source j1) \<and> c \<noteq> None"
  proof (cases "stack j1")
    case Nil
    with assms n show ?thesis
      using read_value_shorter [of num c j1] read_value_None [of num j1]
      by (cases c) (auto simp: json_next_def split: if_splits)
  next
    case (Cons p st)
    obtain k m where "p = (k, m)" by fastforce
    with Cons assms n show ?thesis
      using next_in_shorter [of num k m c j1] next_in_None [of num k m j1]
      by (cases c) (auto simp: json_next_def split: if_splits)
  qed
  with n show ?thesis by (auto dest: next_char_shorter)
qed

text \<open>All events up to the end of the value or the first error, as the loops of the firmware take them.\<close>

function json_run :: "(string \<Rightarrow> int) \<Rightarrow> json_stream \<Rightarrow> json_event list" where
  "json_run num j =
     (case json_next num j of (e, j') \<Rightarrow> if final e then [e] else e # json_run num j')"
  by pat_completeness auto
termination
  by (relation "measure (\<lambda>(num, j). length (source j))") (auto dest: json_next_shorter [OF sym])

declare json_run.simps [simp del]

definition json_events :: "(string \<Rightarrow> int) \<Rightarrow> string \<Rightarrow> json_event list" where
  "json_events num s = json_run num (json_open_string s)"

end
