(* ===== verification/PdjsonHelper.thy ===== *)
theory PdjsonHelper
  imports Pdjson
begin

text \<open>
  \<open>src/firmware/main/util/pdjson_helper.c\<close>: pairing of keys and scalar values in a stream
  of JSON events, those of the theory Pdjson; a string event carries the
  decoded characters, of which a C reader sees those before the first NUL, and whose length
  as the library reports it counts the terminating NUL; a number is carried as the integer
  that its users convert it to.
\<close>

datatype pdjson_value =
    PDJSON_HELPER_NULL
  | PDJSON_HELPER_STRING string
  | PDJSON_HELPER_BOOL bool
  | PDJSON_HELPER_NUMBER int

text \<open>The state of the helper is its current key; \<open>max_key_length\<close> is always 256.\<close>

definition max_key_length :: nat where
  "max_key_length = 256"

definition pdjson_helper_init :: "string option" where
  "pdjson_helper_init = None"

definition pdjson_helper_reset :: "string option \<Rightarrow> string option" where
  "pdjson_helper_reset current_key = None"

text \<open>One event: the new key, and the call of the callback with a key and a value.\<close>

definition pdjson_helper_next ::
  "string option \<Rightarrow> json_event \<Rightarrow> string option \<times> (string \<times> pdjson_value) option" where
  "pdjson_helper_next current_key found_type =
     (case found_type of
        JSON_NUMBER n \<Rightarrow>
          (case current_key of
             None \<Rightarrow> (None, None)
           | Some k \<Rightarrow> (None, Some (k, PDJSON_HELPER_NUMBER n)))
      | JSON_STRING s \<Rightarrow>
          (case current_key of
             None \<Rightarrow> (if length s + 1 < max_key_length then (Some (cstr s), None) else (None, None))
           | Some k \<Rightarrow> (None, Some (k, PDJSON_HELPER_STRING (cstr s))))
      | JSON_TRUE \<Rightarrow>
          (case current_key of
             None \<Rightarrow> (None, None)
           | Some k \<Rightarrow> (None, Some (k, PDJSON_HELPER_BOOL True)))
      | JSON_FALSE \<Rightarrow>
          (case current_key of
             None \<Rightarrow> (None, None)
           | Some k \<Rightarrow> (None, Some (k, PDJSON_HELPER_BOOL False)))
      | JSON_NULL \<Rightarrow>
          (case current_key of
             None \<Rightarrow> (None, None)
           | Some k \<Rightarrow> (None, Some (k, PDJSON_HELPER_NULL)))
      | _ \<Rightarrow> (current_key, None))"

text \<open>The callbacks of a run of events.\<close>

fun helper_run :: "string option \<Rightarrow> json_event list \<Rightarrow> (string \<times> pdjson_value) list" where
  "helper_run k [] = []"
| "helper_run k (e # es) =
     (case pdjson_helper_next k e of (k', out) \<Rightarrow>
        (case out of None \<Rightarrow> [] | Some p \<Rightarrow> [p]) @ helper_run k' es)"

fun value_event :: "pdjson_value \<Rightarrow> json_event" where
  "value_event PDJSON_HELPER_NULL = JSON_NULL"
| "value_event (PDJSON_HELPER_STRING s) = JSON_STRING s"
| "value_event (PDJSON_HELPER_BOOL b) = (if b then JSON_TRUE else JSON_FALSE)"
| "value_event (PDJSON_HELPER_NUMBER n) = JSON_NUMBER n"

definition pair_ok :: "string \<times> pdjson_value \<Rightarrow> bool" where
  "pair_ok p = (is_cstr (fst p) \<and> length (fst p) < 255 \<and>
     (\<forall>s. snd p = PDJSON_HELPER_STRING s \<longrightarrow> is_cstr s))"

definition pair_events :: "(string \<times> pdjson_value) list \<Rightarrow> json_event list" where
  "pair_events ps = concat (map (\<lambda>(k, v). [JSON_STRING k, value_event v]) ps)"

lemma helper_run_pair:
  "pair_ok (k, v) \<Longrightarrow> helper_run None (JSON_STRING k # value_event v # es) = (k, v) # helper_run None es"
  by (cases v) (auto simp: pair_ok_def pdjson_helper_next_def max_key_length_def)

text \<open>
  On the scalar members of an object whose keys have fewer than 255 characters the
  helper reports exactly the members, in order, with their values; a longer key would be
  dropped and its value taken for a key.
\<close>

theorem helper_members:
  assumes "list_all pair_ok ps"
  shows "helper_run pdjson_helper_init (pair_events ps) = ps \<and>
         (\<forall>k v es. 255 \<le> length k \<longrightarrow>
            helper_run None (JSON_STRING k # JSON_STRING v # es) = helper_run None (JSON_STRING v # es))"
proof
  show "helper_run pdjson_helper_init (pair_events ps) = ps"
    using assms
    by (induction ps) (auto simp: pdjson_helper_init_def pair_events_def helper_run_pair
        simp del: helper_run.simps(2))
qed (simp add: pdjson_helper_next_def max_key_length_def)

theorem helper_members_witness:
  "helper_run pdjson_helper_init
     (pair_events [(''type'', PDJSON_HELPER_STRING ''background''), (''media_item_id'', PDJSON_HELPER_NUMBER 7)]) =
     [(''type'', PDJSON_HELPER_STRING ''background''), (''media_item_id'', PDJSON_HELPER_NUMBER 7)]"
  using helper_members
      [of "[(''type'', PDJSON_HELPER_STRING ''background''), (''media_item_id'', PDJSON_HELPER_NUMBER 7)]"]
  by (simp add: pair_ok_def)

end
