(* ===== verification/Traverse.thy ===== *)
theory Traverse
  imports Prelude Strings Datetime Track PdjsonHelper
begin

text \<open>
  \<open>src/firmware/main/playlist/cloud/traverse.c\<close>: the walk over the JSON text of a playlist
  that collects the fields of each track and calls back when the track is complete. The
  parser context is a record, its one-bit flags Booleans; the events come as a list, whose
  end is \<open>JSON_DONE\<close>. A step is None when it would free or read through a pointer that
  was never set.
\<close>

record ParserContext_t =
  track :: Track_t
  found_filename :: bool
  found_id :: bool
  found_type :: bool
  found_intervals :: bool
  searching_intervals :: bool
  searching_schedule :: bool

definition context_zero :: ParserContext_t where
  "context_zero =
     \<lparr>track = \<lparr>filename = NULL, track_id = 0, track_type = TRACK_BACKGROUND, date_intervals = NULL,
        date_intervals_size = 0\<rparr>,
      found_filename = False, found_id = False, found_type = False, found_intervals = False,
      searching_intervals = False, searching_schedule = False\<rparr>"

definition clear_found :: "ParserContext_t \<Rightarrow> ParserContext_t" where
  "clear_found c = c\<lparr>found_filename := False, found_id := False, found_type := False,
     found_intervals := False\<rparr>"

definition free_track :: "ParserContext_t \<Rightarrow> ParserContext_t option" where
  "free_track c = map_option (\<lambda>t. c\<lparr>track := t\<rparr>) (track_free (track c))"

definition track_ready :: "ParserContext_t \<Rightarrow> bool" where
  "track_ready c =
     (found_id c \<and> found_filename c \<and> found_type c \<and>
      (track_type (track c) = TRACK_BACKGROUND \<or>
       (track_type (track c) = TRACK_ADVERTISING \<and> found_intervals c)))"

definition fresh_interval :: DateInterval_t where
  "fresh_interval = \<lparr>begin_date = None, end_date = None, schedule_seconds = NULL,
     schedule_seconds_size = 0\<rparr>"

definition add_interval :: "Track_t \<Rightarrow> Track_t" where
  "add_interval t = t\<lparr>date_intervals_size := date_intervals_size t + 1,
     date_intervals := Ptr (ptr_list (date_intervals t) @ [fresh_interval])\<rparr>"

text \<open>Changing the interval at the last index, if there is one.\<close>

definition map_last :: "('a \<Rightarrow> 'a) \<Rightarrow> 'a list \<Rightarrow> 'a list" where
  "map_last f xs = (if xs = [] then [] else butlast xs @ [f (last xs)])"

definition on_last_interval :: "(DateInterval_t \<Rightarrow> DateInterval_t) \<Rightarrow> Track_t \<Rightarrow> Track_t" where
  "on_last_interval f t =
     (case date_intervals t of
        Ptr ivs \<Rightarrow> if date_intervals_size t > 0 then t\<lparr>date_intervals := Ptr (map_last f ivs)\<rparr> else t
      | _ \<Rightarrow> t)"

definition add_second :: "string \<Rightarrow> DateInterval_t \<Rightarrow> DateInterval_t" where
  "add_second s i =
     (let val = datetime_string_to_seconds_int (Some s)
      in i\<lparr>schedule_seconds_size := schedule_seconds_size i + 1,
           schedule_seconds := Ptr (ptr_list (schedule_seconds i) @ [if val \<ge> 0 then val else 0])\<rparr>)"

definition on_parse :: "string \<Rightarrow> pdjson_value \<Rightarrow> ParserContext_t \<Rightarrow> ParserContext_t" where
  "on_parse key value c0 =
     (let c = (case value of
            PDJSON_HELPER_STRING s \<Rightarrow>
              if key = ''filename'' then
                c0\<lparr>track := (track c0)\<lparr>filename := Ptr s\<rparr>, found_filename := True\<rparr>
              else if key = ''type'' then
                (if s = ''background'' then
                   c0\<lparr>track := (track c0)\<lparr>track_type := TRACK_BACKGROUND\<rparr>, found_type := True\<rparr>
                 else if s = ''advertising'' then
                   c0\<lparr>track := (track c0)\<lparr>track_type := TRACK_ADVERTISING\<rparr>, found_type := True\<rparr>
                 else c0)
              else c0
          | PDJSON_HELPER_NUMBER n \<Rightarrow>
              if key = ''media_item_id'' then
                c0\<lparr>track := (track c0)\<lparr>track_id := n\<rparr>, found_id := True\<rparr>
              else c0
          | _ \<Rightarrow> c0)
      in if searching_intervals c then
           (case value of
              PDJSON_HELPER_STRING s \<Rightarrow>
                (let d = datetime_date_string_to_date_int (Some s)
                 in if key = ''begin'' then
                      (if d > 0 then c\<lparr>track := on_last_interval (\<lambda>i. i\<lparr>begin_date := Some d\<rparr>) (track c)\<rparr> else c)
                    else if key = ''end'' then
                      (if d > 0 then c\<lparr>track := on_last_interval (\<lambda>i. i\<lparr>end_date := Some d\<rparr>) (track c)\<rparr> else c)
                    else c)
            | _ \<Rightarrow> c)
         else c)"

section \<open>One event\<close>

text \<open>The loop's variables: the context, the helper's key, \<open>ok\<close> (\<open>json_ok\<close> here), \<open>callback_was_called\<close>.\<close>

record loop_state =
  parser :: ParserContext_t
  key :: "string option"
  json_ok :: bool
  callback_was_called :: bool

definition to_helper :: "json_event \<Rightarrow> loop_state \<Rightarrow> loop_state" where
  "to_helper t st =
     (case pdjson_helper_next (key st) t of
        (k, None) \<Rightarrow> st\<lparr>key := k\<rparr>
      | (k, Some (name, v)) \<Rightarrow> st\<lparr>key := k, parser := on_parse name v (parser st)\<rparr>)"

definition json_step :: "json_event \<Rightarrow> loop_state \<Rightarrow> loop_state option" where
  "json_step t st =
     (let c = parser st in
      case t of
        JSON_ERROR \<Rightarrow> Some (st\<lparr>json_ok := False\<rparr>)
      | JSON_OBJECT \<Rightarrow>
          Some (st\<lparr>parser := (if searching_intervals c then c\<lparr>track := add_interval (track c)\<rparr> else c),
                   key := None\<rparr>)
      | JSON_OBJECT_END \<Rightarrow>
          if callback_was_called st then
            map_option (\<lambda>c'. st\<lparr>callback_was_called := False, parser := c', key := None\<rparr>)
              (free_track (clear_found c))
          else Some (st\<lparr>key := None\<rparr>)
      | JSON_ARRAY \<Rightarrow> Some (st\<lparr>key := None\<rparr>)
      | JSON_ARRAY_END \<Rightarrow>
          Some (st\<lparr>key := None, parser :=
            (if searching_schedule c then c\<lparr>searching_schedule := False\<rparr>
             else if searching_intervals c then c\<lparr>searching_intervals := False, found_intervals := True\<rparr>
             else c)\<rparr>)
      | JSON_STRING str \<Rightarrow>
          (let s = cstr str in
           if searching_schedule c then
             Some (st\<lparr>parser := c\<lparr>track := on_last_interval (add_second s) (track c)\<rparr>\<rparr>)
           else if s = ''schedule_intervals'' then Some (st\<lparr>parser := c\<lparr>searching_intervals := True\<rparr>\<rparr>)
           else if s = ''schedule'' then Some (st\<lparr>parser := c\<lparr>searching_schedule := True\<rparr>\<rparr>)
           else Some (to_helper t st))
      | _ \<Rightarrow> Some (to_helper t st))"

section \<open>The loop\<close>

text \<open>
  The callback acts on a state of its caller and says whether to go on. The result is
  \<open>ok\<close> and that state.
\<close>

definition finish :: "loop_state \<Rightarrow> 's \<Rightarrow> (bool \<times> 's) option" where
  "finish st s = map_option (\<lambda>_. (json_ok st, s)) (free_track (parser st))"

fun traverse_loop ::
  "(Track_t \<Rightarrow> 's \<Rightarrow> bool \<times> 's) \<Rightarrow> json_event list \<Rightarrow> loop_state \<Rightarrow> 's \<Rightarrow> (bool \<times> 's) option" where
  "traverse_loop callback [] st s = finish st s"
| "traverse_loop callback (t # ts) st s =
     (case json_step t st of
        None \<Rightarrow> None
      | Some st1 \<Rightarrow>
          if \<not> callback_was_called st1 \<and> json_ok st1 \<and> track_ready (parser st1) then
            (case callback (track (parser st1)) s of (contin, s') \<Rightarrow>
              (case free_track (clear_found (parser st1)) of
                 None \<Rightarrow> None
               | Some c \<Rightarrow>
                   let st2 = st1\<lparr>parser := c, callback_was_called := True\<rparr>
                   in if \<not> contin then finish st2 s'
                      else if t = JSON_DONE \<or> t = JSON_ERROR then finish st2 s'
                      else traverse_loop callback ts st2 s'))
          else if t = JSON_DONE \<or> t = JSON_ERROR then finish st1 s
          else traverse_loop callback ts st1 s)"

definition loop_zero :: loop_state where
  "loop_zero = \<lparr>parser = context_zero, key = pdjson_helper_init, json_ok = True,
     callback_was_called = False\<rparr>"

definition traverse_playlist ::
  "(Track_t \<Rightarrow> 's \<Rightarrow> bool \<times> 's) option \<Rightarrow> json_event list \<Rightarrow> 's \<Rightarrow> (bool \<times> 's) option" where
  "traverse_playlist callback playlist s =
     (case callback of
        None \<Rightarrow> Some (False, s)
      | Some cb \<Rightarrow> traverse_loop cb playlist loop_zero s)"

section \<open>Playlists\<close>

text \<open>The entries of a playlist, and the JSON text of one in the order that it lists the members.\<close>

datatype playlist_entry =
    Background string string int
  | Advert string string int "(string \<times> string \<times> string list) list"

definition interval_events :: "string \<times> string \<times> string list \<Rightarrow> json_event list" where
  "interval_events i = (case i of (b, e, ss) \<Rightarrow>
     [JSON_OBJECT, JSON_STRING ''begin'', JSON_STRING b, JSON_STRING ''end'', JSON_STRING e,
      JSON_STRING ''schedule'', JSON_ARRAY] @ map JSON_STRING ss @ [JSON_ARRAY_END, JSON_OBJECT_END])"

fun entry_events :: "playlist_entry \<Rightarrow> json_event list" where
  "entry_events (Background u f n) =
     [JSON_OBJECT, JSON_STRING ''url'', JSON_STRING u, JSON_STRING ''filename'', JSON_STRING f,
      JSON_STRING ''media_item_id'', JSON_NUMBER n, JSON_STRING ''type'', JSON_STRING ''background'',
      JSON_OBJECT_END]"
| "entry_events (Advert u f n ivs) =
     [JSON_OBJECT, JSON_STRING ''url'', JSON_STRING u, JSON_STRING ''filename'', JSON_STRING f,
      JSON_STRING ''media_item_id'', JSON_NUMBER n, JSON_STRING ''type'', JSON_STRING ''advertising'',
      JSON_STRING ''schedule_intervals'', JSON_ARRAY] @ concat (map interval_events ivs) @
     [JSON_ARRAY_END, JSON_OBJECT_END]"

definition date_opt :: "string \<Rightarrow> int option" where
  "date_opt s = (let d = datetime_date_string_to_date_int (Some s) in if d > 0 then Some d else None)"

definition second_of :: "string \<Rightarrow> int" where
  "second_of s = (let v = datetime_string_to_seconds_int (Some s) in if v \<ge> 0 then v else 0)"

fun list_ptr :: "'a list \<Rightarrow> 'a list cptr" where
  "list_ptr [] = NULL"
| "list_ptr (x # xs) = Ptr (x # xs)"

definition interval_of :: "string \<times> string \<times> string list \<Rightarrow> DateInterval_t" where
  "interval_of i = (case i of (b, e, ss) \<Rightarrow>
     \<lparr>begin_date = date_opt b, end_date = date_opt e,
      schedule_seconds = list_ptr (map second_of ss), schedule_seconds_size = length ss\<rparr>)"

fun track_of :: "playlist_entry \<Rightarrow> Track_t" where
  "track_of (Background u f n) = \<lparr>filename = Ptr f, track_id = n, track_type = TRACK_BACKGROUND,
     date_intervals = NULL, date_intervals_size = 0\<rparr>"
| "track_of (Advert u f n ivs) = \<lparr>filename = Ptr f, track_id = n, track_type = TRACK_ADVERTISING,
     date_intervals = list_ptr (map interval_of ivs), date_intervals_size = length ivs\<rparr>"

definition plain :: "string \<Rightarrow> bool" where
  "plain s = (is_cstr s \<and> s \<noteq> ''schedule_intervals'' \<and> s \<noteq> ''schedule'')"

fun plain_entry :: "playlist_entry \<Rightarrow> bool" where
  "plain_entry (Background u f n) = (plain u \<and> plain f)"
| "plain_entry (Advert u f n ivs) =
     (plain u \<and> plain f \<and> list_all (\<lambda>(b, e, ss). plain b \<and> plain e \<and> list_all is_cstr ss) ivs)"

text \<open>The state between two tracks.\<close>

definition between :: "int \<Rightarrow> TrackType_t \<Rightarrow> loop_state" where
  "between n ty = \<lparr>parser = \<lparr>track = \<lparr>filename = NULL, track_id = n, track_type = ty,
       date_intervals = NULL, date_intervals_size = 0\<rparr>,
     found_filename = False, found_id = False, found_type = False, found_intervals = False,
     searching_intervals = False, searching_schedule = False\<rparr>,
     key = None, json_ok = True, callback_was_called = False\<rparr>"

text \<open>The state within the intervals of an advertising track.\<close>

definition advert_state :: "string \<Rightarrow> int \<Rightarrow> DateInterval_t list \<Rightarrow> bool \<Rightarrow> string option \<Rightarrow> loop_state" where
  "advert_state f n ivs sched k = \<lparr>parser = \<lparr>track = \<lparr>filename = Ptr f, track_id = n,
       track_type = TRACK_ADVERTISING, date_intervals = list_ptr ivs, date_intervals_size = length ivs\<rparr>,
     found_filename = True, found_id = True, found_type = True, found_intervals = False,
     searching_intervals = True, searching_schedule = sched\<rparr>,
     key = k, json_ok = True, callback_was_called = False\<rparr>"

lemmas step_simps = json_step_def to_helper_def pdjson_helper_next_def on_parse_def max_key_length_def
  free_track_def clear_found_def track_ready_def Let_def

lemma list_ptr_snoc [simp]: "list_ptr (xs @ [x]) = Ptr (xs @ [x])"
  by (cases xs) auto

lemma ptr_list_list_ptr [simp]: "ptr_list (list_ptr xs) = xs"
  by (cases xs) (auto simp: ptr_list_def)

lemma map_last_snoc [simp]: "map_last f (xs @ [x]) = xs @ [f x]"
  by (simp add: map_last_def)

lemma on_last_snoc [simp]:
  "on_last_interval f \<lparr>filename = fn, track_id = n, track_type = ty,
      date_intervals = Ptr (ivs @ [i]), date_intervals_size = Suc m\<rparr> =
   \<lparr>filename = fn, track_id = n, track_type = ty,
      date_intervals = Ptr (ivs @ [f i]), date_intervals_size = Suc m\<rparr>"
  by (simp add: on_last_interval_def)

lemma plain_cstr: "plain s \<Longrightarrow> cstr s = s \<and> s \<noteq> ''schedule_intervals'' \<and> s \<noteq> ''schedule''"
  by (simp add: plain_def)

text \<open>The events inside the intervals of an advertising track, one by one.\<close>

lemma adv_object:
  "traverse_loop cb (JSON_OBJECT # r) (advert_state f n ivs False k) s =
   traverse_loop cb r (advert_state f n (ivs @ [fresh_interval]) False None) s"
  by (simp add: advert_state_def json_step_def track_ready_def add_interval_def)

lemma adv_close:
  "traverse_loop cb (JSON_OBJECT_END # r) (advert_state f n ivs b k) s =
   traverse_loop cb r (advert_state f n ivs b None) s"
  "traverse_loop cb (JSON_ARRAY # r) (advert_state f n ivs b k) s =
   traverse_loop cb r (advert_state f n ivs b None) s"
  "traverse_loop cb (JSON_ARRAY_END # r) (advert_state f n ivs True k) s =
   traverse_loop cb r (advert_state f n ivs False None) s"
  by (simp_all add: advert_state_def json_step_def track_ready_def)

lemma adv_key:
  "plain w \<Longrightarrow> length w < 255 \<Longrightarrow>
   traverse_loop cb (JSON_STRING w # r) (advert_state f n ivs False None) s =
   traverse_loop cb r (advert_state f n ivs False (Some w)) s"
  by (simp add: advert_state_def json_step_def track_ready_def to_helper_def
      pdjson_helper_next_def max_key_length_def plain_cstr)

lemma adv_schedule_key:
  "traverse_loop cb (JSON_STRING ''schedule'' # r) (advert_state f n ivs False k) s =
   traverse_loop cb r (advert_state f n ivs True k) s"
  by (simp add: advert_state_def json_step_def track_ready_def)

lemma none_update:
  "begin_date i = None \<Longrightarrow> i\<lparr>begin_date := None\<rparr> = i"
  "end_date i = None \<Longrightarrow> i\<lparr>end_date := None\<rparr> = i"
  by (cases i; simp)+

lemma adv_begin:
  "plain w \<Longrightarrow> begin_date i = None \<Longrightarrow>
   traverse_loop cb (JSON_STRING w # r) (advert_state f n (ivs @ [i]) False (Some ''begin'')) s =
   traverse_loop cb r (advert_state f n (ivs @ [i\<lparr>begin_date := date_opt w\<rparr>]) False None) s"
  by (simp add: advert_state_def json_step_def track_ready_def to_helper_def
      pdjson_helper_next_def on_parse_def date_opt_def Let_def plain_cstr none_update)

lemma adv_end:
  "plain w \<Longrightarrow> end_date i = None \<Longrightarrow>
   traverse_loop cb (JSON_STRING w # r) (advert_state f n (ivs @ [i]) False (Some ''end'')) s =
   traverse_loop cb r (advert_state f n (ivs @ [i\<lparr>end_date := date_opt w\<rparr>]) False None) s"
  by (simp add: advert_state_def json_step_def track_ready_def to_helper_def
      pdjson_helper_next_def on_parse_def date_opt_def Let_def plain_cstr none_update)

lemma advert_schedule:
  "list_all is_cstr ss \<Longrightarrow>
   traverse_loop cb (map JSON_STRING ss @ rest) (advert_state f n (ivs @ [i]) True None) s =
   traverse_loop cb rest (advert_state f n (ivs @ [fold add_second ss i]) True None) s"
  by (induction ss arbitrary: i) (simp_all add: advert_state_def json_step_def track_ready_def)

lemma fold_add_second:
  "fold add_second ss \<lparr>begin_date = b, end_date = e, schedule_seconds = list_ptr xs,
       schedule_seconds_size = length xs\<rparr> =
   \<lparr>begin_date = b, end_date = e, schedule_seconds = list_ptr (xs @ map second_of ss),
       schedule_seconds_size = length xs + length ss\<rparr>"
proof (induction ss arbitrary: xs)
  case (Cons s ss)
  have "add_second s \<lparr>begin_date = b, end_date = e, schedule_seconds = list_ptr xs,
       schedule_seconds_size = length xs\<rparr> =
     \<lparr>begin_date = b, end_date = e, schedule_seconds = list_ptr (xs @ [second_of s]),
       schedule_seconds_size = length (xs @ [second_of s])\<rparr>"
    by (simp add: add_second_def second_of_def Let_def)
  then show ?case using Cons.IH [of "xs @ [second_of s]"] by simp
qed simp

lemma advert_interval:
  assumes "plain b" "plain e" "list_all is_cstr ss"
  shows "traverse_loop cb (interval_events (b, e, ss) @ rest) (advert_state f n ivs False None) s =
         traverse_loop cb rest (advert_state f n (ivs @ [interval_of (b, e, ss)]) False None) s"
proof -
  let ?i = "\<lparr>begin_date = date_opt b, end_date = date_opt e, schedule_seconds = list_ptr [],
     schedule_seconds_size = length ([] :: int list)\<rparr>"
  have w: "plain ''begin''" "plain ''end''" by (simp_all add: plain_def)
  have "traverse_loop cb (interval_events (b, e, ss) @ rest) (advert_state f n ivs False None) s =
      traverse_loop cb (map JSON_STRING ss @ JSON_ARRAY_END # JSON_OBJECT_END # rest)
        (advert_state f n (ivs @ [?i]) True None) s"
    using assms w
    by (simp add: interval_events_def adv_object adv_close adv_key adv_schedule_key adv_begin adv_end
        fresh_interval_def del: traverse_loop.simps)
  also have "\<dots> = traverse_loop cb rest (advert_state f n (ivs @ [fold add_second ss ?i]) False None) s"
    by (simp only: advert_schedule [OF assms(3)] adv_close)
  also have "fold add_second ss ?i = interval_of (b, e, ss)"
    using fold_add_second [of ss "date_opt b" "date_opt e" "[]"] by (simp add: interval_of_def)
  finally show ?thesis .
qed

lemma advert_intervals:
  "list_all (\<lambda>(b, e, ss). plain b \<and> plain e \<and> list_all is_cstr ss) js \<Longrightarrow>
   traverse_loop cb (concat (map interval_events js) @ rest) (advert_state f n ivs False None) s =
   traverse_loop cb rest (advert_state f n (ivs @ map interval_of js) False None) s"
proof (induction js arbitrary: ivs)
  case (Cons i js)
  obtain b e ss where i: "i = (b, e, ss)" by (cases i)
  with Cons show ?case
    using advert_interval [of b e ss cb "concat (map interval_events js) @ rest" f n ivs s]
    by simp
qed simp

text \<open>A whole entry.\<close>

lemma entry_prefix:
  assumes "plain u" "plain f"
  shows "traverse_loop cb ([JSON_OBJECT, JSON_STRING ''url'', JSON_STRING u, JSON_STRING ''filename'',
      JSON_STRING f, JSON_STRING ''media_item_id'', JSON_NUMBER n, JSON_STRING ''type''] @ rest)
      (between m ty) s =
    traverse_loop cb rest ((between n ty)\<lparr>parser := (parser (between n ty))
      \<lparr>track := (track (parser (between n ty)))\<lparr>filename := Ptr f\<rparr>, found_filename := True,
       found_id := True\<rparr>, key := Some ''type''\<rparr>) s"
  using assms
  by (simp add: between_def json_step_def track_ready_def to_helper_def pdjson_helper_next_def
      on_parse_def max_key_length_def plain_cstr Let_def)

lemma background_entry:
  assumes "plain u" "plain f"
  shows "traverse_loop cb (entry_events (Background u f n) @ rest) (between m ty) s =
    (case cb (track_of (Background u f n)) s of (contin, s') \<Rightarrow>
       if contin then traverse_loop cb rest (between n TRACK_BACKGROUND) s' else Some (True, s'))"
  using entry_prefix [OF assms, of cb n "[JSON_STRING ''background'', JSON_OBJECT_END] @ rest" m ty s]
  by (auto simp: between_def json_step_def track_ready_def to_helper_def pdjson_helper_next_def
      on_parse_def plain_cstr Let_def free_track_def clear_found_def track_free_def free_null_def
      finish_def split: prod.splits)

lemma track_free_advert:
  "track_free (track_of (Advert u f n ivs)) = Some \<lparr>filename = NULL, track_id = n,
     track_type = TRACK_ADVERTISING, date_intervals = NULL, date_intervals_size = 0\<rparr>"
proof -
  have "schedule_seconds (interval_of i) \<noteq> Wild" for i
    by (cases i) (auto simp: interval_of_def split: list.splits elim: list_ptr.elims)
  then show ?thesis
    by (cases ivs) (auto simp: track_free_def free_null_def list_all_iff)
qed

lemma advert_entry:
  assumes "plain_entry (Advert u f n ivs)"
  shows "traverse_loop cb (entry_events (Advert u f n ivs) @ rest) (between m ty) s =
    (case cb (track_of (Advert u f n ivs)) s of (contin, s') \<Rightarrow>
       if contin then traverse_loop cb rest (between n TRACK_ADVERTISING) s' else Some (True, s'))"
proof -
  have p: "plain u" "plain f"
    "list_all (\<lambda>(b, e, ss). plain b \<and> plain e \<and> list_all is_cstr ss) ivs"
    using assms by simp_all
  let ?tail = "JSON_ARRAY_END # JSON_OBJECT_END # rest"
  have "traverse_loop cb (entry_events (Advert u f n ivs) @ rest) (between m ty) s =
      traverse_loop cb (concat (map interval_events ivs) @ ?tail) (advert_state f n [] False None) s"
    using entry_prefix [OF p(1,2), of cb n "[JSON_STRING ''advertising'',
        JSON_STRING ''schedule_intervals'', JSON_ARRAY] @ concat (map interval_events ivs) @ ?tail" m ty s]
    by (simp add: between_def advert_state_def json_step_def track_ready_def to_helper_def
        pdjson_helper_next_def on_parse_def Let_def)
  also have "\<dots> = traverse_loop cb ?tail (advert_state f n (map interval_of ivs) False None) s"
    using advert_intervals [OF p(3), of cb ?tail f n "[]" s] by simp
  also have "\<dots> = (case cb (track_of (Advert u f n ivs)) s of (contin, s') \<Rightarrow>
       if contin then traverse_loop cb rest (between n TRACK_ADVERTISING) s' else Some (True, s'))"
    using track_free_advert [of u f n ivs]
    by (auto simp: between_def advert_state_def json_step_def track_ready_def free_track_def
        clear_found_def finish_def track_free_def free_null_def Let_def split: prod.splits)
  finally show ?thesis .
qed

text \<open>The specification: the tracks one after the other until the callback has enough.\<close>

fun visit :: "(Track_t \<Rightarrow> 's \<Rightarrow> bool \<times> 's) \<Rightarrow> Track_t list \<Rightarrow> 's \<Rightarrow> 's" where
  "visit cb [] s = s"
| "visit cb (t # ts) s = (case cb t s of (contin, s') \<Rightarrow> if contin then visit cb ts s' else s')"

definition playlist_events :: "playlist_entry list \<Rightarrow> json_event list" where
  "playlist_events es = JSON_ARRAY # concat (map entry_events es) @ [JSON_ARRAY_END, JSON_DONE]"

text \<open>The same list as the only member of an object.\<close>

definition object_events :: "string \<Rightarrow> playlist_entry list \<Rightarrow> json_event list" where
  "object_events name es = JSON_OBJECT # JSON_STRING name # JSON_ARRAY #
     concat (map entry_events es) @ [JSON_ARRAY_END, JSON_OBJECT_END, JSON_DONE]"

lemma playlist_ends:
  "traverse_loop cb [JSON_ARRAY_END, JSON_DONE] (between m ty) s = Some (True, s)"
  "traverse_loop cb [JSON_ARRAY_END, JSON_OBJECT_END, JSON_DONE] (between m ty) s = Some (True, s)"
  by (simp_all add: between_def json_step_def track_ready_def to_helper_def pdjson_helper_next_def
      finish_def free_track_def track_free_def free_null_def)

lemma traverse_entries:
  "(\<And>m ty s. traverse_loop cb tail (between m ty) s = Some (True, s)) \<Longrightarrow> list_all plain_entry es \<Longrightarrow>
   traverse_loop cb (concat (map entry_events es) @ tail) (between m ty) s =
   Some (True, visit cb (map track_of es) s)"
proof (induction es arbitrary: m ty s)
  case Nil
  then show ?case by simp
next
  case (Cons e es)
  then show ?case
  proof (cases e)
    case (Background u f n)
    then show ?thesis
      using Cons background_entry [of u f cb n] by (auto split: prod.splits simp del: entry_events.simps)
  next
    case (Advert u f n ivs)
    then show ?thesis
      using Cons advert_entry [of u f n ivs cb] by (auto split: prod.splits simp del: entry_events.simps)
  qed
qed

definition collect :: "Track_t \<Rightarrow> Track_t list \<Rightarrow> bool \<times> Track_t list" where
  "collect t ts = (True, ts @ [t])"

lemma traverse_playlist_visit:
  assumes "list_all plain_entry es"
  shows "traverse_playlist (Some cb) (playlist_events es) s =
         Some (True, visit cb (map track_of es) s)"
proof -
  have "traverse_playlist (Some cb) (playlist_events es) s =
      traverse_loop cb (concat (map entry_events es) @ [JSON_ARRAY_END, JSON_DONE])
        (between 0 TRACK_BACKGROUND) s"
    by (simp add: traverse_playlist_def playlist_events_def loop_zero_def context_zero_def
        between_def json_step_def track_ready_def pdjson_helper_init_def)
  then show ?thesis using traverse_entries [OF playlist_ends(1) assms] by simp
qed

lemma traverse_object_visit:
  assumes "list_all plain_entry es" "plain name" "length name < 255"
  shows "traverse_playlist (Some cb) (object_events name es) s = Some (True, visit cb (map track_of es) s)"
proof -
  have "traverse_playlist (Some cb) (object_events name es) s =
      traverse_loop cb (concat (map entry_events es) @ [JSON_ARRAY_END, JSON_OBJECT_END, JSON_DONE])
        (between 0 TRACK_BACKGROUND) s"
    using assms(2,3)
    by (simp add: traverse_playlist_def object_events_def loop_zero_def context_zero_def to_helper_def plain_cstr
        pdjson_helper_next_def max_key_length_def between_def json_step_def track_ready_def pdjson_helper_init_def)
  then show ?thesis using traverse_entries [OF playlist_ends(2) assms(1)] by simp
qed

lemma visit_collect: "visit collect ts us = us @ ts"
  by (induction ts arbitrary: us) (auto simp: collect_def)


definition sample_playlist :: "playlist_entry list" where
  "sample_playlist =
     [Background ''/m/1'' ''song.mp3'' 4,
      Advert ''/m/2'' ''ad.mp3'' 5 [(''01.02.2019'', ''01.03.2019'', [''10:00:00'', ''11:30:00''])]]"


definition spoiled_playlist :: "string \<Rightarrow> int \<Rightarrow> string \<Rightarrow> string \<Rightarrow> string \<Rightarrow> string \<Rightarrow> int \<Rightarrow> string \<Rightarrow> json_event list" where
  "spoiled_playlist f n b e u g m w =
     [JSON_ARRAY, JSON_OBJECT, JSON_STRING ''filename'', JSON_STRING f,
      JSON_STRING ''media_item_id'', JSON_NUMBER n, JSON_STRING ''type'', JSON_STRING ''background'',
      JSON_STRING ''schedule_intervals'', JSON_ARRAY] @
     interval_events (b, e, []) @
     [JSON_ARRAY_END, JSON_OBJECT_END] @
     entry_events (Advert u g m [(b, e, [w])]) @
     [JSON_ARRAY_END, JSON_DONE]"

text \<open>
  A background track that carries date intervals spoils the advertising track after it.
  The walk calls back on the background track before it reaches its intervals, whose end then
  marks intervals as found; the next advertising track is handed over as soon as its type is
  read, without any of its own intervals.
\<close>

theorem background_intervals_spoil:
  assumes "plain f" "plain g" "plain u" "plain b" "plain e" "is_cstr w"
    and "0 < datetime_date_string_to_date_int (Some b)"
    and "0 < datetime_date_string_to_date_int (Some e)"
  shows "\<exists>t. traverse_playlist (Some collect) (spoiled_playlist f n b e u g m w) [] =
      Some (True, [track_of (Background u f n), t]) \<and>
    filename t = Ptr g \<and> track_type t = TRACK_ADVERTISING \<and> date_intervals t = NULL"
  using assms
  by (simp add: traverse_playlist_def spoiled_playlist_def loop_zero_def context_zero_def
      interval_events_def collect_def
      json_step_def track_ready_def pdjson_helper_init_def to_helper_def pdjson_helper_next_def
      on_parse_def max_key_length_def plain_cstr free_track_def clear_found_def track_free_def
      free_null_def add_interval_def ptr_list_def fresh_interval_def on_last_interval_def map_last_def
      add_second_def finish_def Let_def)

theorem background_intervals_spoil_witness:
  "\<exists>t. traverse_playlist (Some collect)
        (spoiled_playlist ''song.mp3'' 4 (show_civil (Civil 2019 2 1)) (show_civil (Civil 2019 3 1))
           ''/m/2'' ''ad.mp3'' 5 ''10:00:00'') [] =
      Some (True, [track_of (Background ''/m/2'' ''song.mp3'' 4), t]) \<and>
    filename t = Ptr ''ad.mp3'' \<and> track_type t = TRACK_ADVERTISING \<and> date_intervals t = NULL"
proof (rule background_intervals_spoil)
  show "plain (show_civil (Civil 2019 2 1))" "plain (show_civil (Civil 2019 3 1))"
    by code_simp+
  show "0 < datetime_date_string_to_date_int (Some (show_civil (Civil 2019 2 1)))"
    "0 < datetime_date_string_to_date_int (Some (show_civil (Civil 2019 3 1)))"
    by (simp_all add: date_int_show_civil valid_civil_def)
qed (simp_all add: plain_def)

end
