(* ===== verification/Advertising.thy ===== *)
theory Advertising
  imports Prelude Datetime Track PdjsonHelper Traverse StreamPlaylist
begin

text \<open>
  \<open>src/firmware/main/playlist/cloud/advertising.c\<close>: the table of the playlist's advertising
  tracks and the search for the one that is due in the current second. A slot of the table is
  an option. An interval date that the playlist did not give is indeterminate in the code;
  \<open>garbage\<close> says what memory held there.
\<close>

definition ADVERTISING_MAX_TRACKS :: nat where
  "ADVERTISING_MAX_TRACKS = 20"

type_synonym ads_table = "Track_t option list"

definition no_ads :: ads_table where
  "no_ads = replicate ADVERTISING_MAX_TRACKS None"

text \<open>Releasing the table: None when a track holds a pointer that was never set.\<close>

fun deinit :: "ads_table \<Rightarrow> ads_table option" where
  "deinit [] = Some []"
| "deinit (None # ads) = map_option ((#) None) (deinit ads)"
| "deinit (Some t # ads) =
     (case track_free t of None \<Rightarrow> None | Some _ \<Rightarrow> map_option ((#) None) (deinit ads))"

definition advertising_deinit :: "ads_table \<Rightarrow> ads_table option" where
  "advertising_deinit ads = deinit ads"

fun put_ad :: "Track_t \<Rightarrow> ads_table \<Rightarrow> ads_table" where
  "put_ad t [] = []"
| "put_ad t (None # ads) = snd (track_copy [] (Some wild_track) (Some t)) # ads"
| "put_ad t (Some u # ads) = Some u # put_ad t ads"

definition on_file_parse_callback :: "Track_t \<Rightarrow> ads_table \<Rightarrow> bool \<times> ads_table" where
  "on_file_parse_callback t ads =
     (if track_type t \<noteq> TRACK_ADVERTISING then (True, ads) else (True, put_ad t ads))"

text \<open>The playlist file is given by its JSON events, None when it cannot be opened.\<close>

definition advertising_init :: "json_event list option \<Rightarrow> ads_table \<Rightarrow> (bool \<times> ads_table) option" where
  "advertising_init f ads =
     (case deinit ads of
        None \<Rightarrow> None
      | Some ads0 \<Rightarrow>
        (case f of
           None \<Rightarrow> Some (False, ads0)
         | Some json \<Rightarrow>
             map_option (\<lambda>(_, ads1). (True, ads1)) (traverse_playlist (Some on_file_parse_callback) json ads0)))"

definition date_value :: "int \<Rightarrow> int option \<Rightarrow> int" where
  "date_value garbage d = (case d of Some v \<Rightarrow> v | None \<Rightarrow> garbage)"

definition interval_due :: "int \<Rightarrow> int \<Rightarrow> int \<Rightarrow> DateInterval_t \<Rightarrow> bool" where
  "interval_due garbage date_now time_now i =
     (date_value garbage (begin_date i) \<le> date_now \<and> date_now \<le> date_value garbage (end_date i) \<and>
      (case schedule_seconds i of
         Ptr xs \<Rightarrow> list_ex (\<lambda>x. x = time_now) (take (schedule_seconds_size i) xs)
       | _ \<Rightarrow> False))"

definition track_due :: "int \<Rightarrow> int \<Rightarrow> int \<Rightarrow> Track_t \<Rightarrow> bool" where
  "track_due garbage date_now time_now t =
     (case date_intervals t of
        Ptr ivs \<Rightarrow> list_ex (interval_due garbage date_now time_now) (take (date_intervals_size t) ivs)
      | _ \<Rightarrow> False)"

fun first_due :: "int \<Rightarrow> int \<Rightarrow> int \<Rightarrow> ads_table \<Rightarrow> Track_t option" where
  "first_due g d s [] = None"
| "first_due g d s (None # ads) = first_due g d s ads"
| "first_due g d s (Some t # ads) = (if track_due g d s t then Some t else first_due g d s ads)"

definition advertising_now :: "int \<Rightarrow> tm \<Rightarrow> tm \<Rightarrow> ads_table \<Rightarrow> Track_t option" where
  "advertising_now garbage t1 t2 ads =
     first_due garbage (datetime_current_date_int t1) (datetime_current_time_int t2) ads"

section \<open>Properties\<close>

text \<open>The advertising tracks of a playlist, as the table is to hold them.\<close>

definition deep :: "playlist_entry \<Rightarrow> bool" where
  "deep e = (case e of
       Background u f n \<Rightarrow> True
     | Advert u f n ivs \<Rightarrow> ivs \<noteq> [] \<and> list_all (\<lambda>(b, e, ss). ss \<noteq> []) ivs)"

definition adverts :: "playlist_entry list \<Rightarrow> Track_t list" where
  "adverts es = filter (\<lambda>t. track_type t = TRACK_ADVERTISING) (map track_of es)"

lemma list_ptr_nonempty: "xs \<noteq> [] \<Longrightarrow> list_ptr xs = Ptr xs"
  by (cases xs) auto

lemma copy_intervals_of:
  "list_all (\<lambda>(b, e, ss). ss \<noteq> []) ivs \<Longrightarrow>
     copy_intervals [] (map interval_of ivs) = Some (map interval_of ivs)"
  by (induction ivs)
     (auto simp: interval_of_def wild_interval_def list_ptr_nonempty split: prod.splits)

lemma put_ad_exact:
  "deep e \<Longrightarrow> track_type (track_of e) = TRACK_ADVERTISING \<Longrightarrow>
     snd (track_copy [] (Some d) (Some (track_of e))) = Some (track_of e)"
  by (cases e) (auto simp: deep_def track_copy_def list_ptr_nonempty ptr_list_def copy_intervals_of Let_def)

lemma put_ad_append:
  "deep e \<Longrightarrow> track_type (track_of e) = TRACK_ADVERTISING \<Longrightarrow>
     put_ad (track_of e) (map Some ts @ replicate (Suc n) None) =
     map Some (ts @ [track_of e]) @ replicate n None"
  by (induction ts) (auto simp: put_ad_exact)

lemma visit_adverts:
  "list_all deep es \<Longrightarrow> length (adverts es) \<le> n \<Longrightarrow>
     visit on_file_parse_callback (map track_of es) (map Some ts @ replicate n None) =
     map Some (ts @ adverts es) @ replicate (n - length (adverts es)) None"
proof (induction es arbitrary: ts n)
  case (Cons e es)
  show ?case
  proof (cases "track_type (track_of e) = TRACK_ADVERTISING")
    case True
    then obtain m where n: "n = Suc m" "length (adverts es) \<le> m"
      using Cons.prems(2) by (cases n) (auto simp: adverts_def)
    then show ?thesis
      using Cons.IH [of m "ts @ [track_of e]"] Cons.prems True put_ad_append [of e ts m]
      by (simp add: on_file_parse_callback_def adverts_def)
  next
    case False
    then show ?thesis
      using Cons.IH [of n ts] Cons.prems by (simp add: on_file_parse_callback_def adverts_def)
  qed
qed (simp add: adverts_def)

lemma deinit_free: "list_all (\<lambda>t. t \<noteq> None \<longrightarrow> track_free (the t) \<noteq> None) ads \<Longrightarrow>
    deinit ads = Some (replicate (length ads) None)"
  by (induction ads rule: deinit.induct) auto

lemma first_due_append:
  "first_due g d s (map Some ts @ replicate n None) = List.find (track_due g d s) ts"
proof (induction ts)
  case Nil
  have "first_due g d s (replicate n None) = None" by (induction n) auto
  then show ?case by simp
qed auto


definition ad_playlist :: "playlist_entry list" where
  "ad_playlist = [Background ''/m/1'' ''song.mp3'' 4,
     Advert ''/m/2'' ''ad.mp3'' 5 [(show_civil (Civil 2019 2 1), show_civil (Civil 2019 3 1), [''10:00:00''])]]"


end
