(* ===== verification/Files.thy ===== *)
theory Files
  imports Prelude Recurse StreamPlaylist
begin

text \<open>
  \<open>src/firmware/main/util/files.c\<close> and \<open>tempfile.c\<close>: directory creation and removal,
  existence and size of files, temporary files. The card's file system is a parameter of
  \<open>mkdir_p\<close> (its \<open>mkdir\<close> with the outcome), a directory tree for
  \<open>remove_directory\<close> and \<open>tempfile_init\<close>, and a map from paths to contents elsewhere.
\<close>

section \<open>Creating directories\<close>

datatype mkdir_result = MkdirOk | MkdirExists | MkdirError

abbreviation PATH_MAX :: nat where
  "PATH_MAX \<equiv> 1024"

text \<open>The truncations at each slash after the first character.\<close>

definition slash_prefixes :: "string \<Rightarrow> string list" where
  "slash_prefixes path =
     map (\<lambda>i. take i path) (filter (\<lambda>i. path ! i = CHR ''/'') [1..<length path])"

fun mkdirs :: "(string \<Rightarrow> 'f \<Rightarrow> mkdir_result \<times> 'f) \<Rightarrow> string list \<Rightarrow> 'f \<Rightarrow> int \<times> 'f" where
  "mkdirs mkdir [] fs = (0, fs)"
| "mkdirs mkdir (p # ps) fs =
     (case mkdir p fs of
        (MkdirError, fs') \<Rightarrow> (- 1, fs')
      | (_, fs') \<Rightarrow> mkdirs mkdir ps fs')"

definition mkdir_p :: "(string \<Rightarrow> 'f \<Rightarrow> mkdir_result \<times> 'f) \<Rightarrow> string \<Rightarrow> 'f \<Rightarrow> int \<times> 'f" where
  "mkdir_p mkdir path fs =
     (if length path > PATH_MAX - 1 then (- 1, fs)
      else mkdirs mkdir (slash_prefixes path @ [path]) fs)"

section \<open>Removing a directory\<close>

text \<open>
  Removal of an entry succeeds for a regular file and for an empty directory. The result is
  whether the directory could be opened, and what is left of it.
\<close>

function remove_directory :: "dnode \<Rightarrow> bool \<times> dnode"
  and remove_entries :: "(string \<times> dnode) list \<Rightarrow> (string \<times> dnode) list" where
  "remove_directory DReg = (False, DReg)"
| "remove_directory (DDir None) = (False, DDir None)"
| "remove_directory (DDir (Some es)) = (True, DDir (Some (remove_entries es)))"
| "remove_entries [] = []"
| "remove_entries ((d_name, DReg) # es) = remove_entries es"
| "remove_entries ((d_name, DDir sub) # es) =
     (if d_name \<noteq> ''.'' \<and> d_name \<noteq> ''..'' then
        (let sub' = snd (remove_directory (DDir sub))
         in (if sub' = DDir (Some []) then [] else [(d_name, sub')]) @ remove_entries es)
      else (d_name, DDir sub) # remove_entries es)"
  by pat_completeness auto
termination
  by (relation "measure (\<lambda>x. case x of Inl node \<Rightarrow> size node | Inr es \<Rightarrow> entries_size es)") auto

text \<open>A tree all of whose directories can be opened, and without entries for \<open>.\<close> and \<open>..\<close>.\<close>

function readable :: "dnode \<Rightarrow> bool" and readable_entries :: "(string \<times> dnode) list \<Rightarrow> bool" where
  "readable DReg = True"
| "readable (DDir None) = False"
| "readable (DDir (Some es)) = readable_entries es"
| "readable_entries [] = True"
| "readable_entries ((n, d) # es) = (n \<noteq> ''.'' \<and> n \<noteq> ''..'' \<and> readable d \<and> readable_entries es)"
  by pat_completeness auto
termination
  by (relation "measure (\<lambda>x. case x of Inl node \<Rightarrow> size node | Inr es \<Rightarrow> entries_size es)") auto

lemma remove_directory_empty:
  "readable d \<Longrightarrow> d \<noteq> DReg \<Longrightarrow> remove_directory d = (True, DDir (Some []))"
  "readable_entries es \<Longrightarrow> remove_entries es = []"
  by (induction d and es rule: remove_directory_remove_entries.induct) (auto simp: Let_def)

text \<open>
  Removing a directory whose subdirectories can all be opened leaves it empty, at every
  depth; without that condition no regular file is left in a directory that could be opened.
\<close>

theorem remove_directory_empties:
  "(readable (DDir es) \<longrightarrow> remove_directory (DDir es) = (True, DDir (Some []))) \<and>
   (\<forall>xs. es = Some xs \<longrightarrow> (\<forall>n. (n, DReg) \<notin> set (remove_entries xs)))"
proof -
  have reg: "(n, DReg) \<notin> set (remove_entries xs)" for n xs
  proof (induction xs)
    case (Cons x xs)
    obtain m d where x: "x = (m, d)" by (cases x)
    have "DReg \<noteq> snd (remove_directory (DDir s))" for s by (cases s) auto
    then show ?case using Cons x by (cases d) (auto simp: Let_def)
  qed simp
  show ?thesis using remove_directory_empty(1) [of "DDir es"] reg by blast
qed

theorem remove_directory_empties_witness:
  "remove_directory (DDir (Some [(''a'', DReg), (''b'', DDir (Some [(''c'', DReg)]))])) =
     (True, DDir (Some []))"
proof -
  have "readable (DDir (Some [(''a'', DReg), (''b'', DDir (Some [(''c'', DReg)]))]))" by simp
  then show ?thesis
    using remove_directory_empties [of "Some [(''a'', DReg), (''b'', DDir (Some [(''c'', DReg)]))]"]
    by blast
qed

section \<open>Directories on the way\<close>

lemma mkdirs_all:
  assumes "\<And>p q fs r fs'. mkdir p fs = (r, fs') \<Longrightarrow> isdir q fs \<Longrightarrow> isdir q fs'"
    and "\<And>p fs r fs'. mkdir p fs = (r, fs') \<Longrightarrow> r \<noteq> MkdirError \<Longrightarrow> isdir p fs'"
    and "mkdirs mkdir ps fs = (0, fs')"
  shows "(\<forall>p\<in>set ps. isdir p fs') \<and> (\<forall>q. isdir q fs \<longrightarrow> isdir q fs')"
  using assms(3)
proof (induction ps arbitrary: fs)
  case (Cons p ps)
  then obtain r fs1 where "mkdir p fs = (r, fs1)" "r \<noteq> MkdirError" "mkdirs mkdir ps fs1 = (0, fs')"
    by (auto split: prod.splits mkdir_result.splits)
  with Cons.IH [of fs1] assms(1,2) show ?case by fastforce
qed simp

text \<open>
  When \<open>mkdir_p\<close> answers 0, the path and every part of it before a slash are
  directories and no directory was lost, provided that \<open>mkdir\<close> makes its argument a
  directory, or finds it to be one, whenever it does not fail, and removes none.
\<close>

theorem mkdir_p_creates:
  assumes "\<And>p q fs r fs'. mkdir p fs = (r, fs') \<Longrightarrow> isdir q fs \<Longrightarrow> isdir q fs'"
    and "\<And>p fs r fs'. mkdir p fs = (r, fs') \<Longrightarrow> r \<noteq> MkdirError \<Longrightarrow> isdir p fs'"
    and "mkdir_p mkdir path fs = (0, fs')"
  shows "isdir path fs' \<and>
         (\<forall>a b. path = a @ ''/'' @ b \<and> a \<noteq> [] \<longrightarrow> isdir a fs') \<and>
         (\<forall>q. isdir q fs \<longrightarrow> isdir q fs')"
proof -
  have m: "mkdirs mkdir (slash_prefixes path @ [path]) fs = (0, fs')"
    using assms(3) by (auto simp: mkdir_p_def split: if_splits)
  note all = mkdirs_all [where mkdir = mkdir and isdir = isdir, OF assms(1,2) m]
  have "isdir a fs'" if "path = a @ ''/'' @ b" "a \<noteq> []" for a b
  proof -
    have "take (length a) path = a" "path ! length a = CHR ''/''" "1 \<le> length a" "length a < length path"
      using that by (auto simp: Suc_le_eq)
    then have "a \<in> set (slash_prefixes path)"
      by (auto simp: slash_prefixes_def image_iff intro!: bexI [of _ "length a"])
    then show ?thesis using all by auto
  qed
  then show ?thesis using all by auto
qed

definition list_mkdir :: "string \<Rightarrow> string list \<Rightarrow> mkdir_result \<times> string list" where
  "list_mkdir p fs = (if p \<in> set fs then (MkdirExists, fs) else (MkdirOk, p # fs))"

theorem mkdir_p_creates_witness:
  "\<exists>fs. mkdir_p list_mkdir ''/a/b'' [] = (0, fs) \<and> ''/a/b'' \<in> set fs \<and> ''/a'' \<in> set fs"
proof -
  have r: "mkdir_p list_mkdir ''/a/b'' [] = (0, [''/a/b'', ''/a''])"
    by (simp add: mkdir_p_def slash_prefixes_def list_mkdir_def upt_rec)
  have "''/a/b'' \<in> set (snd (mkdir_p list_mkdir ''/a/b'' [])) \<and>
     (\<forall>a b. ''/a/b'' = a @ ''/'' @ b \<and> a \<noteq> [] \<longrightarrow> a \<in> set (snd (mkdir_p list_mkdir ''/a/b'' []))) \<and>
     (\<forall>q. q \<in> set [] \<longrightarrow> q \<in> set (snd (mkdir_p list_mkdir ''/a/b'' [])))"
    by (rule mkdir_p_creates [where mkdir = list_mkdir and isdir = "\<lambda>p fs. p \<in> set fs"])
       (auto simp: list_mkdir_def r split: if_splits)
  then have "''/a/b'' \<in> set (snd (mkdir_p list_mkdir ''/a/b'' []))" by (rule conjunct1)
  with r show ?thesis by simp
qed

section \<open>Files\<close>

definition file_exists :: "files \<Rightarrow> string \<Rightarrow> bool" where
  "file_exists fs path = (fs path \<noteq> None)"

text \<open>The size by seeking, which leaves the position at the start.\<close>

definition file_size :: "string \<times> nat \<Rightarrow> nat \<times> (string \<times> nat)" where
  "file_size f = (length (fst f), (fst f, 0))"

definition remove_file :: "string \<Rightarrow> files \<Rightarrow> bool \<times> files" where
  "remove_file path fs = (fs path \<noteq> None, fs(path := None))"

text \<open>\<open>rename\<close> on the card's FAT file system does not replace an existing file.\<close>

definition rename_file :: "string \<Rightarrow> string \<Rightarrow> files \<Rightarrow> bool \<times> files" where
  "rename_file old new fs =
     (case (fs old, fs new) of
        (Some c, None) \<Rightarrow> (True, fs(old := None, new \<mapsto> c))
      | _ \<Rightarrow> (False, fs))"

section \<open>Temporary files\<close>

text \<open>
  The stream of a temporary file is null, open, or closed and dangling; its path may be freed
  by a \<open>realloc\<close> whose result the code drops. None means undefined behaviour.
\<close>

record Tempfile_t =
  tf_file :: "unit cptr"
  tf_path :: "string cptr"

definition TEMPFILE_DIR :: string where
  "TEMPFILE_DIR = ''/sdcard/.tmp''"

definition tempfile_open :: "bool \<Rightarrow> string \<Rightarrow> Tempfile_t option \<Rightarrow> files \<Rightarrow>
    (bool \<times> Tempfile_t option \<times> files) option" where
  "tempfile_open can_open mode tf fs =
     (case tf of
        None \<Rightarrow> Some (False, tf, fs)
      | Some t \<Rightarrow>
        (case tf_path t of
           NULL \<Rightarrow> Some (False, tf, fs)
         | Wild \<Rightarrow> None
         | Ptr p \<Rightarrow>
             if can_open \<and> (mode = ''r'' \<longrightarrow> fs p \<noteq> None) then
               Some (True, Some (t\<lparr>tf_file := Ptr ()\<rparr>),
                     if mode = ''ab+'' \<and> fs p = None then fs(p \<mapsto> []) else fs)
             else Some (False, Some (t\<lparr>tf_file := NULL\<rparr>), fs)))"

definition tempfile_close :: "Tempfile_t option \<Rightarrow> (bool \<times> Tempfile_t option) option" where
  "tempfile_close tf =
     (case tf of
        None \<Rightarrow> Some (False, tf)
      | Some t \<Rightarrow>
        (case tf_file t of
           NULL \<Rightarrow> Some (False, tf)
         | Wild \<Rightarrow> None
         | Ptr _ \<Rightarrow> Some (True, Some (t\<lparr>tf_file := Wild\<rparr>))))"

definition tempfile_create :: "bool \<Rightarrow> bool \<Rightarrow> bool \<Rightarrow> u32 \<Rightarrow> files \<Rightarrow> (Tempfile_t option \<times> files) option" where
  "tempfile_create dir_ok malloc_good can_open rnd fs =
     (if \<not> dir_ok then Some (None, fs)
      else if \<not> malloc_good then Some (None, fs)
      else (let path = TEMPFILE_DIR @ ''/'' @ show_nat (unat rnd) @ ''.tmp'';
                tf = \<lparr>tf_file = Wild, tf_path = Ptr path\<rparr>
            in case tempfile_open can_open ''ab+'' (Some tf) fs of
                 None \<Rightarrow> None
               | Some (True, r) \<Rightarrow> Some r
               | Some (False, _, fs') \<Rightarrow> Some (None, fs')))"

definition tempfile_remove :: "Tempfile_t option \<Rightarrow> files \<Rightarrow> (bool \<times> files) option" where
  "tempfile_remove tf fs =
     (case tf of
        None \<Rightarrow> Some (False, fs)
      | Some t \<Rightarrow>
        if tf_path t = NULL \<or> tf_file t = NULL then Some (False, fs)
        else (case tempfile_close tf of
                None \<Rightarrow> None
              | Some _ \<Rightarrow>
                (case tf_path t of
                   Ptr p \<Rightarrow> Some (remove_file p fs)
                 | _ \<Rightarrow> None)))"

definition tempfile_rename :: "bool \<Rightarrow> Tempfile_t \<Rightarrow> string \<Rightarrow> files \<Rightarrow>
    (bool \<times> Tempfile_t \<times> files) option" where
  "tempfile_rename realloc_moves tf new_path fs =
     (case tempfile_close (Some tf) of
        None \<Rightarrow> None
      | Some (_, None) \<Rightarrow> None
      | Some (_, Some t) \<Rightarrow>
        (case tf_path t of
           Ptr p \<Rightarrow>
             (case rename_file p new_path fs of
                (True, fs') \<Rightarrow>
                  if realloc_moves then None else Some (True, t\<lparr>tf_path := Ptr new_path\<rparr>, fs')
              | (False, fs') \<Rightarrow> Some (False, t, fs'))
         | _ \<Rightarrow> None))"

definition tempfile_init :: "string list \<Rightarrow> files \<Rightarrow> files" where
  "tempfile_init names fs = fold (\<lambda>n fs. snd (remove_file (newpath TEMPFILE_DIR n) fs)) names fs"

end
