(* ===== verification/FileDownload.thy ===== *)
theory FileDownload
  imports Prelude
begin

text \<open>
  \<open>src/firmware/main/remote/file_download.c\<close>: the download of a file by two tasks, the
  caller whose HTTP event handler fills a buffer and a writer task that empties it into the
  file, synchronised by two binary semaphores. The tasks interleave freely (the chip has two
  cores), so the program is a step relation; the response body arrives as a list of chunks.
  The caller releases the file, the buffer, the semaphores and the shared record when it
  returns (\<open>Returned\<close>); a step of the writer after that uses freed memory.
\<close>

datatype caller = Receiving | Stopping | Waiting | Returned

datatype writer = Idle | Writing | Leaving | Ended

record download =
  chunks :: "string list"
  max_size :: nat
  buffer :: string
  stop_flag :: bool
  received_sema :: bool
  written_sema :: bool
  contents :: string
  caller_at :: caller
  writer_at :: writer

text \<open>The state after the set-up; the file is opened for appending.\<close>

definition file_download_start :: "string \<Rightarrow> nat \<Rightarrow> string list \<Rightarrow> download" where
  "file_download_start old buffer_size body =
     \<lparr>chunks = body, max_size = buffer_size, buffer = [], stop_flag = False, received_sema = False,
      written_sema = True, contents = old, caller_at = Receiving, writer_at = Idle\<rparr>"

text \<open>The caller: the event handler, then the end of \<open>file_download_start\<close>.\<close>

inductive caller_step :: "download \<Rightarrow> download \<Rightarrow> bool" where
  on_data:
    "caller_at d = Receiving \<Longrightarrow> chunks d = c # cs \<Longrightarrow> length c \<le> max_size d \<Longrightarrow> written_sema d \<Longrightarrow>
     caller_step d (d\<lparr>chunks := cs, buffer := c, written_sema := False, received_sema := True\<rparr>)"
| too_large:
    "caller_at d = Receiving \<Longrightarrow> chunks d = c # cs \<Longrightarrow> max_size d < length c \<Longrightarrow>
     caller_step d (d\<lparr>chunks := cs\<rparr>)"
| performed:
    "caller_at d = Receiving \<Longrightarrow> chunks d = [] \<Longrightarrow>
     caller_step d (d\<lparr>stop_flag := True, caller_at := Stopping\<rparr>)"
| stop_writer:
    "caller_at d = Stopping \<Longrightarrow>
     caller_step d (d\<lparr>received_sema := True, caller_at := Waiting\<rparr>)"
| return_caller:
    "caller_at d = Waiting \<Longrightarrow> written_sema d \<Longrightarrow>
     caller_step d (d\<lparr>written_sema := False, caller_at := Returned\<rparr>)"

text \<open>The writer task.\<close>

inductive writer_step :: "download \<Rightarrow> download \<Rightarrow> bool" where
  take_received:
    "writer_at d = Idle \<Longrightarrow> received_sema d \<Longrightarrow>
     writer_step d (d\<lparr>received_sema := False,
                      writer_at := if stop_flag d then Leaving else Writing\<rparr>)"
| write_buffer:
    "writer_at d = Writing \<Longrightarrow>
     writer_step d (d\<lparr>contents := contents d @ buffer d, written_sema := True, writer_at := Idle\<rparr>)"
| leave:
    "writer_at d = Leaving \<Longrightarrow>
     writer_step d (d\<lparr>written_sema := True, writer_at := Ended\<rparr>)"

inductive run :: "download \<Rightarrow> download \<Rightarrow> bool" where
  run_refl: "run d d"
| run_caller: "run a d \<Longrightarrow> caller_step d e \<Longrightarrow> run a e"
| run_writer: "run a d \<Longrightarrow> writer_step d e \<Longrightarrow> run a e"

inductive_cases caller_stepE: "caller_step d e"
inductive_cases writer_stepE: "writer_step d e"

section \<open>What reaches the file\<close>

text \<open>
  Of the chunks that fit the buffer, those written are an initial part: either all those
  handed over, or all but the one in the buffer, which is then still to be written, or lost
  because the stop flag was set first.
\<close>

definition fitting :: "nat \<Rightarrow> string list \<Rightarrow> string list" where
  "fitting n cs = filter (\<lambda>c. length c \<le> n) cs"

definition file_inv :: "string \<Rightarrow> nat \<Rightarrow> string list \<Rightarrow> download \<Rightarrow> bool" where
  "file_inv old n body d =
     (max_size d = n \<and>
      (caller_at d \<noteq> Receiving \<longrightarrow> chunks d = [] \<and> stop_flag d) \<and>
      (caller_at d = Receiving \<longrightarrow> \<not> stop_flag d \<and> writer_at d \<noteq> Leaving \<and> writer_at d \<noteq> Ended) \<and>
      (\<exists>done. (fitting n body = done @ fitting n (chunks d) \<and> contents d = old @ concat done \<and>
               writer_at d \<noteq> Writing \<and> (caller_at d = Receiving \<longrightarrow> \<not> received_sema d)) \<or>
              (fitting n body = done @ buffer d # fitting n (chunks d) \<and> contents d = old @ concat done \<and>
               (writer_at d = Idle \<longrightarrow> received_sema d) \<and> (caller_at d = Receiving \<longrightarrow> \<not> written_sema d) \<and>
               (writer_at d = Writing \<longrightarrow> \<not> written_sema d \<and> (caller_at d = Receiving \<longrightarrow> \<not> received_sema d)))))"

lemma file_inv_start: "file_inv old n body (file_download_start old n body)"
  by (simp add: file_inv_def file_download_start_def)

lemma file_inv_caller: "caller_step d e \<Longrightarrow> file_inv old n body d \<Longrightarrow> file_inv old n body e"
  by (elim caller_stepE) (auto simp: file_inv_def fitting_def)

lemma file_inv_writer: "writer_step d e \<Longrightarrow> file_inv old n body d \<Longrightarrow> file_inv old n body e"
  by (elim writer_stepE) (auto simp: file_inv_def fitting_def)

lemma file_inv_run: "run a d \<Longrightarrow> file_inv old n body a \<Longrightarrow> file_inv old n body d"
  by (induction rule: run.induct) (auto intro: file_inv_caller file_inv_writer)


lemma run_steps:
  "caller_step d e \<Longrightarrow> run a d \<Longrightarrow> run a e"
  "writer_step d e \<Longrightarrow> run a d \<Longrightarrow> run a e"
  by (auto intro: run.intros)

lemma lost_run:
  assumes "length c \<le> n"
  shows "\<exists>d. run (file_download_start old n [c]) d \<and> caller_at d = Returned \<and>
             writer_at d = Ended \<and> contents d = old"
proof -
  let ?d0 = "file_download_start old n [c]"
  let ?d1 = "?d0\<lparr>chunks := [], buffer := c, written_sema := False, received_sema := True\<rparr>"
  let ?d2 = "?d1\<lparr>stop_flag := True, caller_at := Stopping\<rparr>"
  let ?d3 = "?d2\<lparr>received_sema := True, caller_at := Waiting\<rparr>"
  let ?d4 = "?d3\<lparr>received_sema := False, writer_at := Leaving\<rparr>"
  let ?d5 = "?d4\<lparr>written_sema := True, writer_at := Ended\<rparr>"
  let ?d6 = "?d5\<lparr>written_sema := False, caller_at := Returned\<rparr>"
  have "caller_step ?d0 ?d1"
    using assms by (intro caller_step.on_data) (simp_all add: file_download_start_def)
  moreover have "caller_step ?d1 ?d2"
    by (rule caller_step.performed) (simp_all add: file_download_start_def)
  moreover have "caller_step ?d2 ?d3"
    by (rule caller_step.stop_writer) simp
  moreover have "writer_step ?d3 ?d4"
    using writer_step.take_received [of ?d3] by (simp add: file_download_start_def)
  moreover have "writer_step ?d4 ?d5"
    by (rule writer_step.leave) simp
  moreover have "caller_step ?d5 ?d6"
    by (rule caller_step.return_caller) simp_all
  ultimately have "run ?d0 ?d6"
    by (intro run_caller [OF run_writer [OF run_writer [OF run_caller [OF run_caller [OF run_caller
      [OF run_refl]]]]]])
  then show ?thesis
    by (intro exI [of _ ?d6]) (simp add: file_download_start_def)
qed

lemma early_return_run:
  assumes "length c \<le> n"
  shows "\<exists>d e. run (file_download_start old n [c]) d \<and> caller_at d = Returned \<and> writer_step d e"
proof -
  let ?d0 = "file_download_start old n [c]"
  let ?d1 = "?d0\<lparr>chunks := [], buffer := c, written_sema := False, received_sema := True\<rparr>"
  let ?d2 = "?d1\<lparr>received_sema := False, writer_at := Writing\<rparr>"
  let ?d3 = "?d2\<lparr>stop_flag := True, caller_at := Stopping\<rparr>"
  let ?d4 = "?d3\<lparr>received_sema := True, caller_at := Waiting\<rparr>"
  let ?d5 = "?d4\<lparr>contents := contents ?d4 @ buffer ?d4, written_sema := True, writer_at := Idle\<rparr>"
  let ?d6 = "?d5\<lparr>written_sema := False, caller_at := Returned\<rparr>"
  have "caller_step ?d0 ?d1"
    using assms by (intro caller_step.on_data) (simp_all add: file_download_start_def)
  moreover have "writer_step ?d1 ?d2"
    using writer_step.take_received [of ?d1] by (simp add: file_download_start_def)
  moreover have "caller_step ?d2 ?d3"
    by (rule caller_step.performed) (simp_all add: file_download_start_def)
  moreover have "caller_step ?d3 ?d4"
    by (rule caller_step.stop_writer) simp
  moreover have "writer_step ?d4 ?d5"
    by (rule writer_step.write_buffer) simp
  moreover have "caller_step ?d5 ?d6"
    by (rule caller_step.return_caller) simp_all
  ultimately have "run ?d0 ?d6"
    by (intro run_caller [OF run_writer [OF run_caller [OF run_caller [OF run_writer [OF run_caller
      [OF run_refl]]]]]])
  moreover have "writer_step ?d6 (?d6\<lparr>received_sema := False, writer_at := Leaving\<rparr>)"
    using writer_step.take_received [of ?d6] by (simp add: file_download_start_def)
  ultimately show ?thesis
    by (intro exI [of _ ?d6] exI) (simp add: file_download_start_def)
qed

text \<open>
  The end of a download races with its writer. For every chunk that fits the buffer there
  is a run in which the download returns and both tasks have ended but the chunk was never
  written; and a run in which the download returns while the writer still has a step to take,
  with the semaphores, the buffer and the record already released.
\<close>

theorem download_race:
  assumes "length c \<le> n"
  shows "(\<exists>d. run (file_download_start old n [c]) d \<and> caller_at d = Returned \<and>
              writer_at d = Ended \<and> contents d = old) \<and>
         (\<exists>d e. run (file_download_start old n [c]) d \<and> caller_at d = Returned \<and> writer_step d e)"
  using lost_run [OF assms] early_return_run [OF assms] by blast

theorem download_race_witness:
  "\<exists>d. run (file_download_start [] 4096 [''tail'']) d \<and> caller_at d = Returned \<and>
       writer_at d = Ended \<and> contents d = []"
  using download_race [of "''tail''" 4096 "[]"] by simp


end
