(* ===== verification/CleanupFiles.thy ===== *)
theory CleanupFiles
  imports Prelude Recurse Track PdjsonHelper Traverse
begin

text \<open>
  \<open>src/firmware/main/playlist/cloud/cleanup_files.c\<close>: the background task that removes the
  media files that the playlist no longer names, and its control. The stop bit is set by
  another task at some moment; the task polls it, so the moment is the number of the first
  poll that sees it (None: never). The playlist file is its JSON events; the result of a run is
  the list of removed paths.
\<close>

section \<open>The work\<close>

definition is_stopping :: "nat option \<Rightarrow> nat \<Rightarrow> bool" where
  "is_stopping stop_at poll = (case stop_at of None \<Rightarrow> False | Some n \<Rightarrow> n \<le> poll)"

record cleanup_ctx =
  target_filename :: string
  found :: bool
  polls :: nat

definition callback :: "nat option \<Rightarrow> Track_t \<Rightarrow> cleanup_ctx \<Rightarrow> bool \<times> cleanup_ctx" where
  "callback stop_at t ctx =
     (let ctx' = ctx\<lparr>polls := polls ctx + 1\<rparr>
      in if is_stopping stop_at (polls ctx) then (False, ctx')
         else (True, if filename t = Ptr (target_filename ctx) then ctx'\<lparr>found := True\<rparr> else ctx'))"

text \<open>
  The loop over the directory: the numbers of polls so far and the removed paths. A run that
  meets undefined behaviour in the traversal is None.
\<close>

fun doit_loop :: "nat option \<Rightarrow> json_event list option \<Rightarrow> string \<Rightarrow> string \<Rightarrow> (string \<times> dnode) list \<Rightarrow>
    nat \<Rightarrow> string list \<Rightarrow> string list option" where
  "doit_loop stop_at playlist mediafiles_path playlist_filename es k removed =
     (if is_stopping stop_at k then Some removed
      else (case es of
              [] \<Rightarrow> Some removed
            | (d_name, node) # es' \<Rightarrow>
                if node = DReg \<and> d_name \<noteq> playlist_filename then
                  (case playlist of
                     None \<Rightarrow> Some removed
                   | Some json \<Rightarrow>
                     (case traverse_playlist (Some (callback stop_at)) json
                             \<lparr>target_filename = d_name, found = False, polls = k + 1\<rparr> of
                        None \<Rightarrow> None
                      | Some (success, ctx) \<Rightarrow>
                          doit_loop stop_at playlist mediafiles_path playlist_filename es' (polls ctx)
                            (if success \<and> \<not> found ctx
                             then removed @ [newpath mediafiles_path d_name] else removed)))
                else doit_loop stop_at playlist mediafiles_path playlist_filename es' (k + 1) removed))"

declare doit_loop.simps [simp del]

definition doit :: "nat option \<Rightarrow> json_event list option \<Rightarrow> string \<Rightarrow> string \<Rightarrow> dnode \<Rightarrow> string list option" where
  "doit stop_at playlist mediafiles_path playlist_filename dir =
     (case dir of
        DDir (Some es) \<Rightarrow> doit_loop stop_at playlist mediafiles_path playlist_filename es 0 []
      | _ \<Rightarrow> Some [])"

section \<open>What is removed\<close>

definition track_names :: "playlist_entry list \<Rightarrow> string list" where
  "track_names es = map (\<lambda>e. case e of Background u f n \<Rightarrow> f | Advert u f n ivs \<Rightarrow> f) es"

lemma filename_track_of: "filename (track_of e) = Ptr f \<longleftrightarrow> [f] = track_names [e]"
  by (cases e) (auto simp: track_names_def)

lemma visit_found:
  "visit (callback None) (map track_of es) ctx =
     ctx\<lparr>polls := polls ctx + length es, found := found ctx \<or> target_filename ctx \<in> set (track_names es)\<rparr>"
proof (induction es arbitrary: ctx)
  case Nil
  then show ?case by (simp add: track_names_def)
next
  case (Cons e es)
  then show ?case
    using filename_track_of [of e "target_filename ctx"]
    by (auto simp: callback_def is_stopping_def track_names_def Let_def)
qed

definition stale :: "string \<Rightarrow> playlist_entry list \<Rightarrow> string \<times> dnode \<Rightarrow> bool" where
  "stale playlist_filename es f =
     (snd f = DReg \<and> fst f \<noteq> playlist_filename \<and> fst f \<notin> set (track_names es))"

lemma stale_pair:
  "stale pf es (a, b) \<longleftrightarrow> b = DReg \<and> a \<noteq> pf \<and> a \<notin> set (track_names es)"
  by (simp add: stale_def)

lemma doit_loop_stopped: "is_stopping s k \<Longrightarrow> doit_loop s pl mp pf es k r = Some r"
  by (subst doit_loop.simps) simp

lemma doit_loop_removes:
  assumes "list_all plain_entry es"
  shows "doit_loop None (Some (playlist_events es)) mp pf dir k removed =
     Some (removed @ map (\<lambda>f. newpath mp (fst f)) (filter (stale pf es) dir))"
proof (induction dir arbitrary: k removed)
  case Nil
  then show ?case by (subst doit_loop.simps) (simp add: is_stopping_def)
next
  case (Cons x dir)
  then show ?case
    by (subst doit_loop.simps)
       (cases x; auto simp: is_stopping_def traverse_playlist_visit [OF assms] visit_found stale_pair)
qed

text \<open>
  C20: a clean-up that is not stopped removes exactly the regular files of the directory that
  are neither the playlist file nor named by a track of the playlist.
\<close>

theorem cleanup_removes_stale:
  assumes "list_all plain_entry es"
  shows "doit None (Some (playlist_events es)) mp pf (DDir (Some dir)) =
         Some (map (\<lambda>f. newpath mp (fst f)) (filter (stale pf es) dir))"
  by (simp add: doit_def doit_loop_removes [OF assms])

theorem cleanup_removes_stale_witness:
  "doit None (Some (playlist_events [Background ''/m/1'' ''song.mp3'' 4])) ''/sdcard/cloud/mediafiles''
     ''playlist.json''
     (DDir (Some [(''playlist.json'', DReg), (''old.mp3'', DReg), (''song.mp3'', DReg)])) =
   Some [''/sdcard/cloud/mediafiles/old.mp3'']"
proof -
  have "list_all plain_entry [Background ''/m/1'' ''song.mp3'' 4]"
    by (simp add: plain_def)
  from cleanup_removes_stale [OF this] show ?thesis
    by (simp add: stale_def track_names_def newpath_def)
qed

text \<open>
  A stop that arrives while a file is looked up in the playlist makes the look-up end
  early and successfully with the file not found, so the file is removed although the playlist
  names it.
\<close>

theorem stop_removes_listed_file:
  assumes "list_all plain_entry es" and "es \<noteq> []" and "f \<noteq> pf"
  shows "doit (Some 1) (Some (playlist_events es)) mp pf (DDir (Some ((f, DReg) # dir))) =
         Some [newpath mp f]"
proof -
  obtain e es' where "es = e # es'" using assms(2) by (cases es) auto
  then have "visit (callback (Some 1)) (map track_of es)
      \<lparr>target_filename = f, found = False, polls = 1\<rparr> =
      \<lparr>target_filename = f, found = False, polls = 2\<rparr>"
    by (simp add: callback_def is_stopping_def)
  then have "doit_loop (Some 1) (Some (playlist_events es)) mp pf ((f, DReg) # dir) 0 [] =
      doit_loop (Some 1) (Some (playlist_events es)) mp pf dir 2 [newpath mp f]"
    using assms(3)
    by (subst doit_loop.simps) (simp add: is_stopping_def traverse_playlist_visit [OF assms(1)])
  also have "\<dots> = Some [newpath mp f]"
    by (rule doit_loop_stopped) (simp add: is_stopping_def)
  finally show ?thesis by (simp add: doit_def)
qed

theorem stop_removes_listed_file_witness:
  "doit (Some 1) (Some (playlist_events [Background ''/m/1'' ''song.mp3'' 4])) ''/sdcard/cloud/mediafiles''
     ''playlist.json'' (DDir (Some [(''song.mp3'', DReg)])) =
   Some [newpath ''/sdcard/cloud/mediafiles'' ''song.mp3'']"
  by (rule stop_removes_listed_file) (simp_all add: plain_def)

section \<open>Control\<close>

text \<open>
  The event group with its stop and stopped bits, the task and the timer (with whether it is
  active). A stop waits for the running task to set the stopped bit.
\<close>

record cleanup_ctl =
  event_group :: "(bool \<times> bool) option"
  thread_handle :: bool
  cleanup_tmr :: "bool option"

definition cloud_cleanup_files_is_running :: "cleanup_ctl \<Rightarrow> bool" where
  "cloud_cleanup_files_is_running c = thread_handle c"

text \<open>\<open>thread\<close>: what its end does to the control state.\<close>

definition thread_end :: "cleanup_ctl \<Rightarrow> cleanup_ctl" where
  "thread_end c = c\<lparr>thread_handle := False,
     event_group := map_option (\<lambda>(s, _). (s, True)) (event_group c)\<rparr>"

definition cloud_cleanup_files_stop :: "cleanup_ctl \<Rightarrow> bool \<times> cleanup_ctl" where
  "cloud_cleanup_files_stop c0 =
     (let c = c0\<lparr>cleanup_tmr := map_option (\<lambda>_. False) (cleanup_tmr c0)\<rparr>
      in case event_group c of
           None \<Rightarrow> (True, c)
         | Some (s, d) \<Rightarrow>
             if \<not> cloud_cleanup_files_is_running c then (True, c)
             else (let c' = thread_end (c\<lparr>event_group := Some (True, d)\<rparr>)
                   in (True, c'\<lparr>event_group := map_option (\<lambda>(s, _). (s, False)) (event_group c')\<rparr>)))"

definition cloud_cleanup_files_start ::
  "bool \<Rightarrow> bool \<Rightarrow> bool \<Rightarrow> nat \<Rightarrow> cleanup_ctl \<Rightarrow> bool \<times> cleanup_ctl" where
  "cloud_cleanup_files_start group_ok task_ok timer_ok delay_ms c =
     (if delay_ms = 0 then
        (case (if cloud_cleanup_files_is_running c then cloud_cleanup_files_stop c else (True, c)) of
           (False, c1) \<Rightarrow> (False, c1)
         | (True, c1) \<Rightarrow>
             if \<not> group_ok then (False, c1\<lparr>event_group := None\<rparr>)
             else (task_ok, c1\<lparr>event_group := Some (False, False), thread_handle := task_ok\<rparr>))
      else
        (case cleanup_tmr c of
           None \<Rightarrow> if timer_ok then (True, c\<lparr>cleanup_tmr := Some True\<rparr>) else (False, c)
         | Some _ \<Rightarrow> (True, c\<lparr>cleanup_tmr := Some True\<rparr>)))"

lemma stop_stops [simp]:
  "(thread_handle c \<longrightarrow> event_group c \<noteq> None) \<Longrightarrow>
     fst (cloud_cleanup_files_stop c) \<and>
     \<not> cloud_cleanup_files_is_running (snd (cloud_cleanup_files_stop c)) \<and>
     cleanup_tmr (snd (cloud_cleanup_files_stop c)) \<noteq> Some True"
  by (auto simp: cloud_cleanup_files_stop_def cloud_cleanup_files_is_running_def thread_end_def Let_def
      split: option.splits)

end
