(* ===== verification/Downloader.thy ===== *)
theory Downloader
  imports Prelude StreamPlaylist Files Track PdjsonHelper Traverse CleanupFiles
begin

text \<open>
  \<open>src/firmware/main/playlist/cloud/downloader.c\<close>: the task that downloads the media files
  of a new playlist and then installs it. Each call of \<open>file_download_start\<close> appends the
  bytes it received to the temporary file and gives a status; \<open>attempts\<close> says what the
  n-th call for an address does. The retry loop ends only on a good status or a stop, so it is
  a partial function: None is a loop that never ends.
\<close>

datatype DownloadResult_t = DOWNLOAD_FILE_ERROR | DOWNLOAD_FILE_OK | DOWNLOAD_FILE_EXISTS

type_synonym attempts = "string \<Rightarrow> nat \<Rightarrow> int \<times> string"

record dl =
  fs :: files
  polls_done :: nat
  attempt :: nat
  requests :: "string list"
  notified :: "nat list"

definition CLOUD_SCHEDULER_FILES_PATH :: string where
  "CLOUD_SCHEDULER_FILES_PATH = ''/sdcard/cloud/mediafiles''"

definition CLOUD_SCHEDULER_PLAYLIST_FILENAME :: string where
  "CLOUD_SCHEDULER_PLAYLIST_FILENAME = ''playlist.json''"

definition CLOUD_SCHEDULER_PLAYLIST_PATH :: string where
  "CLOUD_SCHEDULER_PLAYLIST_PATH =
     newpath CLOUD_SCHEDULER_FILES_PATH CLOUD_SCHEDULER_PLAYLIST_FILENAME"

section \<open>One file\<close>

text \<open>\<open>fopen(path, "ab+")\<close> creates the file; what arrives goes to its end.\<close>

definition append_to :: "string \<Rightarrow> string \<Rightarrow> files \<Rightarrow> files" where
  "append_to path bytes f = f(path \<mapsto> (case f path of Some old \<Rightarrow> old | None \<Rightarrow> []) @ bytes)"

definition file_download :: "attempts \<Rightarrow> string \<Rightarrow> string \<Rightarrow> dl \<Rightarrow> int \<times> dl" where
  "file_download att url path d =
     (case att url (attempt d) of (status, bytes) \<Rightarrow>
        (status, d\<lparr>fs := append_to path bytes (fs d), attempt := attempt d + 1,
                   requests := requests d @ [url]\<rparr>))"

definition poll :: "nat option \<Rightarrow> dl \<Rightarrow> bool \<times> dl" where
  "poll stop_at d = (is_stopping stop_at (polls_done d), d\<lparr>polls_done := polls_done d + 1\<rparr>)"

partial_function (option) download_retry ::
  "attempts \<Rightarrow> nat option \<Rightarrow> string \<Rightarrow> string \<Rightarrow> dl \<Rightarrow> dl option" where
  "download_retry att stop_at url path d =
     (case file_download att url path d of (status, d1) \<Rightarrow>
        (case poll stop_at d1 of (stopping, d2) \<Rightarrow>
           if stopping then Some d2
           else if status < 200 \<or> status > 299 then download_retry att stop_at url path d2
           else Some d2))"

definition full_url :: "string \<Rightarrow> string \<Rightarrow> string" where
  "full_url server_url url =
     (if starts_with ''http'' url then url
      else if starts_with ''/'' url then server_url @ url
      else server_url @ ''/'' @ url)"

definition download_file ::
  "attempts \<Rightarrow> string \<Rightarrow> nat option \<Rightarrow> string \<Rightarrow> string \<Rightarrow> dl \<Rightarrow> (DownloadResult_t \<times> dl) option" where
  "download_file att server_url stop_at url name d =
     (let permanent = newpath CLOUD_SCHEDULER_FILES_PATH name;
          temp = newpath TEMPFILE_DIR name
      in if \<not> file_exists (fs d) permanent then
           (case download_retry att stop_at (full_url server_url url) temp d of
              None \<Rightarrow> None
            | Some d1 \<Rightarrow>
              (case poll stop_at d1 of (stopping, d2) \<Rightarrow>
                 if stopping
                 then Some (DOWNLOAD_FILE_ERROR, d2\<lparr>fs := snd (remove_file temp (fs d2))\<rparr>)
                 else Some (DOWNLOAD_FILE_OK, d2\<lparr>fs := snd (rename_file temp permanent (fs d2))\<rparr>)))
         else Some (DOWNLOAD_FILE_EXISTS, d))"

section \<open>The playlist\<close>

record extraction =
  url_buf :: string
  filename_buf :: string
  url_found :: bool
  filename_found :: bool
  files_done :: nat

definition extract_zero :: extraction where
  "extract_zero = \<lparr>url_buf = [], filename_buf = [], url_found = False, filename_found = False, files_done = 0\<rparr>"

text \<open>
  One string: None for a string that is too long for its buffer; its length counts the NUL.
\<close>

definition take_string :: "string \<Rightarrow> extraction \<Rightarrow> extraction option" where
  "take_string str x =
     (let s = cstr str; len = length str + 1
      in if url_found x then
           (if len > 2048 then None else Some (x\<lparr>url_buf := s, url_found := False\<rparr>))
         else if s = ''url'' then Some (x\<lparr>url_found := True\<rparr>)
         else if filename_found x then
           (if len > 256 then None else Some (x\<lparr>filename_buf := s, filename_found := False\<rparr>))
         else if s = ''filename'' then Some (x\<lparr>filename_found := True\<rparr>)
         else Some x)"

text \<open>The loop: None is a download that never ends, Some the answer.\<close>

fun extract_loop ::
  "attempts \<Rightarrow> string \<Rightarrow> nat option \<Rightarrow> json_event list \<Rightarrow> extraction \<Rightarrow> dl \<Rightarrow> (bool \<times> dl) option" where
  "extract_loop att server stop_at [] x d = Some (True, d)"
| "extract_loop att server stop_at (t # ts) x d =
     (case (case t of
              JSON_STRING s \<Rightarrow>
                (case take_string s x of
                   None \<Rightarrow> Some (False, x, d)
                 | Some x1 \<Rightarrow>
                     if url_buf x1 \<noteq> [] \<and> filename_buf x1 \<noteq> [] then
                       (case download_file att server stop_at (url_buf x1) (filename_buf x1) d of
                          None \<Rightarrow> None
                        | Some (DOWNLOAD_FILE_ERROR, d1) \<Rightarrow> Some (False, x1, d1)
                        | Some (r, d1) \<Rightarrow>
                            let n = files_done x1 + 1
                            in Some (True, extract_zero\<lparr>files_done := n\<rparr>,
                                 if r = DOWNLOAD_FILE_EXISTS then d1
                                 else d1\<lparr>notified := notified d1 @ [n]\<rparr>))
                     else Some (True, x1, d))
            | JSON_OBJECT_END \<Rightarrow> Some (True, extract_zero\<lparr>files_done := files_done x\<rparr>, d)
            | JSON_ERROR \<Rightarrow> Some (False, x, d)
            | _ \<Rightarrow> Some (True, x, d)) of
        None \<Rightarrow> None
      | Some (False, x1, d1) \<Rightarrow> Some (False, d1)
      | Some (True, x1, d1) \<Rightarrow>
          if t = JSON_DONE then Some (True, d1)
          else (case poll stop_at d1 of (stopping, d2) \<Rightarrow>
                  if stopping then Some (True, d2)
                  else extract_loop att server stop_at ts x1 d2))"

definition extract_and_download ::
  "attempts \<Rightarrow> string \<Rightarrow> nat option \<Rightarrow> json_event list \<Rightarrow> dl \<Rightarrow> (bool \<times> dl) option" where
  "extract_and_download att server stop_at json d = extract_loop att server stop_at json extract_zero d"

definition download_from_playlist ::
  "attempts \<Rightarrow> string \<Rightarrow> nat option \<Rightarrow> json_event list \<Rightarrow> dl \<Rightarrow> (bool \<times> dl) option" where
  "download_from_playlist = extract_and_download"

section \<open>The retry loop\<close>

lemma retry_step:
  "download_retry att None url path d =
     (let d2 = snd (poll None (snd (file_download att url path d)))
      in if fst (att url (attempt d)) < 200 \<or> fst (att url (attempt d)) > 299
         then download_retry att None url path d2 else Some d2)"
  by (subst download_retry.simps)
     (simp add: file_download_def poll_def is_stopping_def Let_def split: prod.splits)

definition received :: "attempts \<Rightarrow> string \<Rightarrow> nat \<Rightarrow> nat \<Rightarrow> string" where
  "received att url n k = concat (map (\<lambda>j. snd (att url j)) [n..<n + k])"

definition old_text :: "files \<Rightarrow> string \<Rightarrow> string" where
  "old_text f path = (case f path of Some t \<Rightarrow> t | None \<Rightarrow> [])"

definition good_status :: "int \<Rightarrow> bool" where
  "good_status st = (200 \<le> st \<and> st \<le> 299)"

text \<open>
  Without a stop the loop ends at the first good status; the file then holds what it held
  before and the bodies of all attempts, the failed ones included.
\<close>

lemma retry_result:
  "good_status (fst (att url (attempt d + k))) \<Longrightarrow>
   (\<forall>j<k. \<not> good_status (fst (att url (attempt d + j)))) \<Longrightarrow>
   download_retry att None url path d =
     Some (d\<lparr>fs := (fs d)(path \<mapsto> old_text (fs d) path @ received att url (attempt d) (Suc k)),
             attempt := attempt d + Suc k, polls_done := polls_done d + Suc k,
             requests := requests d @ replicate (Suc k) url\<rparr>)"
proof (induction k arbitrary: d)
  case 0
  then show ?case
    by (subst retry_step)
       (simp add: good_status_def file_download_def poll_def append_to_def old_text_def received_def
         Let_def split: prod.splits)
next
  case (Suc k)
  let ?d = "snd (poll None (snd (file_download att url path d)))"
  have d: "?d = d\<lparr>fs := (fs d)(path \<mapsto> old_text (fs d) path @ snd (att url (attempt d))),
      attempt := attempt d + 1, polls_done := polls_done d + 1, requests := requests d @ [url]\<rparr>"
    by (simp add: file_download_def poll_def append_to_def old_text_def split: prod.splits)
  have "\<not> good_status (fst (att url (attempt d)))"
    using Suc.prems(2) by (metis add.right_neutral zero_less_Suc)
  then have "download_retry att None url path d = download_retry att None url path ?d"
    by (subst retry_step) (auto simp: good_status_def Let_def)
  also have "\<dots> = Some (?d\<lparr>fs := (fs ?d)(path \<mapsto> old_text (fs ?d) path @
        received att url (attempt ?d) (Suc k)),
      attempt := attempt ?d + Suc k, polls_done := polls_done ?d + Suc k,
      requests := requests ?d @ replicate (Suc k) url\<rparr>)"
    using Suc.prems by (intro Suc.IH) (auto simp: d)
  also have "snd (att url (attempt d)) @ received att url (Suc (attempt d)) (Suc k) =
      received att url (attempt d) (Suc (Suc k))"
    by (simp add: received_def upt_conv_Cons del: upt_Suc)
  then have "Some (?d\<lparr>fs := (fs ?d)(path \<mapsto> old_text (fs ?d) path @
        received att url (attempt ?d) (Suc k)),
      attempt := attempt ?d + Suc k, polls_done := polls_done ?d + Suc k,
      requests := requests ?d @ replicate (Suc k) url\<rparr>) =
    Some (d\<lparr>fs := (fs d)(path \<mapsto> old_text (fs d) path @ received att url (attempt d) (Suc (Suc k))),
             attempt := attempt d + Suc (Suc k), polls_done := polls_done d + Suc (Suc k),
             requests := requests d @ replicate (Suc (Suc k)) url\<rparr>)"
    unfolding d by (simp add: old_text_def)
  finally show ?case .
qed

definition permanent :: "string \<Rightarrow> string" where
  "permanent f = newpath CLOUD_SCHEDULER_FILES_PATH f"

definition temporary :: "string \<Rightarrow> string" where
  "temporary f = newpath TEMPFILE_DIR f"

lemma temporary_permanent [simp]: "temporary f \<noteq> permanent g" "permanent g \<noteq> temporary f"
  by (simp_all add: temporary_def permanent_def newpath_def TEMPFILE_DIR_def CLOUD_SCHEDULER_FILES_PATH_def)

lemma first_good:
  fixes n :: nat
  assumes "\<exists>k. good_status (fst (att url (n + k)))"
  shows "\<exists>k. good_status (fst (att url (n + k))) \<and> (\<forall>j<k. \<not> good_status (fst (att url (n + j))))"
  using assms exists_least_iff [of "\<lambda>k. good_status (fst (att url (n + k)))"] by blast

lemma download_file_fetches:
  assumes "fs d (permanent f) = None"
    and "good_status (fst (att (full_url server u) (attempt d + k)))"
    and "\<forall>j<k. \<not> good_status (fst (att (full_url server u) (attempt d + j)))"
  shows "\<exists>d'. download_file att server None u f d = Some (DOWNLOAD_FILE_OK, d') \<and>
     fs d' = (fs d)(temporary f := None, permanent f \<mapsto>
       old_text (fs d) (temporary f) @ received att (full_url server u) (attempt d) (Suc k)) \<and>
     notified d' = notified d"
  using assms retry_result [of att "full_url server u" d k "temporary f"]
  by (auto simp: download_file_def file_exists_def poll_def is_stopping_def rename_file_def
      permanent_def [symmetric] temporary_def [symmetric] Let_def fun_upd_twist)

text \<open>
  A missing file whose n-th download attempt is the first to answer a status of 200 to
  299 is installed under its name with the bytes of the failed attempts, error pages included,
  in front of those of the good one, after whatever an earlier run left in the temporary
  file: the temporary file is opened for appending on each attempt and never truncated.
\<close>

theorem retry_appends:
  assumes "fs d (permanent f) = None" and "fs d (temporary f) = None"
    and "att (full_url server u) (attempt d) = (404, err)"
    and "att (full_url server u) (Suc (attempt d)) = (200, body)"
  shows "\<exists>d'. download_file att server None u f d = Some (DOWNLOAD_FILE_OK, d') \<and>
     fs d' (permanent f) = Some (err @ body) \<and> fs d' (temporary f) = None"
proof -
  have "\<exists>d'. download_file att server None u f d = Some (DOWNLOAD_FILE_OK, d') \<and>
     fs d' = (fs d)(temporary f := None, permanent f \<mapsto>
       old_text (fs d) (temporary f) @ received att (full_url server u) (attempt d) (Suc 1)) \<and>
     notified d' = notified d"
    by (rule download_file_fetches) (use assms in \<open>auto simp: good_status_def\<close>)
  then show ?thesis
    using assms by (auto simp: old_text_def received_def)
qed

definition flaky :: attempts where
  "flaky u n = (if n = 0 then (404, ''not found'') else (200, ''audio''))"

definition empty_card :: dl where
  "empty_card = \<lparr>fs = Map.empty, polls_done = 0, attempt = 0, requests = [], notified = []\<rparr>"

theorem retry_appends_witness:
  "\<exists>d'. download_file flaky ''https://s'' None ''/m/1'' ''song.mp3'' empty_card =
      Some (DOWNLOAD_FILE_OK, d') \<and>
     fs d' (permanent ''song.mp3'') = Some (''not found'' @ ''audio'') \<and>
     fs d' (temporary ''song.mp3'') = None"
  by (rule retry_appends) (simp_all add: flaky_def empty_card_def)

section \<open>The whole playlist\<close>

text \<open>No media file is lost, and no file but those named in \<open>F\<close> and their temporary files is touched.\<close>

definition keeps :: "string set \<Rightarrow> dl \<Rightarrow> dl \<Rightarrow> bool" where
  "keeps F d d' = ((\<forall>g. fs d (permanent g) \<noteq> None \<longrightarrow> fs d' (permanent g) \<noteq> None) \<and>
     (\<forall>p. p \<notin> temporary ` F \<longrightarrow> p \<notin> permanent ` F \<longrightarrow> fs d' p = fs d p))"

lemma keeps_refl [simp]: "fs d' = fs d \<Longrightarrow> keeps F d d'"
  by (simp add: keeps_def)

lemma keeps_trans: "keeps F a b \<Longrightarrow> keeps G b c \<Longrightarrow> keeps (F \<union> G) a c"
  by (auto simp: keeps_def image_Un)

definition server_answers :: "attempts \<Rightarrow> bool" where
  "server_answers att = (\<forall>u n. \<exists>k. good_status (fst (att u (n + k))))"

lemma download_file_present:
  assumes "server_answers att"
  shows "\<exists>r d'. download_file att server None u f d = Some (r, d') \<and> r \<noteq> DOWNLOAD_FILE_ERROR \<and>
     fs d' (permanent f) \<noteq> None \<and> keeps {f} d d'"
proof (cases "fs d (permanent f)")
  case None
  obtain k where k: "good_status (fst (att (full_url server u) (attempt d + k)))"
    "\<forall>j<k. \<not> good_status (fst (att (full_url server u) (attempt d + j)))"
  proof -
    have "\<exists>k. good_status (fst (att (full_url server u) (attempt d + k)))"
      using assms unfolding server_answers_def by blast
    from first_good [of att "full_url server u" "attempt d", OF this] show ?thesis
      using that by blast
  qed
  obtain d' where "download_file att server None u f d = Some (DOWNLOAD_FILE_OK, d')"
    "fs d' = (fs d)(temporary f := None, permanent f \<mapsto>
       old_text (fs d) (temporary f) @ received att (full_url server u) (attempt d) (Suc k))"
    using download_file_fetches [of d f att server u k, OF None k] by blast
  then show ?thesis by (auto simp: keeps_def)
next
  case (Some c)
  then show ?thesis
    by (simp add: download_file_def file_exists_def permanent_def [symmetric])
qed

definition idle_x :: "nat \<Rightarrow> extraction" where
  "idle_x n = extract_zero\<lparr>files_done := n\<rparr>"

definition neutral :: "json_event \<Rightarrow> bool" where
  "neutral t = (case t of JSON_STRING s \<Rightarrow> cstr s \<noteq> ''url'' \<and> cstr s \<noteq> ''filename''
     | JSON_DONE \<Rightarrow> False | JSON_ERROR \<Rightarrow> False | _ \<Rightarrow> True)"

lemma extract_neutral_step:
  "neutral t \<Longrightarrow> extract_loop att server None (t # ts) (idle_x n) d =
     extract_loop att server None ts (idle_x n) (d\<lparr>polls_done := polls_done d + 1\<rparr>)"
proof (cases "\<exists>s. t = JSON_STRING s")
  case True
  assume n: "neutral t"
  then obtain s where t: "t = JSON_STRING s" and s: "cstr s \<noteq> ''url''" "cstr s \<noteq> ''filename''"
    using True by (auto simp: neutral_def)
  then have "take_string s (idle_x n) = Some (idle_x n)"
    by (simp add: take_string_def idle_x_def extract_zero_def Let_def)
  moreover have "url_buf (idle_x n) = []"
    by (simp add: idle_x_def extract_zero_def)
  ultimately show ?thesis
    unfolding t by (simp add: poll_def is_stopping_def)
next
  case False
  assume "neutral t"
  with False show ?thesis
    by (cases t) (simp_all add: neutral_def poll_def is_stopping_def idle_x_def extract_zero_def)
qed

lemma extract_neutral:
  "list_all neutral ts \<Longrightarrow>
   extract_loop att server None (ts @ rest) (idle_x n) d =
   extract_loop att server None rest (idle_x n) (d\<lparr>polls_done := polls_done d + length ts\<rparr>)"
  by (induction ts arbitrary: d) (simp_all add: extract_neutral_step del: extract_loop.simps)

fun entry_url :: "playlist_entry \<Rightarrow> string" where
  "entry_url (Background u f n) = u"
| "entry_url (Advert u f n ivs) = u"

fun entry_file :: "playlist_entry \<Rightarrow> string" where
  "entry_file (Background u f n) = f"
| "entry_file (Advert u f n ivs) = f"

fun entry_rest :: "playlist_entry \<Rightarrow> json_event list" where
  "entry_rest e = drop 5 (entry_events e)"

definition loadable :: "playlist_entry \<Rightarrow> bool" where
  "loadable e =
     (is_cstr (entry_url e) \<and> is_cstr (entry_file e) \<and> entry_url e \<noteq> [] \<and> entry_file e \<noteq> [] \<and>
      length (entry_url e) < 2048 \<and> length (entry_file e) < 256 \<and> entry_file e \<noteq> ''url'' \<and>
      list_all neutral (entry_rest e))"

lemma entry_split:
  "entry_events e = [JSON_OBJECT, JSON_STRING ''url'', JSON_STRING (entry_url e),
     JSON_STRING ''filename'', JSON_STRING (entry_file e)] @ entry_rest e"
  by (cases e) auto

lemma extract_entry:
  assumes "server_answers att" and "loadable e"
  shows "\<exists>d' m. extract_loop att server None (entry_events e @ rest) (idle_x n) d =
       extract_loop att server None rest (idle_x m) d' \<and>
     fs d' (permanent (entry_file e)) \<noteq> None \<and> keeps {entry_file e} d d'"
proof -
  let ?d = "d\<lparr>polls_done := polls_done d + 4\<rparr>"
  let ?x = "\<lparr>url_buf = entry_url e, filename_buf = entry_file e, url_found = False,
      filename_found = False, files_done = n\<rparr>"
  obtain r d1 where r: "download_file att server None (entry_url e) (entry_file e) ?d = Some (r, d1)"
    "r \<noteq> DOWNLOAD_FILE_ERROR" "fs d1 (permanent (entry_file e)) \<noteq> None" "keeps {entry_file e} ?d d1"
    using download_file_present [OF assms(1)] by blast
  define d2 where "d2 = (if r = DOWNLOAD_FILE_EXISTS then d1 else d1\<lparr>notified := notified d1 @ [n + 1]\<rparr>)"
  define d3 where "d3 = d2\<lparr>polls_done := polls_done d2 + 1\<rparr>"
  have "extract_loop att server None (entry_events e @ rest) (idle_x n) d =
      extract_loop att server None (entry_rest e @ rest) (idle_x (n + 1)) d3"
    using assms(2) r
    by (cases r) (simp_all add: entry_split loadable_def idle_x_def extract_zero_def take_string_def
        poll_def is_stopping_def Let_def d2_def d3_def numeral_eq_Suc del: entry_rest.simps)
  also have "\<dots> = extract_loop att server None rest (idle_x (n + 1))
      (d3\<lparr>polls_done := polls_done d3 + length (entry_rest e)\<rparr>)"
    using assms(2) by (intro extract_neutral) (simp add: loadable_def)
  finally have step: "extract_loop att server None (entry_events e @ rest) (idle_x n) d =
      extract_loop att server None rest (idle_x (n + 1))
        (d3\<lparr>polls_done := polls_done d3 + length (entry_rest e)\<rparr>)" .
  have "fs d3 = fs d1" by (simp add: d2_def d3_def)
  with r(3,4) step show ?thesis
    by (intro exI [of _ "d3\<lparr>polls_done := polls_done d3 + length (entry_rest e)\<rparr>"]
        exI [of _ "n + 1"]) (simp add: keeps_def)
qed

lemma extract_entries:
  "server_answers att \<Longrightarrow> list_all loadable es \<Longrightarrow>
   \<exists>d' m. extract_loop att server None (concat (map entry_events es) @ rest) (idle_x n) d =
       extract_loop att server None rest (idle_x m) d' \<and>
     (\<forall>e\<in>set es. fs d' (permanent (entry_file e)) \<noteq> None) \<and> keeps (entry_file ` set es) d d'"
proof (induction es arbitrary: n d)
  case Nil
  then show ?case by (intro exI [of _ d] exI [of _ n]) simp
next
  case (Cons e es)
  obtain d1 m where 1: "extract_loop att server None (entry_events e @ concat (map entry_events es) @ rest) (idle_x n) d =
      extract_loop att server None (concat (map entry_events es) @ rest) (idle_x m) d1"
    "fs d1 (permanent (entry_file e)) \<noteq> None" "keeps {entry_file e} d d1"
    using extract_entry [of att e] Cons.prems by fastforce
  obtain d2 k where 2: "extract_loop att server None (concat (map entry_events es) @ rest) (idle_x m) d1 =
      extract_loop att server None rest (idle_x k) d2"
    "\<forall>e\<in>set es. fs d2 (permanent (entry_file e)) \<noteq> None" "keeps (entry_file ` set es) d1 d2"
    using Cons by fastforce
  have "fs d2 (permanent (entry_file e)) \<noteq> None"
    using 1(2) 2(3) by (simp add: keeps_def)
  moreover have "keeps (entry_file ` set (e # es)) d d2" using keeps_trans [OF 1(3) 2(3)] by simp
  ultimately show ?case using 1(1) 2(1,2) by (intro exI [of _ d2] exI [of _ k]) simp
qed

lemma extract_end:
  "extract_loop att server None [JSON_ARRAY_END, JSON_DONE] (idle_x n) d = Some (True, d\<lparr>polls_done := polls_done d + 1\<rparr>)"
  by (simp add: poll_def is_stopping_def)



section \<open>The task and its control\<close>

text \<open>What the task asks of the other components, in order.\<close>

datatype dl_action =
    CleanupStop
  | CleanupStart
  | SetSynchronizing bool
  | OfflineDeinit
  | CloudDeinit
  | CloudInit
  | SendAckOk nat
  | SendAckFail nat

text \<open>
  The playlist's temporary file is given by its path, its text is read as JSON by
  \<open>json_of\<close>; \<open>mkdir_ok\<close> is the outcome of \<open>mkdir_p\<close>.
\<close>

definition downloader_work ::
  "attempts \<Rightarrow> string \<Rightarrow> nat option \<Rightarrow> (string \<Rightarrow> json_event list) \<Rightarrow> bool \<Rightarrow> string option \<Rightarrow> dl \<Rightarrow>
     (bool \<times> dl_action list \<times> dl) option" where
  "downloader_work att server stop_at json_of mkdir_ok tmp_playlist d =
     (case tmp_playlist of
        None \<Rightarrow> Some (False, [], d)
      | Some tmp \<Rightarrow>
          if \<not> mkdir_ok then Some (False, [], d)
          else (case download_from_playlist att server stop_at (json_of (old_text (fs d) tmp)) d of
                  None \<Rightarrow> None
                | Some (False, d1) \<Rightarrow> Some (False, [OfflineDeinit], d1)
                | Some (True, d1) \<Rightarrow>
                    (let fs1 = snd (remove_file CLOUD_SCHEDULER_PLAYLIST_PATH (fs d1));
                         (renamed, fs2) = rename_file tmp CLOUD_SCHEDULER_PLAYLIST_PATH fs1
                     in Some (renamed, [OfflineDeinit, CleanupStop, CloudDeinit, CloudInit, CleanupStart],
                          d1\<lparr>fs := fs2\<rparr>))))"

definition downloader_thread ::
  "attempts \<Rightarrow> string \<Rightarrow> nat option \<Rightarrow> (string \<Rightarrow> json_event list) \<Rightarrow> bool \<Rightarrow> string option \<Rightarrow> nat \<Rightarrow> dl \<Rightarrow>
     (dl_action list \<times> dl) option" where
  "downloader_thread att server stop_at json_of mkdir_ok tmp_playlist sequence d =
     (case downloader_work att server stop_at json_of mkdir_ok tmp_playlist d of
        None \<Rightarrow> None
      | Some (success, actions, d1) \<Rightarrow>
        (case poll stop_at d1 of (stopping, d2) \<Rightarrow>
           Some ([CleanupStop, SetSynchronizing True] @ actions @
                 (if stopping then [] else if success then [SendAckOk sequence] else [SendAckFail sequence]) @
                 [SetSynchronizing False], d2)))"

text \<open>The control bits: running, stop, stopped.\<close>

record dl_ctl =
  running_bit :: bool
  stop_bit :: bool
  stopped_bit :: bool

definition cloud_downloader_is_running :: "dl_ctl option \<Rightarrow> bool" where
  "cloud_downloader_is_running g = (case g of None \<Rightarrow> False | Some c \<Rightarrow> running_bit c)"

text \<open>A stop waits for the end of the task, which clears the running bit and sets the stopped bit.\<close>

definition cloud_downloader_stop :: "dl_ctl option \<Rightarrow> bool \<times> dl_ctl option" where
  "cloud_downloader_stop g =
     (if \<not> cloud_downloader_is_running g then (True, g)
      else (True, map_option (\<lambda>c. c\<lparr>stop_bit := True, running_bit := False, stopped_bit := False\<rparr>) g))"

definition cloud_downloader_start :: "bool \<Rightarrow> bool \<Rightarrow> dl_ctl option \<Rightarrow> bool \<times> dl_ctl option" where
  "cloud_downloader_start group_ok task_ok g =
     (case (if g = None \<and> group_ok
            then Some \<lparr>running_bit = False, stop_bit = False, stopped_bit = False\<rparr> else g) of
        None \<Rightarrow> (False, None)
      | Some c \<Rightarrow>
        (case (if cloud_downloader_is_running (Some c) then cloud_downloader_stop (Some c) else (True, Some c)) of
           (False, g') \<Rightarrow> (False, g')
         | (True, g') \<Rightarrow>
             (task_ok, map_option (\<lambda>c. c\<lparr>running_bit := False, stop_bit := False, stopped_bit := False\<rparr>) g')))"

text \<open>
  A stop that arrives between two files ends the loop with success, so the task still
  replaces the playlist by the new one although none of the files after that point was
  downloaded; here the stop is seen at the first poll and no file is.
\<close>

theorem stopped_download_installs:
  assumes "fs d tmp = Some text" and "json_of text = playlist_events es"
    and "tmp \<noteq> CLOUD_SCHEDULER_PLAYLIST_PATH" and "polls_done d = 0"
  shows "\<exists>actions d'. downloader_thread att server (Some 0) json_of True (Some tmp) sequence d =
       Some (actions, d') \<and>
     fs d' = (fs d)(tmp := None, CLOUD_SCHEDULER_PLAYLIST_PATH \<mapsto> text) \<and>
     requests d' = requests d \<and> CloudInit \<in> set actions"
proof -
  have "download_from_playlist att server (Some 0) (playlist_events es) d =
      Some (True, d\<lparr>polls_done := 1\<rparr>)"
    using assms(4) by (simp add: download_from_playlist_def extract_and_download_def
        playlist_events_def poll_def is_stopping_def)
  then show ?thesis
    using assms by (simp add: downloader_thread_def downloader_work_def old_text_def remove_file_def
        rename_file_def poll_def is_stopping_def Let_def fun_upd_twist)
qed

definition with_tmp :: dl where
  "with_tmp = empty_card\<lparr>fs := [''/sdcard/.tmp/1.tmp'' \<mapsto> ''[]'']\<rparr>"

theorem stopped_download_installs_witness:
  "\<exists>actions d'. downloader_thread flaky ''https://s'' (Some 0)
       (\<lambda>_. playlist_events [Background ''/m/1'' ''song.mp3'' 4]) True (Some ''/sdcard/.tmp/1.tmp'') 7 with_tmp =
       Some (actions, d') \<and>
     fs d' = (fs with_tmp)(''/sdcard/.tmp/1.tmp'' := None, CLOUD_SCHEDULER_PLAYLIST_PATH \<mapsto> ''[]'') \<and>
     requests d' = requests with_tmp \<and> CloudInit \<in> set actions"
  by (rule stopped_download_installs)
    (simp_all add: with_tmp_def empty_card_def CLOUD_SCHEDULER_PLAYLIST_PATH_def newpath_def
      CLOUD_SCHEDULER_FILES_PATH_def CLOUD_SCHEDULER_PLAYLIST_FILENAME_def)

end
