(* ===== verification/CloudScheduler.thy ===== *)
theory CloudScheduler
  imports Prelude StreamPlaylist Files Track PdjsonHelper Traverse Advertising CleanupFiles Downloader
begin

text \<open>
  \<open>src/firmware/main/playlist/cloud/scheduler.c\<close>: the player of the cloud playlist. The
  event group has the stop and the stopped bit; the timer is None before its creation and
  otherwise active or not; the one-place queue holds the advertising track that is to play
  next. While a track plays, the seconds timer may fire and another task may stop the
  scheduler: each track comes with the list of those events (past the end: none). The trace
  collects the reports and the calls of the player.
\<close>

datatype cloud_event =
    CloudTrackBegin Track_t
  | CloudPlayerStart string
  | CloudTrackEnd Track_t
  | CloudPlayerStop

datatype interruption =
    SecondsTimer "Track_t option"
  | StopScheduler

record cloud =
  card_files :: files
  event_group :: "(bool \<times> bool) option"
  thread_handle :: bool
  seconds_timer :: "bool option"
  override_queue :: "Track_t list option"
  ads :: ads_table
  trace :: "cloud_event list"
  during :: "interruption list list"

definition cloud_emit :: "cloud_event \<Rightarrow> cloud \<Rightarrow> cloud" where
  "cloud_emit e c = c\<lparr>trace := trace c @ [e]\<rparr>"

definition cloud_is_stopping :: "cloud \<Rightarrow> bool" where
  "cloud_is_stopping c = (case event_group c of None \<Rightarrow> False | Some (s, _) \<Rightarrow> s)"

definition cloud_scheduler_is_enabled :: "cloud \<Rightarrow> bool" where
  "cloud_scheduler_is_enabled c = file_exists (card_files c) CLOUD_SCHEDULER_PLAYLIST_PATH"

text \<open>The creations of the event group, the timer and the task may fail.\<close>

definition cloud_scheduler_init :: "bool \<Rightarrow> bool \<Rightarrow> bool \<Rightarrow> cloud \<Rightarrow> bool \<times> cloud" where
  "cloud_scheduler_init group_ok timer_ok task_ok c =
     (if \<not> cloud_scheduler_is_enabled c then (False, c)
      else if event_group c = None \<and> \<not> group_ok then (False, c)
      else
        (let c1 = c\<lparr>event_group := Some (False, False), thread_handle := False\<rparr>
         in if seconds_timer c1 = None \<and> \<not> timer_ok then (False, c1)
            else
              (let active = (case seconds_timer c1 of None \<Rightarrow> False | Some a \<Rightarrow> a);
                   c2 = c1\<lparr>seconds_timer := Some (\<not> active)\<rparr>
               in (task_ok, c2\<lparr>thread_handle := task_ok\<rparr>))))"

text \<open>
  The wait for the stopped bit ends when the thread has ended, which clears its handle.
\<close>

definition cloud_scheduler_deinit :: "cloud \<Rightarrow> bool \<times> cloud" where
  "cloud_scheduler_deinit c =
     (case event_group c of
        None \<Rightarrow> (False, c)
      | Some (s, d) \<Rightarrow>
          if \<not> thread_handle c then (True, c)
          else
            (let c1 = c\<lparr>seconds_timer := map_option (\<lambda>_. False) (seconds_timer c)\<rparr>;
                 c2 = cloud_emit CloudPlayerStop c1
             in (True, c2\<lparr>event_group := Some (True, False), thread_handle := False\<rparr>)))"

text \<open>The timer's callback, given the advertising track that is due in this second.\<close>

definition seconds_timer_callback :: "Track_t option \<Rightarrow> cloud \<Rightarrow> cloud" where
  "seconds_timer_callback ad_now c =
     (case ad_now of
        None \<Rightarrow> c
      | Some ad \<Rightarrow>
          cloud_emit CloudPlayerStop
            (c\<lparr>override_queue := map_option (\<lambda>q. if q = [] then [ad] else q) (override_queue c)\<rparr>))"

fun interrupt :: "interruption \<Rightarrow> cloud \<Rightarrow> cloud" where
  "interrupt (SecondsTimer ad) c = seconds_timer_callback ad c"
| "interrupt StopScheduler c =
     cloud_emit CloudPlayerStop
       (c\<lparr>event_group := map_option (\<lambda>(s, d). (True, d)) (event_group c),
          seconds_timer := map_option (\<lambda>_. False) (seconds_timer c)\<rparr>)"

definition player_start :: "string \<Rightarrow> cloud \<Rightarrow> cloud" where
  "player_start path c =
     (let c1 = cloud_emit (CloudPlayerStart path) c
      in case during c1 of
           [] \<Rightarrow> c1
         | is' # rest \<Rightarrow> fold interrupt is' (c1\<lparr>during := rest\<rparr>))"

definition cloud_play :: "Track_t \<Rightarrow> cloud \<Rightarrow> cloud" where
  "cloud_play t c =
     (case filename t of
        Ptr f \<Rightarrow>
          (let fullpath = newpath CLOUD_SCHEDULER_FILES_PATH f
           in if file_exists (card_files c) fullpath
              then cloud_emit (CloudTrackEnd t)
                     (player_start fullpath (cloud_emit (CloudTrackBegin t) c))
              else c)
      | _ \<Rightarrow> c)"

definition on_file_parse :: "Track_t \<Rightarrow> cloud \<Rightarrow> bool \<times> cloud" where
  "on_file_parse t c =
     (if cloud_is_stopping c then (False, c)
      else
        (let c1 = (case override_queue c of
                     Some (ad # q) \<Rightarrow>
                       (cloud_play ad (c\<lparr>override_queue := Some q\<rparr>))\<lparr>override_queue := Some []\<rparr>
                   | _ \<Rightarrow> c)
         in if cloud_is_stopping c1 then (False, c1)
            else (True, if track_type t = TRACK_BACKGROUND then cloud_play t c1 else c1)))"

text \<open>The thread, with a bound on its rounds; the playlist file is read anew in every round.\<close>

fun cloud_rounds :: "nat \<Rightarrow> (string \<Rightarrow> json_event list) \<Rightarrow> cloud \<Rightarrow> cloud option" where
  "cloud_rounds 0 json_of c = Some c"
| "cloud_rounds (Suc n) json_of c =
     (if cloud_is_stopping c then Some c
      else (case card_files c CLOUD_SCHEDULER_PLAYLIST_PATH of
              None \<Rightarrow> Some c
            | Some text \<Rightarrow>
              (case traverse_playlist (Some on_file_parse) (json_of text) c of
                 None \<Rightarrow> None
               | Some (_, c') \<Rightarrow> cloud_rounds n json_of c')))"

definition cloud_scheduler_thread :: "nat \<Rightarrow> (string \<Rightarrow> json_event list) \<Rightarrow> cloud \<Rightarrow> cloud option" where
  "cloud_scheduler_thread n json_of c =
     (case advertising_init (map_option json_of (card_files c CLOUD_SCHEDULER_PLAYLIST_PATH)) (ads c) of
        None \<Rightarrow> None
      | Some (_, table) \<Rightarrow>
        (case cloud_rounds n json_of (c\<lparr>override_queue := Some [], ads := table\<rparr>) of
           None \<Rightarrow> None
         | Some c1 \<Rightarrow>
           (case advertising_deinit (ads c1) of
              None \<Rightarrow> None
            | Some table' \<Rightarrow>
                Some (c1\<lparr>ads := table', override_queue := None,
                         event_group := map_option (\<lambda>(s, d). (s, True)) (event_group c1),
                         thread_handle := False\<rparr>))))"

section \<open>Properties\<close>

definition cloud_track_events :: "files \<Rightarrow> Track_t \<Rightarrow> cloud_event list" where
  "cloud_track_events f t =
     (case filename t of
        Ptr n \<Rightarrow>
          if file_exists f (newpath CLOUD_SCHEDULER_FILES_PATH n)
          then [CloudTrackBegin t, CloudPlayerStart (newpath CLOUD_SCHEDULER_FILES_PATH n), CloudTrackEnd t]
          else []
      | _ \<Rightarrow> [])"

definition undisturbed :: "cloud \<Rightarrow> bool" where
  "undisturbed c = (\<not> cloud_is_stopping c \<and> during c = [] \<and> override_queue c = Some [])"

lemma cloud_play_quiet:
  "during c = [] \<Longrightarrow> cloud_play t c = c\<lparr>trace := trace c @ cloud_track_events (card_files c) t\<rparr>"
  by (simp add: cloud_play_def player_start_def cloud_emit_def cloud_track_events_def Let_def
      split: cptr.splits)

lemma on_file_parse_quiet:
  "undisturbed c \<Longrightarrow> on_file_parse t c =
     (True, c\<lparr>trace := trace c @
        (if track_type t = TRACK_BACKGROUND then cloud_track_events (card_files c) t else [])\<rparr>)"
  by (auto simp: undisturbed_def on_file_parse_def cloud_play_quiet Let_def)

lemma undisturbed_trace [simp]: "undisturbed (c\<lparr>trace := x\<rparr>) = undisturbed c"
  by (simp add: undisturbed_def cloud_is_stopping_def)

lemma visit_quiet:
  "undisturbed c \<Longrightarrow> visit on_file_parse ts c =
     c\<lparr>trace := trace c @ concat (map (cloud_track_events (card_files c))
        (filter (\<lambda>t. track_type t = TRACK_BACKGROUND) ts))\<rparr>"
  by (induction ts arbitrary: c) (auto simp: on_file_parse_quiet)

text \<open>
  An undisturbed round plays the background tracks of the playlist, in order, each whose
  file is on the card, between its begin and end report, and skips the others.
\<close>

theorem cloud_round_plays:
  assumes "undisturbed c" and "list_all plain_entry es"
    and "card_files c CLOUD_SCHEDULER_PLAYLIST_PATH = Some text" and "json_of text = playlist_events es"
  shows "cloud_rounds 1 json_of c = Some (c\<lparr>trace := trace c @
     concat (map (cloud_track_events (card_files c))
       (filter (\<lambda>t. track_type t = TRACK_BACKGROUND) (map track_of es)))\<rparr>)"
  using assms
  by (simp add: traverse_playlist_visit visit_quiet undisturbed_def [symmetric])
     (simp add: undisturbed_def)

text \<open>
  C40: when the timer fires for a due advertising track while a background track plays, the
  player is stopped, and the next track of the playlist is played only after that
  advertising track.
\<close>

theorem advert_interrupts:
  assumes "\<not> cloud_is_stopping c" and "override_queue c = Some []"
    and "during c = [[SecondsTimer (Some ad)]]"
    and "track_type t = TRACK_BACKGROUND" and "track_type u = TRACK_BACKGROUND"
    and "filename t = Ptr f" and "file_exists (card_files c) (newpath CLOUD_SCHEDULER_FILES_PATH f)"
  shows "trace (snd (on_file_parse u (snd (on_file_parse t c)))) = trace c @
     [CloudTrackBegin t, CloudPlayerStart (newpath CLOUD_SCHEDULER_FILES_PATH f), CloudPlayerStop,
      CloudTrackEnd t] @
     cloud_track_events (card_files c) ad @ cloud_track_events (card_files c) u"
proof -
  let ?p = "newpath CLOUD_SCHEDULER_FILES_PATH f"
  let ?c1 = "c\<lparr>trace := trace c @ [CloudTrackBegin t, CloudPlayerStart ?p, CloudPlayerStop, CloudTrackEnd t],
      during := [], override_queue := Some [ad]\<rparr>"
  have "on_file_parse t c = (True, ?c1)"
    using assms by (simp add: on_file_parse_def cloud_play_def player_start_def cloud_emit_def
        seconds_timer_callback_def Let_def)
  moreover have "\<not> cloud_is_stopping ?c1"
    using assms(1) by (simp add: cloud_is_stopping_def)
  ultimately show ?thesis
    using assms by (simp add: on_file_parse_def cloud_play_quiet cloud_is_stopping_def Let_def)
qed

text \<open>
  Starting the scheduler while its seconds timer runs stops the timer, so no advertising
  track is ever due afterwards. The timer does run when the thread has ended by itself (its
  playlist could not be opened): the shutdown then returns before it stops the timer.
\<close>

theorem restart_stops_timer:
  assumes "cloud_scheduler_is_enabled c" and "event_group c \<noteq> None"
    and "seconds_timer c = Some True" and "\<not> thread_handle c"
  shows "seconds_timer (snd (cloud_scheduler_deinit c)) = Some True \<and>
         fst (cloud_scheduler_init True True True (snd (cloud_scheduler_deinit c))) \<and>
         seconds_timer (snd (cloud_scheduler_init True True True (snd (cloud_scheduler_deinit c)))) = Some False"
  using assms by (auto simp: cloud_scheduler_init_def cloud_scheduler_deinit_def Let_def
      split: option.splits)

definition idle_cloud :: cloud where
  "idle_cloud = \<lparr>card_files = [CLOUD_SCHEDULER_PLAYLIST_PATH \<mapsto> ''[]'',
       newpath CLOUD_SCHEDULER_FILES_PATH ''song.mp3'' \<mapsto> ''audio''],
     event_group = Some (False, False), thread_handle = False, seconds_timer = Some True,
     override_queue = Some [], ads = [], trace = [], during = []\<rparr>"

theorem restart_stops_timer_witness:
  "seconds_timer (snd (cloud_scheduler_init True True True (snd (cloud_scheduler_deinit idle_cloud)))) =
     Some False"
proof -
  have "cloud_scheduler_is_enabled idle_cloud"
    by (simp add: cloud_scheduler_is_enabled_def idle_cloud_def file_exists_def)
  moreover have "event_group idle_cloud \<noteq> None" "seconds_timer idle_cloud = Some True"
    "\<not> thread_handle idle_cloud"
    by (simp_all add: idle_cloud_def)
  ultimately show ?thesis using restart_stops_timer [of idle_cloud] by blast
qed

lemma card_paths:
  "CLOUD_SCHEDULER_PLAYLIST_PATH \<noteq> newpath CLOUD_SCHEDULER_FILES_PATH ''song.mp3''"
  by (simp add: CLOUD_SCHEDULER_PLAYLIST_PATH_def newpath_def CLOUD_SCHEDULER_PLAYLIST_FILENAME_def)

definition song :: playlist_entry where
  "song = Background ''/m/1'' ''song.mp3'' 4"

theorem cloud_round_plays_witness:
  "cloud_rounds 1 (\<lambda>_. playlist_events [song]) idle_cloud = Some (idle_cloud\<lparr>trace :=
     trace idle_cloud @ concat (map (cloud_track_events (card_files idle_cloud))
       (filter (\<lambda>t. track_type t = TRACK_BACKGROUND) (map track_of [song])))\<rparr>)"
proof (rule cloud_round_plays)
  show "card_files idle_cloud CLOUD_SCHEDULER_PLAYLIST_PATH = Some ''[]''"
    using card_paths by (simp add: idle_cloud_def)
qed (simp_all add: undisturbed_def idle_cloud_def cloud_is_stopping_def song_def plain_def)

theorem advert_interrupts_witness:
  "trace (snd (on_file_parse (track_of song) (snd (on_file_parse (track_of song)
       (idle_cloud\<lparr>during := [[SecondsTimer (Some (track_of song))]]\<rparr>))))) =
   trace (idle_cloud\<lparr>during := [[SecondsTimer (Some (track_of song))]]\<rparr>) @
     [CloudTrackBegin (track_of song),
      CloudPlayerStart (newpath CLOUD_SCHEDULER_FILES_PATH ''song.mp3''), CloudPlayerStop,
      CloudTrackEnd (track_of song)] @
     cloud_track_events (card_files (idle_cloud\<lparr>during := [[SecondsTimer (Some (track_of song))]]\<rparr>))
       (track_of song) @
     cloud_track_events (card_files (idle_cloud\<lparr>during := [[SecondsTimer (Some (track_of song))]]\<rparr>))
       (track_of song)"
  by (rule advert_interrupts)
    (simp_all add: idle_cloud_def cloud_is_stopping_def song_def file_exists_def)

end
