(* ===== verification/Yuarel.thy ===== *)
theory Yuarel
  imports Prelude
begin

text \<open>
  \<open>src/firmware/components/libyuarel/yuarel.c\<close>: the parser of URLs that
  \<open>src/firmware/main/util/url.c\<close> calls. The parser cuts the text in place at its
  separators; the pieces are the strings between the cuts. A pointer that may be null is an option.
  Ports are 32-bit integers, kept as words; \<open>natoi\<close> wraps.
\<close>

record yuarel =
  scheme :: "string option"
  username :: "string option"
  password :: "string option"
  host :: "string option"
  port :: u32
  path :: "string option"
  query :: "string option"
  fragment :: "string option"

text \<open>\<open>natoi\<close>, which does not check that it reads digits, and the library function \<open>atoi\<close>.\<close>

fun natoi :: "u32 \<Rightarrow> string \<Rightarrow> u32" where
  "natoi r [] = r"
| "natoi r (c # cs) = natoi (r * 10 + of_nat (of_char c) - 48) cs"

definition is_space :: "char \<Rightarrow> bool" where
  "is_space c = (c = CHR '' '' \<or> c \<in> set (map char_of [9 ..< (14::nat)]))"

definition atoi :: "string \<Rightarrow> u32" where
  "atoi s =
     (case dropWhile is_space s of
        [] \<Rightarrow> 0
      | c # cs \<Rightarrow>
          if c = CHR ''-'' then - of_nat (dec_val 0 (takeWhile is_digit_char cs))
          else if c = CHR ''+'' then of_nat (dec_val 0 (takeWhile is_digit_char cs))
          else of_nat (dec_val 0 (takeWhile is_digit_char (c # cs))))"

text \<open>The cut at a character: the text before it, and what follows when it occurs.\<close>

definition find_and_terminate :: "char \<Rightarrow> string \<Rightarrow> string \<times> string option" where
  "find_and_terminate c s =
     (case split_char c s of None \<Rightarrow> (s, None) | Some (a, b) \<Rightarrow> (a, Some b))"

definition parse_scheme :: "string \<Rightarrow> (string \<times> string) option" where
  "parse_scheme s =
     (case split_char CHR '':'' s of
        None \<Rightarrow> None
      | Some (a, b) \<Rightarrow>
          if a = [] then None
          else if starts_with ''//'' b then Some (a, drop 2 b)
          else None)"

definition credentials :: "string \<Rightarrow> (string option \<times> string option \<times> string) option" where
  "credentials h =
     (case split_char CHR ''@'' h of
        None \<Rightarrow> Some (None, None, h)
      | Some (user, rest) \<Rightarrow>
          if user = [] then None
          else (case split_char CHR '':'' user of
                  None \<Rightarrow> None
                | Some (name, pass) \<Rightarrow> Some (Some name, Some pass, rest)))"

definition host_port :: "bool \<Rightarrow> string \<Rightarrow> (string \<times> u32) option" where
  "host_port has_path h =
     (if h = [] then None
      else (case split_char CHR '':'' h of
              None \<Rightarrow> Some (h, 0)
            | Some (name, digits) \<Rightarrow>
                if digits = [] then None
                else if name = [] then None
                else Some (name, if has_path then natoi 0 digits else atoi digits)))"

definition yuarel_parse :: "string \<Rightarrow> yuarel option" where
  "yuarel_parse u0 =
     (case find_and_terminate CHR ''#'' u0 of (u1, frag) \<Rightarrow>
      case find_and_terminate CHR ''?'' u1 of (u, q) \<Rightarrow>
        if \<not> starts_with ''/'' u then
          (case parse_scheme u of
             None \<Rightarrow> None
           | Some (s, u) \<Rightarrow>
               if u = [] then None
               else (case find_and_terminate CHR ''/'' u of (h, p) \<Rightarrow>
                 (case credentials h of
                    None \<Rightarrow> None
                  | Some (user, pass, h) \<Rightarrow>
                      (case host_port (p \<noteq> None) h of
                         None \<Rightarrow> None
                       | Some (name, n) \<Rightarrow>
                           Some \<lparr>scheme = Some s, username = user, password = pass,
                             host = Some name, port = n, path = p, query = q, fragment = frag\<rparr>))))
        else Some \<lparr>scheme = None, username = None, password = None, host = None, port = 0,
               path = snd (find_and_terminate CHR ''/'' u), query = q, fragment = frag\<rparr>)"

section \<open>Reading what was written\<close>

definition clean :: "string \<Rightarrow> bool" where
  "clean s = (set s \<inter> set ''@:/?#'' = {})"

lemma clean_not [simp]:
  assumes "clean s"
  shows "CHR ''@'' \<notin> set s" "CHR '':'' \<notin> set s" "CHR ''/'' \<notin> set s" "CHR ''?'' \<notin> set s" "CHR ''#'' \<notin> set s"
  using assms by (auto simp: clean_def)

lemma find_cut [simp]: "c \<notin> set a \<Longrightarrow> find_and_terminate c (a @ c # b) = (a, Some b)"
  by (simp add: find_and_terminate_def)

lemma find_none [simp]: "c \<notin> set s \<Longrightarrow> find_and_terminate c s = (s, None)"
  by (simp add: find_and_terminate_def)

lemma find_tail:
  assumes "c \<notin> set a"
  shows "find_and_terminate c (a @ b) = (a @ fst (find_and_terminate c b), snd (find_and_terminate c b))"
proof (cases "split_char c b")
  case None
  with assms have "split_char c (a @ b) = None" by simp
  with None show ?thesis by (simp only: find_and_terminate_def option.case fst_conv snd_conv)
next
  case (Some p)
  then obtain x y where "split_char c b = Some (x, y)" by (cases p) simp
  with assms have "split_char c (a @ b) = Some (a @ x, y)" by (auto simp: split_char_Some)
  with \<open>split_char c b = Some (x, y)\<close> show ?thesis by (simp add: find_and_terminate_def)
qed

text \<open>The cuts at the fragment and the query leave what stands before both.\<close>

lemma cut_tail:
  assumes "CHR ''#'' \<notin> set u" "CHR ''?'' \<notin> set u"
    and "tail = [] \<or> hd tail = CHR ''?'' \<or> hd tail = CHR ''#''"
  shows "fst (find_and_terminate CHR ''?'' (fst (find_and_terminate CHR ''#'' (u @ tail)))) = u"
proof (cases tail)
  case (Cons c t)
  show ?thesis
  proof (cases "c = CHR ''#''")
    case False
    with Cons assms(3) have c: "c = CHR ''?''" by simp
    obtain x f where "find_and_terminate CHR ''#'' t = (x, f)" by fastforce
    then have "fst (find_and_terminate CHR ''#'' (u @ tail)) = u @ CHR ''?'' # x"
      using assms(1) Cons c find_tail [of "CHR ''#''" "u @ ''?''" t] by simp
    then show ?thesis using assms(2) by simp
  qed (use Cons assms in simp)
qed (use assms in simp)

lemma natoi_dec:
  "list_all is_digit_char ds \<Longrightarrow> natoi (of_nat m) ds = of_nat (dec_val m ds)"
proof (induction ds arbitrary: m)
  case (Cons c ds)
  then have "48 \<le> (of_char c :: nat)" by (simp add: is_digit_char_def)
  then have "(of_nat m * 10 + of_nat (of_char c) - 48 :: u32) = of_nat (m * 10 + digit_val c)"
    by (simp add: digit_val_def of_nat_diff)
  with Cons show ?case by (simp del: of_nat_add of_nat_mult)
qed simp

lemma natoi_show_nat [simp]: "natoi 0 (show_nat n) = of_nat n"
  using natoi_dec [OF show_nat_digits, of 0 n] by simp

definition credential_text :: "(string \<times> string) option \<Rightarrow> string" where
  "credential_text cred = (case cred of None \<Rightarrow> [] | Some (name, pass) \<Rightarrow> name @ '':'' @ pass @ ''@'')"

definition port_text :: "nat option \<Rightarrow> string" where
  "port_text prt = (case prt of None \<Rightarrow> [] | Some k \<Rightarrow> '':'' @ show_nat k)"

definition url_text :: "string \<Rightarrow> (string \<times> string) option \<Rightarrow> string \<Rightarrow> nat option \<Rightarrow> string \<Rightarrow> string" where
  "url_text proto cred h prt p = proto @ ''://'' @ credential_text cred @ h @ port_text prt @ ''/'' @ p"

lemma digit_clean: "is_digit_char c \<Longrightarrow> c \<notin> set ''@:/?#''"
  by (auto simp: is_digit_char_def)

lemma show_nat_clean [simp]: "clean (show_nat n)"
  using show_nat_digits [of n] digit_clean unfolding clean_def list_all_iff by blast

definition clean_credentials :: "(string \<times> string) option \<Rightarrow> bool" where
  "clean_credentials cred = (case cred of None \<Rightarrow> True | Some (name, pass) \<Rightarrow> clean name \<and> clean pass)"

lemma credentials_text:
  "clean_credentials cred \<Longrightarrow> CHR ''@'' \<notin> set h \<Longrightarrow>
     credentials (credential_text cred @ h) = Some (map_option fst cred, map_option snd cred, h)"
  using split_char_append [of "CHR ''@''" "fst (the cred) @ '':'' @ snd (the cred)" h]
  by (cases cred) (auto simp: credentials_def credential_text_def clean_credentials_def)

lemma host_port_text:
  "clean h \<Longrightarrow> h \<noteq> [] \<Longrightarrow>
     host_port True (h @ port_text prt) = Some (h, case prt of None \<Rightarrow> 0 | Some k \<Rightarrow> of_nat k)"
  by (auto simp: host_port_def port_text_def split: option.splits)

lemma credential_text_clean:
  "clean_credentials cred \<Longrightarrow>
     CHR ''/'' \<notin> set (credential_text cred) \<and> CHR ''?'' \<notin> set (credential_text cred) \<and>
     CHR ''#'' \<notin> set (credential_text cred)"
  by (auto simp: clean_credentials_def credential_text_def split: option.splits)

lemma port_text_clean:
  "CHR ''/'' \<notin> set (port_text prt) \<and> CHR ''?'' \<notin> set (port_text prt) \<and>
   CHR ''#'' \<notin> set (port_text prt) \<and> CHR ''@'' \<notin> set (port_text prt)"
  by (auto simp: port_text_def split: option.splits)

lemma parse_scheme_text:
  assumes "clean proto" "proto \<noteq> []"
  shows "parse_scheme (proto @ ''://'' @ t) = Some (proto, t)"
proof -
  have "split_char CHR '':'' (proto @ CHR '':'' # ''//'' @ t) = Some (proto, ''//'' @ t)"
    using assms(1) by (intro split_char_append) simp
  then have "split_char CHR '':'' (proto @ ''://'' @ t) = Some (proto, ''//'' @ t)" by simp
  with assms(2) show ?thesis
    unfolding parse_scheme_def by (simp only: option.case prod.case starts_with_append if_False if_True) simp
qed

lemma yuarel_parse_text:
  assumes "clean proto" "proto \<noteq> []" "clean_credentials cred" "clean h" "h \<noteq> []"
    and "CHR ''#'' \<notin> set p" "CHR ''?'' \<notin> set p"
    and "tail = [] \<or> hd tail = CHR ''?'' \<or> hd tail = CHR ''#''"
  shows "\<exists>q f. yuarel_parse (url_text proto cred h prt p @ tail) =
    Some \<lparr>scheme = Some proto, username = map_option fst cred, password = map_option snd cred,
      host = Some h, port = (case prt of None \<Rightarrow> 0 | Some k \<Rightarrow> of_nat k), path = Some p,
      query = q, fragment = f\<rparr>"
proof -
  let ?u = "url_text proto cred h prt p"
  note c = credential_text_clean [OF assms(3)] port_text_clean [of prt]
  have "CHR ''#'' \<notin> set ?u" "CHR ''?'' \<notin> set ?u"
    using assms c by (auto simp: url_text_def)
  from cut_tail [OF this assms(8)]
  have cut: "fst (find_and_terminate CHR ''?'' (fst (find_and_terminate CHR ''#'' (?u @ tail)))) = ?u" .
  obtain u1 f where 1: "find_and_terminate CHR ''#'' (?u @ tail) = (u1, f)" by (rule prod.exhaust)
  obtain u2 q where 2: "find_and_terminate CHR ''?'' u1 = (u2, q)" by (rule prod.exhaust)
  have "u2 = ?u" using cut unfolding 1 fst_conv 2 .
  note t = 1 2 [unfolded this]
  obtain x xs where x: "proto = x # xs" using assms(2) by (cases proto) simp
  then have "x \<noteq> CHR ''/''" using clean_not(3) [OF assms(1)] by auto
  then have s: "\<not> starts_with ''/'' ?u" by (simp add: x url_text_def starts_with_def)
  have sch: "parse_scheme ?u = Some (proto, credential_text cred @ h @ port_text prt @ ''/'' @ p)"
    unfolding url_text_def by (rule parse_scheme_text [OF assms(1,2)])
  have pa: "find_and_terminate CHR ''/'' (credential_text cred @ h @ port_text prt @ ''/'' @ p) =
      (credential_text cred @ h @ port_text prt, Some p)"
    using find_cut [of "CHR ''/''" "credential_text cred @ h @ port_text prt" p] c clean_not(3) [OF assms(4)]
    by (simp only: set_append Un_iff append_assoc append_Cons append_Nil simp_thms)
  have cr: "credentials (credential_text cred @ h @ port_text prt) =
      Some (map_option fst cred, map_option snd cred, h @ port_text prt)"
    using credentials_text [OF assms(3), of "h @ port_text prt"] c clean_not(1) [OF assms(4)]
    by (simp only: set_append Un_iff append_assoc simp_thms)
  show ?thesis
    using assms(5) pa cr host_port_text [OF assms(4,5)]
    by (simp add: yuarel_parse_def t s sch)
qed

end
