(* ===== verification/Url.thy ===== *)
theory Url
  imports Prelude Yuarel
begin

text \<open>
  \<open>src/firmware/main/util/url.c\<close>: the parts of a URL in the buffers of a \<open>url_t\<close>.
\<close>

section \<open>The buffers of an address\<close>

record url_t =
  host :: string
  protocol :: string
  path :: string
  port :: string
  username :: string
  password :: string

definition URL_HOST_MAXLEN :: nat where "URL_HOST_MAXLEN = 256"
definition URL_PROTOCOL_MAXLEN :: nat where "URL_PROTOCOL_MAXLEN = 10"
definition URL_PATH_MAXLEN :: nat where "URL_PATH_MAXLEN = 256"
definition URL_PORT_MAXLEN :: nat where "URL_PORT_MAXLEN = 6"
definition URL_USERNAME_MAXLEN :: nat where "URL_USERNAME_MAXLEN = 32"
definition URL_PASSWORD_MAXLEN :: nat where "URL_PASSWORD_MAXLEN = 32"

text \<open>\<open>strncpy\<close> of all but the last byte of a buffer of zeros.\<close>

definition fill :: "nat \<Rightarrow> string option \<Rightarrow> string" where
  "fill n s = (case s of None \<Rightarrow> [] | Some t \<Rightarrow> take (n - 1) t)"

definition default_port :: "string \<Rightarrow> string \<Rightarrow> string" where
  "default_port proto n =
     (if n = [] \<or> n = ''0'' then
        (if proto = ''https'' then ''443'' else if proto = ''http'' then ''80'' else n)
      else n)"

definition url_parse :: "string \<Rightarrow> url_t option" where
  "url_parse uri =
     (case yuarel_parse uri of
        None \<Rightarrow> None
      | Some y \<Rightarrow>
          let proto = fill URL_PROTOCOL_MAXLEN (scheme y);
              p = (case yuarel.path y of None \<Rightarrow> [] | Some p \<Rightarrow> CHR ''/'' # take (URL_PATH_MAXLEN - 2) p);
              n = take (URL_PORT_MAXLEN - 1) (show_int (sint (yuarel.port y)))
          in Some \<lparr>host = fill URL_HOST_MAXLEN (yuarel.host y), protocol = proto,
                path = (if p = [] then ''/'' else p), port = default_port proto n,
                username = fill URL_USERNAME_MAXLEN (yuarel.username y),
                password = fill URL_PASSWORD_MAXLEN (yuarel.password y)\<rparr>)"

lemma show_nat_head: "0 < n \<Longrightarrow> show_nat n \<noteq> ''0''"
proof
  assume "0 < n" "show_nat n = ''0''"
  then have "n = dec_val 0 ''0''" using dec_val_show_nat [of n] by simp
  with \<open>0 < n\<close> show False by (simp add: digit_val_def)
qed

lemma default_port_show:
  "k < 65536 \<Longrightarrow> 0 < k \<Longrightarrow>
     default_port proto (take (URL_PORT_MAXLEN - 1) (show_int (sint (of_nat k :: u32)))) = show_nat k"
  using length_show_nat_le [of k 5] show_nat_head [of k]
  by (simp add: show_int_def URL_PORT_MAXLEN_def default_port_def)

text \<open>
  The address of a URL written out from its parts, with or without credentials and
  port, holds these parts, the port that belongs to the protocol when none is written, and the path
  alone when a query or a fragment follows: what the buffers can hold, nothing else.
\<close>

theorem url_roundtrip:
  assumes "clean proto" "proto \<noteq> []" "length proto < URL_PROTOCOL_MAXLEN"
    and "clean_credentials cred"
    and "case cred of None \<Rightarrow> True | Some (name, pass) \<Rightarrow>
           length name < URL_USERNAME_MAXLEN \<and> length pass < URL_PASSWORD_MAXLEN"
    and "clean h" "h \<noteq> []" "length h < URL_HOST_MAXLEN"
    and "case prt of None \<Rightarrow> True | Some k \<Rightarrow> 0 < k \<and> k < 65536"
    and "CHR ''#'' \<notin> set p" "CHR ''?'' \<notin> set p" "length p < URL_PATH_MAXLEN - 1"
    and "tail = [] \<or> hd tail = CHR ''?'' \<or> hd tail = CHR ''#''"
  shows "url_parse (url_text proto cred h prt p @ tail) =
    Some \<lparr>host = h, protocol = proto, path = CHR ''/'' # p,
      port = (case prt of None \<Rightarrow> default_port proto ''0'' | Some k \<Rightarrow> show_nat k),
      username = (case cred of None \<Rightarrow> [] | Some (name, pass) \<Rightarrow> name),
      password = (case cred of None \<Rightarrow> [] | Some (name, pass) \<Rightarrow> pass)\<rparr>"
proof -
  obtain q f where y: "yuarel_parse (url_text proto cred h prt p @ tail) =
    Some \<lparr>scheme = Some proto, username = map_option fst cred, password = map_option snd cred,
      host = Some h, port = (case prt of None \<Rightarrow> 0 | Some k \<Rightarrow> of_nat k), path = Some p,
      query = q, fragment = f\<rparr>"
    using yuarel_parse_text [OF assms(1,2,4,6,7,10,11,13)] by blast
  have n: "default_port proto (take (URL_PORT_MAXLEN - 1)
      (show_int (sint (case prt of None \<Rightarrow> 0 | Some k \<Rightarrow> (of_nat k :: u32))))) =
    (case prt of None \<Rightarrow> default_port proto ''0'' | Some k \<Rightarrow> show_nat k)"
  proof (cases prt)
    case None
    have "show_int (sint (0 :: u32)) = ''0''" by code_simp
    with None show ?thesis by (simp add: URL_PORT_MAXLEN_def)
  next
    case (Some k)
    with assms(9) show ?thesis by (simp only: default_port_show option.case)
  qed
  have proto: "fill URL_PROTOCOL_MAXLEN (Some proto) = proto"
    using assms(3) by (simp add: fill_def)
  have "fill URL_USERNAME_MAXLEN (map_option fst cred) = (case cred of None \<Rightarrow> [] | Some (name, pass) \<Rightarrow> name)"
    "fill URL_PASSWORD_MAXLEN (map_option snd cred) = (case cred of None \<Rightarrow> [] | Some (name, pass) \<Rightarrow> pass)"
    using assms(5) by (auto simp: fill_def split: option.splits)
  then show ?thesis
    using assms(3,8,12) proto
    by (simp add: url_parse_def y n [unfolded One_nat_def] Let_def) (simp add: fill_def)
qed

theorem url_roundtrip_witness:
  "url_parse (url_text ''http'' (Some (''dj'', ''pass'')) ''radio.example'' (Some 8000) ''live'' @ ''?sid=1'') =
    Some \<lparr>host = ''radio.example'', protocol = ''http'', path = ''/live'', port = ''8000'',
      username = ''dj'', password = ''pass''\<rparr>"
proof -
  have s: "show_nat 8000 = ''8000''" by (simp add: show_nat.simps digit_def char_of_def bit_Suc_0_iff)
  have cl: "clean ''http''" "clean_credentials (Some (''dj'', ''pass''))" "clean ''radio.example''"
    by code_simp+
  have "url_parse (url_text ''http'' (Some (''dj'', ''pass'')) ''radio.example'' (Some 8000) ''live'' @ ''?sid=1'') =
    Some \<lparr>host = ''radio.example'', protocol = ''http'', path = CHR ''/'' # ''live'',
      port = (case Some 8000 of None \<Rightarrow> default_port ''http'' ''0'' | Some k \<Rightarrow> show_nat k),
      username = (case Some (''dj'', ''pass'') of None \<Rightarrow> [] | Some (name, pass) \<Rightarrow> name),
      password = (case Some (''dj'', ''pass'') of None \<Rightarrow> [] | Some (name, pass) \<Rightarrow> pass)\<rparr>"
  proof (rule url_roundtrip)
    show "clean ''http''" "clean_credentials (Some (''dj'', ''pass''))" "clean ''radio.example''" by (rule cl)+
  qed (simp_all add: URL_PROTOCOL_MAXLEN_def URL_USERNAME_MAXLEN_def URL_PASSWORD_MAXLEN_def
      URL_HOST_MAXLEN_def URL_PATH_MAXLEN_def)
  then show ?thesis by (simp only: s option.case prod.case)
qed

end
