(* ===== verification/Stream.thy ===== *)
theory Stream
  imports Prelude Base64 Url "HOL-Library.Sublist"
begin

text \<open>
  \<open>src/firmware/main/audio/stream.c\<close>: a radio stream over a socket. The network library is
  seen through the outcomes of its calls; the task that receives and the player that reads share a
  ring buffer and two event bits and interleave freely, so that part is a step relation.
\<close>

section \<open>The request\<close>

text \<open>\<open>snprintf\<close> with \<open>%s\<close> conversions only.\<close>

fun fmt :: "string \<Rightarrow> string list \<Rightarrow> string" where
  "fmt (c # d # cs) (a # as) =
     (if c = CHR ''%'' \<and> d = CHR ''s'' then a @ fmt cs as else c # fmt (d # cs) (a # as))"
| "fmt cs as = cs"

definition snprintf :: "nat \<Rightarrow> string \<Rightarrow> string list \<Rightarrow> string" where
  "snprintf n template args = take (n - 1) (fmt template args)"

definition CRLF :: string where
  "CRLF = [CHR 0x0D, CHR 0x0A]"

definition auth_template :: string where
  "auth_template = ''GET %s HTTP/1.0'' @ CRLF @ ''Host: %s'' @ CRLF @ ''Authorization: Basic %s'' @ CRLF @ CRLF"

definition plain_template :: string where
  "plain_template = ''GET %s HTTP/1.0'' @ CRLF @ ''Host: %s'' @ CRLF @ CRLF"

text \<open>The flag is the outcome of the allocation.\<close>

definition http_request :: "bool \<Rightarrow> url_t \<Rightarrow> string option" where
  "http_request malloc_ok a =
     (if username a \<noteq> [] \<and> password a \<noteq> [] then
        (case base64_encode (map byte (snprintf 64 ''%s:%s'' [username a, password a])) of
           None \<Rightarrow> None
         | Some auth64 \<Rightarrow>
             if \<not> malloc_ok then None
             else Some (snprintf (length auth_template + length (path a) + length (host a) + length auth64 + 13)
                          auth_template [path a, host a, auth64]))
      else if \<not> malloc_ok then None
      else Some (snprintf (length plain_template + length (path a) + length (host a) + 13)
                   plain_template [path a, host a]))"

section \<open>The connection\<close>

record net =
  dns_ok :: bool
  socket_ok :: bool
  connect_ok :: bool
  request_ok :: bool
  send_ok :: bool
  timeout_ok :: bool

datatype sock = NoSocket | ClosedSocket | OpenSocket

text \<open>What \<open>open_socket\<close> returns, the request it has sent, if any, and what became of the socket.\<close>

definition open_socket :: "net \<Rightarrow> url_t \<Rightarrow> bool \<times> string option \<times> sock" where
  "open_socket n a =
     (if \<not> dns_ok n then (False, None, NoSocket)
      else if \<not> socket_ok n then (False, None, NoSocket)
      else if \<not> connect_ok n then (False, None, ClosedSocket)
      else (case http_request (request_ok n) a of
              None \<Rightarrow> (False, None, OpenSocket)
            | Some r \<Rightarrow>
                if \<not> send_ok n then (False, None, ClosedSocket)
                else if \<not> timeout_ok n then (False, Some r, ClosedSocket)
                else (True, Some r, OpenSocket)))"

definition STREAM_BUFFER_MAX_CHUNKS :: nat where
  "STREAM_BUFFER_MAX_CHUNKS = 4"

text \<open>The wait after the start: the free sizes that the loop sees, one every 5 ms.\<close>

fun wait_fill :: "nat \<Rightarrow> nat list \<Rightarrow> u16 \<Rightarrow> u16" where
  "wait_fill half [] w = w"
| "wait_fill half (free # fs) w =
     (if free < half then (if w > 0 then wait_fill half fs (w - 1) else w - 1) else w)"

text \<open>
  \<open>stream_start\<close>: the outcomes of the three creations and the free sizes of the ring buffer; the
  answer and what became of the socket.
\<close>

definition stream_start :: "net \<Rightarrow> bool \<Rightarrow> bool \<Rightarrow> bool \<Rightarrow> nat list \<Rightarrow> string \<Rightarrow> nat \<Rightarrow> bool \<times> sock" where
  "stream_start n ring_ok group_ok task_ok free_sizes url read_chunk_size =
     (case url_parse url of
        None \<Rightarrow> (False, NoSocket)
      | Some a \<Rightarrow>
          if protocol a \<noteq> ''http'' then (False, NoSocket)
          else (case open_socket n a of
                  (False, r, s) \<Rightarrow> (False, s)
                | (True, r, s) \<Rightarrow>
                    if \<not> ring_ok then (False, s)
                    else if \<not> group_ok then (False, s)
                    else if \<not> task_ok then (False, s)
                    else (wait_fill (read_chunk_size * STREAM_BUFFER_MAX_CHUNKS div 2) free_sizes
                            (of_nat (STREAM_BUFFER_MAX_CHUNKS * 100)) > 0, s)))"

text \<open>A probe: the number of bytes that the first \<open>recv\<close> answers.\<close>

definition stream_probe :: "net \<Rightarrow> int \<Rightarrow> string \<Rightarrow> bool" where
  "stream_probe n received url =
     (case url_parse url of
        None \<Rightarrow> False
      | Some a \<Rightarrow> protocol a = ''http'' \<and> fst (open_socket n a) \<and> received > 0)"

section \<open>Receiving and reading\<close>

datatype receiver = Receiving | Received "u8 list" | Sending "u8 list" | Leaving | Gone

record stream_t =
  incoming :: "u8 list list"
  ring :: "u8 list"
  room :: nat
  eos_bit :: bool
  stop_bit :: bool
  receiver_at :: receiver
  played :: "u8 list"
  stopping :: bool

text \<open>The receiving task; a \<open>recv\<close> of no bytes is the end of the stream or an error.\<close>

inductive receiver_step :: "stream_t \<Rightarrow> stream_t \<Rightarrow> bool" where
  recv_some:
    "receiver_at s = Receiving \<Longrightarrow> incoming s = c # cs \<Longrightarrow>
     receiver_step s (s\<lparr>incoming := cs, receiver_at := Received c\<rparr>)"
| recv_none:
    "receiver_at s = Receiving \<Longrightarrow> receiver_step s (s\<lparr>receiver_at := Received []\<rparr>)"
| stop_seen:
    "receiver_at s = Received c \<Longrightarrow> stop_bit s \<Longrightarrow> receiver_step s (s\<lparr>receiver_at := Leaving\<rparr>)"
| end_seen:
    "receiver_at s = Received [] \<Longrightarrow> receiver_step s (s\<lparr>receiver_at := Leaving\<rparr>)"
| to_send:
    "receiver_at s = Received c \<Longrightarrow> \<not> stop_bit s \<Longrightarrow> c \<noteq> [] \<Longrightarrow>
     receiver_step s (s\<lparr>receiver_at := Sending c\<rparr>)"
| send_chunk:
    "receiver_at s = Sending c \<Longrightarrow> length (ring s) + length c \<le> room s \<Longrightarrow>
     receiver_step s (s\<lparr>ring := ring s @ c, receiver_at := Receiving\<rparr>)"
| send_timeout:
    "receiver_at s = Sending c \<Longrightarrow> room s < length (ring s) + length c \<Longrightarrow>
     receiver_step s (s\<lparr>receiver_at := Leaving\<rparr>)"
| set_eos:
    "receiver_at s = Leaving \<Longrightarrow> receiver_step s (s\<lparr>eos_bit := True, receiver_at := Gone\<rparr>)"

text \<open>
  The player: \<open>stream_read\<close> gets some bytes, at most as many as its buffer holds, or nothing;
  \<open>stream_stop\<close> sets the bit, takes a byte out of the ring and puts a zero byte in.
\<close>

inductive reader_step :: "stream_t \<Rightarrow> stream_t \<Rightarrow> bool" where
  stream_read:
    "\<not> stopping s \<Longrightarrow> \<not> eos_bit s \<Longrightarrow> k \<le> length (ring s) \<Longrightarrow>
     reader_step s (s\<lparr>played := played s @ take k (ring s), ring := drop k (ring s)\<rparr>)"
| stream_stop:
    "\<not> stopping s \<Longrightarrow>
     reader_step s (s\<lparr>stopping := True, stop_bit := True,
       ring := drop 1 (ring s) @ (if length (ring s) < room s then [0] else []),
       room := room s - length (take 1 (ring s))\<rparr>)"

inductive stream_run :: "stream_t \<Rightarrow> stream_t \<Rightarrow> bool" where
  stream_refl: "stream_run s s"
| stream_receiver: "stream_run r s \<Longrightarrow> receiver_step s t \<Longrightarrow> stream_run r t"
| stream_reader: "stream_run r s \<Longrightarrow> reader_step s t \<Longrightarrow> stream_run r t"

inductive_cases receiver_stepE: "receiver_step s t"
inductive_cases reader_stepE: "reader_step s t"

definition stream_begin :: "u8 list list \<Rightarrow> nat \<Rightarrow> stream_t" where
  "stream_begin body read_chunk_size =
     \<lparr>incoming = body, ring = [], room = read_chunk_size * STREAM_BUFFER_MAX_CHUNKS, eos_bit = False,
      stop_bit = False, receiver_at = Receiving, played = [], stopping = False\<rparr>"

fun on_the_way :: "receiver \<Rightarrow> u8 list" where
  "on_the_way (Received c) = c"
| "on_the_way (Sending c) = c"
| "on_the_way _ = []"

definition left_loop :: "receiver \<Rightarrow> bool" where
  "left_loop r = (r = Leaving \<or> r = Gone)"

lemma left_loop_simps [simp]:
  "\<not> left_loop Receiving" "\<not> left_loop (Received c)" "\<not> left_loop (Sending c)" "left_loop Leaving" "left_loop Gone"
  by (simp_all add: left_loop_def)

definition stream_inv :: "u8 list \<Rightarrow> stream_t \<Rightarrow> bool" where
  "stream_inv sound s =
     (length (ring s) \<le> room s \<and> prefix (played s) sound \<and> (eos_bit s \<longrightarrow> receiver_at s = Gone) \<and>
      (\<not> stopping s \<longrightarrow> prefix (played s @ ring s) sound) \<and>
      (\<not> stopping s \<longrightarrow> \<not> left_loop (receiver_at s) \<longrightarrow>
         played s @ ring s @ on_the_way (receiver_at s) @ concat (incoming s) = sound))"

lemma stream_inv_begin [inv_intros]: "stream_inv (concat body) (stream_begin body n)"
  by (simp add: stream_inv_def stream_begin_def)

lemma stream_inv_receiver [inv_intros]: "stream_inv w s \<Longrightarrow> receiver_step s t \<Longrightarrow> stream_inv w t"
  by (erule receiver_stepE) (auto simp: stream_inv_def)

lemma take_drop_append [simp]: "take k r @ drop k r @ x = r @ x"
  by (simp add: append_assoc [symmetric] del: append_assoc)

lemma stream_inv_reader [inv_intros]:
  assumes "stream_inv w s" and "reader_step s t"
  shows "stream_inv w t"
  using assms(2)
proof (cases rule: reader_step.cases)
  case (stream_read k)
  have "prefix (played s @ ring s) w"
    using stream_read assms(1) by (simp add: stream_inv_def)
  moreover have "prefix (played s @ take k (ring s)) (played s @ ring s)"
    by (simp add: take_is_prefix)
  ultimately have "prefix (played s @ take k (ring s)) w"
    by (rule prefix_order.trans [rotated])
  with stream_read assms(1) show ?thesis by (auto simp: stream_inv_def)
next
  case stream_stop
  with assms(1) show ?thesis
    by (cases "ring s") (auto simp: stream_inv_def)
qed

lemma stream_inv_run: "stream_run s t \<Longrightarrow> stream_inv w s \<Longrightarrow> stream_inv w t"
  by (induction rule: stream_run.induct) (auto intro: inv_intros)

text \<open>
  C35: whatever the order in which the receiving task and the player run, and whatever timeouts
  occur, what is played is a prefix of what was received, in order and without gaps, and the ring
  buffer never holds more than it has room for.
\<close>

theorem stream_in_order:
  assumes "stream_run (stream_begin body n) s"
  shows "prefix (played s) (concat body) \<and> length (ring s) \<le> room s"
  using stream_inv_run [OF assms stream_inv_begin] by (simp add: stream_inv_def)

lemma receiver_run: "stream_run r s \<Longrightarrow> receiver_step s t \<Longrightarrow> stream_run r t"
  by (rule stream_run.stream_receiver)

lemma eos_final:
  "stream_run s t \<Longrightarrow> eos_bit s \<Longrightarrow> eos_bit t \<and> played t = played s"
  by (induction rule: stream_run.induct) (auto elim!: receiver_stepE reader_stepE)

text \<open>A short stream that is received completely before the player reads.\<close>

lemma received_run:
  assumes "d \<noteq> []" "length d \<le> n * STREAM_BUFFER_MAX_CHUNKS"
  shows "stream_run (stream_begin [d] n) ((stream_begin [d] n)\<lparr>incoming := [], ring := d,
           receiver_at := Gone, eos_bit := True\<rparr>)" (is "stream_run ?s _")
proof -
  let ?a = "?s\<lparr>incoming := [], receiver_at := Received d\<rparr>"
  let ?b = "?a\<lparr>receiver_at := Sending d\<rparr>"
  let ?c = "?b\<lparr>ring := ring ?b @ d, receiver_at := Receiving\<rparr>"
  let ?d = "?c\<lparr>receiver_at := Received []\<rparr>"
  let ?e = "?d\<lparr>receiver_at := Leaving\<rparr>"
  have 1: "stream_run ?s ?a"
    by (rule receiver_run [OF stream_refl]) (rule recv_some, simp_all add: stream_begin_def)
  have 2: "stream_run ?s ?b"
    by (rule receiver_run [OF 1]) (rule to_send, use assms in \<open>simp_all add: stream_begin_def\<close>)
  have 3: "stream_run ?s ?c"
    by (rule receiver_run [OF 2]) (rule send_chunk, use assms in \<open>simp_all add: stream_begin_def\<close>)
  have 4: "stream_run ?s ?d"
    by (rule receiver_run [OF 3]) (rule recv_none, simp)
  have 5: "stream_run ?s ?e"
    by (rule receiver_run [OF 4]) (rule end_seen, simp)
  have "stream_run ?s (?e\<lparr>eos_bit := True, receiver_at := Gone\<rparr>)"
    by (rule receiver_run [OF 5]) (rule set_eos, simp)
  then show ?thesis by (simp add: stream_begin_def)
qed

text \<open>
  The end of the stream cuts off what is still in the ring buffer: a stream that has been
  received completely before the player reads is not played at all, although it is there.
\<close>

theorem stream_tail_lost:
  assumes "d \<noteq> []" and "length d \<le> n * STREAM_BUFFER_MAX_CHUNKS"
  shows "\<exists>s. stream_run (stream_begin [d] n) s \<and> ring s = d \<and> eos_bit s \<and>
    (\<forall>t. stream_run s t \<longrightarrow> played t = [])"
  by (rule exI, intro conjI, rule received_run [OF assms])
     (auto simp: stream_begin_def dest!: eos_final)

text \<open>
  The wait after the start ends at once when at least half of the ring buffer is free, so
  right after the start, when all of it is: nothing is buffered before the playing begins.
\<close>

theorem stream_start_waits_for_nothing:
  assumes "url_parse url = Some a" "protocol a = ''http''" "open_socket n a = (True, r, s)"
  shows "stream_start n True True True (k * STREAM_BUFFER_MAX_CHUNKS # later) url k = (True, s)"
  using assms by (simp add: stream_start_def STREAM_BUFFER_MAX_CHUNKS_def)

section \<open>What the server gets\<close>

lemma fmt_auth_template:
  "fmt auth_template [a, b, c] =
     ''GET '' @ a @ '' HTTP/1.0'' @ CRLF @ ''Host: '' @ b @ CRLF @ ''Authorization: Basic '' @ c @ CRLF @ CRLF"
  by (simp add: auth_template_def CRLF_def)

lemma fmt_plain_template:
  "fmt plain_template [a, b] = ''GET '' @ a @ '' HTTP/1.0'' @ CRLF @ ''Host: '' @ b @ CRLF @ CRLF"
  by (simp add: plain_template_def CRLF_def)

lemma fmt_pair: "fmt ''%s:%s'' [a, b] = a @ '':'' @ b"
  by simp

text \<open>
  The request to a server with credentials is complete, never cut off by the size that was
  computed for it, and the server can decode the user name and the password from it.
\<close>

theorem stream_request_credentials:
  assumes "username a \<noteq> []" "password a \<noteq> []"
    and "length (username a) < URL_USERNAME_MAXLEN" "length (password a) < URL_PASSWORD_MAXLEN"
  shows "\<exists>auth64. http_request True a =
      Some (''GET '' @ path a @ '' HTTP/1.0'' @ CRLF @ ''Host: '' @ host a @ CRLF @
            ''Authorization: Basic '' @ auth64 @ CRLF @ CRLF) \<and>
    base64_decode auth64 (of_nat (length auth64)) = map byte (username a @ '':'' @ password a)"
proof -
  let ?c = "username a @ '':'' @ password a"
  have len: "length ?c < 64" "2 \<le> length ?c"
    using assms by (cases "username a"; cases "password a"; simp add: URL_USERNAME_MAXLEN_def URL_PASSWORD_MAXLEN_def)+
  then have cut: "snprintf 64 ''%s:%s'' [username a, password a] = ?c"
    by (simp add: snprintf_def fmt_pair)
  have "encodable (map byte ?c)"
    using len(1) assms(1,2) by (auto simp: encodable_def Suc_le_eq)
  note dec = b64.dec_enc [OF this]
  have "\<not> length (map byte ?c) < 2" using len by (simp only: length_map not_less)
  then obtain auth64 where enc: "base64_encode (map byte ?c) = Some auth64"
    unfolding base64_encode_def by (simp only: if_False)
  note auth = enc dec [unfolded enc option.sel]
  have "http_request True a = Some (fmt auth_template [path a, host a, auth64])"
  proof -
    have "length (fmt auth_template [path a, host a, auth64]) \<le>
        length auth_template + length (path a) + length (host a) + length auth64 + 12"
      by (simp add: fmt_auth_template auth_template_def CRLF_def)
    then show ?thesis
      using assms(1,2) unfolding http_request_def cut auth(1)
      by (simp add: snprintf_def)
  qed
  with auth show ?thesis by (auto simp: fmt_auth_template)
qed

definition radio :: url_t where
  "radio = \<lparr>host = ''radio.example'', protocol = ''http'', path = ''/live'', port = ''80'',
     username = ''dj'', password = ''pass''\<rparr>"

theorem stream_request_credentials_witness:
  "\<exists>auth64. http_request True radio =
      Some (''GET '' @ path radio @ '' HTTP/1.0'' @ CRLF @ ''Host: '' @ host radio @ CRLF @
            ''Authorization: Basic '' @ auth64 @ CRLF @ CRLF) \<and>
    base64_decode auth64 (of_nat (length auth64)) = map byte (username radio @ '':'' @ password radio)"
  by (rule stream_request_credentials)
     (simp_all add: radio_def URL_USERNAME_MAXLEN_def URL_PASSWORD_MAXLEN_def)

theorem stream_in_order_witness:
  "prefix (played (stream_begin [[1, 2]] 512)) (concat [[1, 2]]) \<and>
   length (ring (stream_begin [[1, 2]] 512)) \<le> room (stream_begin [[1, 2]] 512)"
  by (rule stream_in_order [OF stream_refl])

theorem stream_tail_lost_witness:
  "\<exists>s. stream_run (stream_begin [[1, 2]] 512) s \<and> ring s = [1, 2] \<and> eos_bit s"
  using stream_tail_lost [of "[1, 2]" 512] by (auto simp: STREAM_BUFFER_MAX_CHUNKS_def)

definition good_net :: net where
  "good_net = \<lparr>dns_ok = True, socket_ok = True, connect_ok = True, request_ok = True, send_ok = True,
     timeout_ok = True\<rparr>"

theorem stream_start_waits_for_nothing_witness:
  "\<exists>s. stream_start good_net True True True [512 * STREAM_BUFFER_MAX_CHUNKS, 0] ''http://r/'' 512 = (True, s)"
proof -
  have p: "url_parse ''http://r/'' = Some \<lparr>host = ''r'', protocol = ''http'', path = ''/'', port = ''80'',
      username = [], password = []\<rparr>"
    by code_simp
  have "open_socket good_net (the (url_parse ''http://r/'')) =
      (True, http_request True (the (url_parse ''http://r/'')), OpenSocket)"
    by (simp add: p open_socket_def good_net_def http_request_def)
  then show ?thesis
    using stream_start_waits_for_nothing [OF p, of good_net] by (auto simp: p)
qed

end
