(* ===== verification/ReadAhead.thy ===== *)
theory ReadAhead
  imports Prelude
begin

text \<open>
  \<open>src/firmware/main/util/read_ahead.c\<close>: the file is read one buffer ahead of its consumer. Every
  buffer is fetched by a task of its own, which ends after one read; the consumer waits for the
  semaphore that the task gives, copies the buffer and starts the next task. The two sides
  interleave freely, so the program is a step relation; the sections under the mutex, which hold
  all accesses to the buffer, are single steps. A read that fails and a task that cannot be
  created are steps of their own.
\<close>

datatype fetch = Fetching | Signalling

record ra =
  unread :: "u8 list"
  buffer :: "u8 list"
  buffer_size :: nat
  sema :: bool
  fetches :: "fetch list"
  released :: bool
  given :: "u8 list list"

definition start :: "bool \<Rightarrow> ra \<Rightarrow> ra" where
  "start created s = (if created then s\<lparr>fetches := fetches s @ [Fetching]\<rparr> else s)"

text \<open>The set-up, with the outcomes of the two allocations and the two semaphores.\<close>

definition read_ahead_init :: "bool \<Rightarrow> bool \<Rightarrow> bool \<Rightarrow> bool \<Rightarrow> bool \<Rightarrow> u8 list \<Rightarrow> nat \<Rightarrow> ra option" where
  "read_ahead_init struct_ok buffer_ok mutex_ok sema_ok created content n =
     (if \<not> struct_ok then None
      else if \<not> buffer_ok then None
      else if \<not> mutex_ok then None
      else if \<not> sema_ok then None
      else Some (start created
        \<lparr>unread = content, buffer = [], buffer_size = n, sema = False, fetches = [],
         released = False, given = []\<rparr>))"

text \<open>\<open>read_file\<close>: the next bytes of the file, all that fit while there are as many.\<close>

definition read_file :: "ra \<Rightarrow> ra" where
  "read_file s = s\<lparr>buffer := take (buffer_size s) (unread s), unread := drop (buffer_size s) (unread s)\<rparr>"

text \<open>
  \<open>read_ahead_next\<close> once the semaphore is there; the flag is the outcome of the start of the next
  task. A consumer whose buffer is larger than the own one gets nothing.
\<close>

definition read_ahead_next :: "bool \<Rightarrow> nat \<Rightarrow> ra \<Rightarrow> (u8 list \<times> ra) option" where
  "read_ahead_next created n s =
     (if n > buffer_size s then Some ([], s)
      else if \<not> sema s then None
      else Some (buffer s, start created (s\<lparr>sema := False, given := given s @ [buffer s]\<rparr>)))"

inductive fetch_step :: "bool \<Rightarrow> ra \<Rightarrow> ra \<Rightarrow> bool" where
  fetched:
    "fetches s = xs @ Fetching # ys \<Longrightarrow>
     fetch_step faulty s ((read_file s)\<lparr>fetches := xs @ Signalling # ys\<rparr>)"
| read_error:
    "fetches s = xs @ Fetching # ys \<Longrightarrow> faulty \<Longrightarrow>
     fetch_step faulty s (s\<lparr>buffer := [], fetches := xs @ Signalling # ys\<rparr>)"
| signalled:
    "fetches s = xs @ Signalling # ys \<Longrightarrow>
     fetch_step faulty s (s\<lparr>sema := True, fetches := xs @ ys\<rparr>)"

inductive consumer_step :: "bool \<Rightarrow> ra \<Rightarrow> ra \<Rightarrow> bool" where
  next_buffer:
    "\<not> released s \<Longrightarrow> n \<le> buffer_size s \<Longrightarrow> read_ahead_next created n s = Some (b, s') \<Longrightarrow>
     created \<or> faulty \<Longrightarrow> consumer_step faulty s s'"
| read_ahead_deinit:
    "\<not> released s \<Longrightarrow> consumer_step faulty s (s\<lparr>released := True\<rparr>)"

inductive ra_run :: "bool \<Rightarrow> ra \<Rightarrow> ra \<Rightarrow> bool" for faulty where
  ra_refl: "ra_run faulty s s"
| ra_fetch: "ra_run faulty r s \<Longrightarrow> fetch_step faulty s t \<Longrightarrow> ra_run faulty r t"
| ra_consume: "ra_run faulty r s \<Longrightarrow> consumer_step faulty s t \<Longrightarrow> ra_run faulty r t"

inductive_cases fetch_stepE: "fetch_step faulty s t"
inductive_cases consumer_stepE: "consumer_step faulty s t"

section \<open>The buffers are the file\<close>

text \<open>What has been fetched and not yet been given to the consumer.\<close>

definition ahead :: "ra \<Rightarrow> u8 list" where
  "ahead s = (if sema s \<or> Signalling \<in> set (fetches s) then buffer s else [])"

definition ra_inv :: "u8 list \<Rightarrow> ra \<Rightarrow> bool" where
  "ra_inv content s =
     (concat (given s) @ ahead s @ unread s = content \<and>
      list_all (\<lambda>b. length b \<le> buffer_size s) (given s) \<and> length (buffer s) \<le> buffer_size s \<and>
      length (fetches s) + (if sema s then 1 else 0) \<le> 1)"

lemma one_fetch: "length xs \<le> 1 \<Longrightarrow> xs = ys @ a # zs \<longleftrightarrow> xs = [a] \<and> ys = [] \<and> zs = []"
  by (cases ys; cases zs) auto

lemma ra_inv_init [inv_intros]:
  "read_ahead_init a b c d created content n = Some s \<Longrightarrow> ra_inv content s"
  by (auto simp: read_ahead_init_def start_def ra_inv_def ahead_def split: if_splits)

lemma ra_inv_fetch [inv_intros]: "ra_inv content s \<Longrightarrow> fetch_step faulty s t \<Longrightarrow> ra_inv content t"
  by (erule fetch_stepE)
     (auto simp: ra_inv_def ahead_def read_file_def one_fetch split: if_splits)

lemma ra_inv_consumer [inv_intros]: "ra_inv content s \<Longrightarrow> consumer_step faulty s t \<Longrightarrow> ra_inv content t"
  by (erule consumer_stepE)
     (auto simp: ra_inv_def ahead_def read_ahead_next_def start_def split: if_splits)

lemma ra_inv_run: "ra_run faulty s t \<Longrightarrow> ra_inv content s \<Longrightarrow> ra_inv content t"
  by (induction rule: ra_run.induct) (auto intro: inv_intros)

text \<open>
  Whatever the order of the fetching tasks and the consumer, and whatever reads fail,
  the buffers given to the consumer, then the one fetched ahead, then the unread rest are the file;
  no buffer is longer than its size, and two fetches never overlap.
\<close>

theorem read_ahead_in_order:
  assumes "read_ahead_init a b c d created content n = Some s" and "ra_run faulty s t"
  shows "concat (given t) @ ahead t @ unread t = content \<and>
         list_all (\<lambda>b. length b \<le> buffer_size t) (given t) \<and>
         length (fetches t) + (if sema t then 1 else 0) \<le> 1"
  using ra_inv_run [OF assms(2) ra_inv_init [OF assms(1)]] by (simp add: ra_inv_def)

section \<open>Without faults\<close>

definition ra_live :: "ra \<Rightarrow> bool" where
  "ra_live s =
     (length (fetches s) + (if sema s then 1 else 0) = 1 \<and> 0 < buffer_size s \<and>
      ((sema s \<or> fetches s = [Signalling]) \<and> buffer s = [] \<longrightarrow> unread s = []) \<and>
      ([] \<in> set (given s) \<longrightarrow> unread s = [] \<and> ahead s = []))"

lemma ra_live_init [inv_intros]:
  "read_ahead_init a b c d True content n = Some s \<Longrightarrow> 0 < n \<Longrightarrow> ra_live s"
  by (auto simp: read_ahead_init_def start_def ra_live_def split: if_splits)

lemma ra_live_fetch [inv_intros]: "ra_live s \<Longrightarrow> fetch_step False s t \<Longrightarrow> ra_live t"
  by (erule fetch_stepE)
     (auto simp: ra_live_def ahead_def read_file_def one_fetch split: if_splits)

lemma ra_live_consumer [inv_intros]: "ra_live s \<Longrightarrow> consumer_step False s t \<Longrightarrow> ra_live t"
  by (erule consumer_stepE)
     (auto simp: ra_live_def ahead_def read_ahead_next_def start_def split: if_splits)

lemma ra_live_run: "ra_run False s t \<Longrightarrow> ra_live s \<Longrightarrow> ra_live t"
  by (induction rule: ra_run.induct) (auto intro: inv_intros)

text \<open>
  C36: when no read and no start of a task fails, the consumer is never left waiting for a buffer
  that nobody fetches, and the first empty buffer it gets marks the end: everything in the file
  has been given by then.
\<close>

theorem read_ahead_complete:
  assumes "read_ahead_init a b c d True content n = Some s" and "0 < n" and "ra_run False s t"
  shows "(sema t \<or> fetches t \<noteq> []) \<and> ([] \<in> set (given t) \<longrightarrow> concat (given t) = content)"
  using ra_live_run [OF assms(3) ra_live_init [OF assms(1,2)]]
    ra_inv_run [OF assms(3) ra_inv_init [OF assms(1)]]
  by (auto simp: ra_live_def ra_inv_def split: if_splits)

section \<open>Release\<close>

lemma fetch_run: "ra_run faulty s t \<Longrightarrow> fetch_step faulty t u \<Longrightarrow> ra_run faulty s u"
  by (rule ra_run.ra_fetch)

text \<open>One fetch of a whole file that fits the buffer, and the consumer's copy of it.\<close>

lemma round_run:
  assumes "ra_run faulty s t" "fetches t = [Fetching]" "\<not> sema t" "\<not> released t"
  shows "ra_run faulty s (t\<lparr>buffer := take (buffer_size t) (unread t), unread := drop (buffer_size t) (unread t),
    fetches := [Fetching], given := given t @ [take (buffer_size t) (unread t)]\<rparr>)"
proof -
  let ?t1 = "(read_file t)\<lparr>fetches := [] @ Signalling # []\<rparr>"
  let ?t2 = "?t1\<lparr>sema := True, fetches := [] @ []\<rparr>"
  have "ra_run faulty s ?t1"
    using assms fetched [of t "[]" "[]"] by (auto intro: fetch_run)
  then have 2: "ra_run faulty s ?t2"
    using signalled [of ?t1 "[]" "[]"] by (auto intro: fetch_run)
  let ?t3 = "start True (?t2\<lparr>sema := False, given := given ?t2 @ [buffer ?t2]\<rparr>)"
  have "consumer_step faulty ?t2 ?t3"
    using assms(4) by (intro next_buffer [where n = 0 and created = True])
      (auto simp: read_ahead_next_def read_file_def)
  from ra_consume [OF 2 this] show ?thesis
    using assms(2,3) by (cases t) (simp add: start_def read_file_def)
qed

lemma pending_run:
  assumes "read_ahead_init a b c d True content n = Some s" and "0 < n"
  shows "\<exists>t. ra_run False s t \<and> released t \<and> fetches t = [Fetching] \<and>
    last (given t) = [] \<and> concat (given t) = content"
proof -
  have s: "fetches s = [Fetching]" "\<not> sema s" "\<not> released s" "buffer_size s = n" "given s = []" "unread s = content"
    using assms by (auto simp: read_ahead_init_def start_def split: if_splits)
  have "\<exists>t. ra_run False s t \<and> fetches t = [Fetching] \<and> \<not> sema t \<and> \<not> released t \<and> buffer_size t = n \<and>
      unread t = drop (k * n) content \<and> concat (given t) = take (k * n) content" for k
  proof (induction k)
    case 0
    then show ?case using s ra_refl [of False s] by (intro exI [of _ s]) auto
  next
    case (Suc k)
    then obtain t where t: "ra_run False s t" "fetches t = [Fetching]" "\<not> sema t" "\<not> released t"
      "buffer_size t = n" "unread t = drop (k * n) content" "concat (given t) = take (k * n) content"
      by blast
    show ?case
      by (rule exI, intro conjI, rule round_run [OF t(1-4)])
         (simp_all add: t take_add add.commute [of n])
  qed
  from this [of "length content"] obtain t where t: "ra_run False s t" "fetches t = [Fetching]"
    "\<not> sema t" "\<not> released t" "buffer_size t = n" "unread t = []" "concat (given t) = content"
    using assms(2) by auto
  show ?thesis
    by (rule exI, intro conjI, rule ra_consume [OF round_run [OF t(1-4)] read_ahead_deinit])
       (simp_all add: t)
qed

text \<open>
  The consumer of a file, however long, can reach the point where it has got the empty buffer,
  that is the end, and releases the buffer and the semaphores while the task that
  \<open>read_ahead_next\<close> has just started has yet to use them.
\<close>

theorem release_with_fetch_pending:
  assumes "read_ahead_init a b c d True content n = Some s" and "0 < n"
  shows "\<exists>t. ra_run False s t \<and> released t \<and> fetches t = [Fetching] \<and>
    last (given t) = [] \<and> concat (given t) = content"
  using pending_run [OF assms] .

definition short_file :: "u8 list" where
  "short_file = [1, 2, 3]"

definition short_reader :: ra where
  "short_reader = the (read_ahead_init True True True True True short_file 2)"

lemma short_reader: "read_ahead_init True True True True True short_file 2 = Some short_reader"
  by (simp add: short_reader_def read_ahead_init_def)

theorem read_ahead_in_order_witness:
  "concat (given short_reader) @ ahead short_reader @ unread short_reader = short_file \<and>
   list_all (\<lambda>b. length b \<le> buffer_size short_reader) (given short_reader) \<and>
   length (fetches short_reader) + (if sema short_reader then 1 else 0) \<le> 1"
  by (rule read_ahead_in_order [OF short_reader ra_refl])

theorem read_ahead_complete_witness:
  "\<exists>t. ra_run False short_reader t \<and> (sema t \<or> fetches t \<noteq> []) \<and> concat (given t) = short_file"
proof -
  obtain t where t: "ra_run False short_reader t" "last (given t) = []" "concat (given t) = short_file"
    using pending_run [OF short_reader] by auto
  show ?thesis
    using read_ahead_complete [OF short_reader _ t(1)] t by auto
qed

theorem release_with_fetch_pending_witness:
  "\<exists>t. ra_run False short_reader t \<and> released t \<and> fetches t = [Fetching] \<and>
    last (given t) = [] \<and> concat (given t) = short_file"
  by (rule release_with_fetch_pending [OF short_reader]) simp

end
