(* ===== verification/Player.thy ===== *)
theory Player
  imports Prelude Strings Config Vs1011 StreamPlaylist
begin

text \<open>
  \<open>src/firmware/main/audio/player.c\<close>, the parts that one task runs on its own: the sound
  settings, the name of what is playing, the playing of a file and of a stream. The state is that
  of the decoder chip and that of the settings partition. \<open>PlayerTask\<close> holds the protocol between
  the playing task and its callers.
\<close>

section \<open>Sound settings\<close>

text \<open>\<open>if (value != get()) put(value)\<close>\<close>

definition save_if_changed ::
  "('s \<Rightarrow> ('a \<times> 's) option) \<Rightarrow> ('a \<Rightarrow> 's \<Rightarrow> (bool \<times> 's) option) \<Rightarrow> 'a \<Rightarrow> 's \<Rightarrow> 's option" where
  "save_if_changed get put value s =
     (case get s of
        None \<Rightarrow> None
      | Some (current, s1) \<Rightarrow> if value \<noteq> current then map_option snd (put value s1) else Some s1)"

type_synonym sound = "vs \<times> nvs_state"

definition on_store :: "(nvs_state \<Rightarrow> nvs_state option) \<Rightarrow> vs \<Rightarrow> nvs_state \<Rightarrow> sound option" where
  "on_store f c s = map_option (Pair c) (f s)"

definition player_set_volume :: "u8 \<Rightarrow> sound \<Rightarrow> sound option" where
  "player_set_volume percents = (\<lambda>(c, s).
     let percents = if percents > 100 then 100 else percents
     in on_store (save_if_changed config_volume config_save_volume percents)
          (snd (vs1011_set_volume percents c)) s)"

definition player_set_bass_freqlimit :: "u8 \<Rightarrow> sound \<Rightarrow> sound option" where
  "player_set_bass_freqlimit value = (\<lambda>(c, s).
     let value = if value < 2 then 2 else value;
         value = if value > 15 then 15 else value
     in on_store (save_if_changed config_bass_freqlimit config_save_bass_freqlimit value)
          (snd (vs1011_set_bass_freqlimit value c)) s)"

definition player_set_bass_amplitude :: "u8 \<Rightarrow> sound \<Rightarrow> sound option" where
  "player_set_bass_amplitude value = (\<lambda>(c, s).
     let value = if value > 15 then 15 else value
     in on_store (save_if_changed config_bass_amplitude config_save_bass_amplitude value)
          (snd (vs1011_set_bass_amplitude value c)) s)"

definition player_set_treble_freqlimit :: "u8 \<Rightarrow> sound \<Rightarrow> sound option" where
  "player_set_treble_freqlimit value = (\<lambda>(c, s).
     let value = if value > 15 then 15 else value
     in on_store (save_if_changed config_treble_freqlimit config_save_treble_freqlimit value)
          (snd (vs1011_set_treble_freqlimit value c)) s)"

definition player_set_treble_amplitude :: "int \<Rightarrow> sound \<Rightarrow> sound option" where
  "player_set_treble_amplitude value = (\<lambda>(c, s).
     let value = if value < - 8 then - 8 else value;
         value = if value > 7 then 7 else value
     in on_store (save_if_changed config_treble_amplitude config_save_treble_amplitude value)
          (snd (vs1011_set_treble_amplitude value c)) s)"

text \<open>\<open>set(get())\<close>, as the start of the player does for each setting.\<close>

definition restore :: "(nvs_state \<Rightarrow> ('a \<times> nvs_state) option) \<Rightarrow> ('a \<Rightarrow> sound \<Rightarrow> sound option) \<Rightarrow> sound \<Rightarrow> sound option" where
  "restore get put = (\<lambda>(c, s). case get s of None \<Rightarrow> None | Some (v, s1) \<Rightarrow> put v (c, s1))"

text \<open>
  \<open>player_init\<close>: the outcomes of the semaphores of the driver, of the two queues, the mutex, the
  event group and the task.
\<close>

definition player_init :: "bool \<Rightarrow> bool \<Rightarrow> bool \<Rightarrow> bool \<Rightarrow> bool \<Rightarrow> bool \<Rightarrow> bool \<Rightarrow> sound \<Rightarrow> (bool \<times> sound) option" where
  "player_init vs_mutex vs_sema queue_made back_made mutex_made group_made task_made = (\<lambda>(c, s).
     case vs1011_init vs_mutex vs_sema c of (vs_ok, c1) \<Rightarrow>
       if \<not> vs_ok then Some (False, c1, s)
       else if \<not> queue_made then Some (False, c1, s)
       else if \<not> back_made then Some (False, c1, s)
       else if \<not> mutex_made then Some (False, c1, s)
       else if \<not> group_made then Some (False, c1, s)
       else map_option (Pair task_made)
         (Option.bind (restore config_volume player_set_volume (c1, s)) (\<lambda>p.
          Option.bind (restore config_bass_freqlimit player_set_bass_freqlimit p) (\<lambda>p.
          Option.bind (restore config_bass_amplitude player_set_bass_amplitude p) (\<lambda>p.
          Option.bind (restore config_treble_freqlimit player_set_treble_freqlimit p) (\<lambda>p.
          restore config_treble_amplitude player_set_treble_amplitude p))))))"

section \<open>The name of what is playing\<close>

text \<open>
  The loop \<open>do { i--; } while (str[i] != '/' && i > 0)\<close>. From \<open>i = 0\<close> the index wraps and the read is
  out of bounds, which is None.
\<close>

fun last_slash :: "string \<Rightarrow> nat \<Rightarrow> nat option" where
  "last_slash str 0 = None"
| "last_slash str (Suc i) = (if str ! i \<noteq> CHR ''/'' \<and> i > 0 then last_slash str i else Some i)"

definition now_playing_of :: "string \<Rightarrow> string option" where
  "now_playing_of str =
     (case last_slash str (length str) of
        None \<Rightarrow> None
      | Some i \<Rightarrow> Some (if i \<noteq> 0 then drop (i + 1) str else str))"

text \<open>
  \<open>player_get_now_playing\<close>: nothing before the mutex exists or when nothing plays, else the name as
  \<open>strncpy\<close> leaves it in the caller's buffer, None when it is not terminated.
\<close>

definition player_get_now_playing :: "bool \<Rightarrow> string option \<Rightarrow> nat \<Rightarrow> bool \<times> string option" where
  "player_get_now_playing has_mutex now_playing n =
     (if \<not> has_mutex then (False, None)
      else case now_playing of None \<Rightarrow> (False, None) | Some name \<Rightarrow> (True, strncpy n name))"

section \<open>Playing a file\<close>

definition VS1011_BUFFER_SIZE :: nat where
  "VS1011_BUFFER_SIZE = 16384"

text \<open>The buffers of a file, \<open>n\<close> bytes each but the last, and the empty one at its end.\<close>

function file_buffers :: "nat \<Rightarrow> u8 list \<Rightarrow> u8 list list" where
  "file_buffers n bs = (if bs = [] \<or> n = 0 then [[]] else take n bs # file_buffers n (drop n bs))"
  by pat_completeness auto
termination
  by (relation "measure (\<lambda>(n, bs). length bs)") auto

declare file_buffers.simps [simp del]

text \<open>
  What \<open>file_read_func\<close> answers at each call: nothing from the call on that finds the stop bit, the
  next buffer otherwise.
\<close>

definition reads :: "nat option \<Rightarrow> u8 list list \<Rightarrow> u8 list list" where
  "reads stop_at bufs = (case stop_at of None \<Rightarrow> bufs | Some k \<Rightarrow> take k bufs @ [[]])"

text \<open>
  \<open>play_file\<close>, with the outcome of \<open>read_ahead_init\<close>; without a reader the first read goes through a
  null pointer.
\<close>

definition play_file :: "(string \<Rightarrow> u8 list option) \<Rightarrow> bool \<Rightarrow> nat option \<Rightarrow> string \<Rightarrow> vs \<Rightarrow> (bool \<times> vs) option" where
  "play_file content_of reader_ok stop_at path c =
     (case content_of path of
        None \<Rightarrow> Some (False, c)
      | Some content \<Rightarrow>
          if \<not> reader_ok then None
          else Some (True, vs1011_play (Some (reads stop_at (file_buffers VS1011_BUFFER_SIZE content)))
                             (of_nat (length content)) True c))"

section \<open>Playing a stream\<close>

text \<open>What one round of the loop meets, with the buffers that the stream delivers.\<close>

datatype attempt =
    NoNetwork
  | BadPlaylist
  | NotStarted
  | PlayerStopped "u8 list list"
  | EndOfStream "u8 list list"

text \<open>
  The loop of \<open>play_stream\<close> over the rounds to come, with the number of calls of the error callback;
  None when there are rounds to come after the last one given.
\<close>

fun play_stream_loop :: "bool \<Rightarrow> bool \<Rightarrow> attempt list \<Rightarrow> u8 \<Rightarrow> nat \<Rightarrow> vs \<Rightarrow> (bool \<times> nat \<times> vs) option" where
  "play_stream_loop cb endless [] retries errors c = None"
| "play_stream_loop cb endless (a # as) retries errors c =
     (let errors' = errors + (if cb then 1 else 0);
          again = (\<lambda>c. if endless then play_stream_loop cb endless as retries errors' c
                       else if retries - 1 > 0 then play_stream_loop cb endless as (retries - 1) errors' c
                       else Some (False, errors', c))
      in case a of
           NoNetwork \<Rightarrow> Some (False, errors', c)
         | BadPlaylist \<Rightarrow> Some (False, errors', c)
         | NotStarted \<Rightarrow> again c
         | PlayerStopped bufs \<Rightarrow> Some (True, errors, vs1011_play (Some bufs) 0 True c)
         | EndOfStream bufs \<Rightarrow> again (vs1011_play (Some bufs) 0 True c))"

definition play_stream :: "bool \<Rightarrow> attempt list \<Rightarrow> vs \<Rightarrow> (bool \<times> nat \<times> vs) option" where
  "play_stream cb as c = play_stream_loop cb (config_stream_retries = 0) as config_stream_retries 0 c"

definition play :: "files \<Rightarrow> bool \<Rightarrow> nat option \<Rightarrow> bool \<Rightarrow> attempt list \<Rightarrow> string option \<Rightarrow> vs \<Rightarrow> (bool \<times> vs) option" where
  "play fs reader_ok stop_at cb as path c =
     (case path of
        None \<Rightarrow> Some (False, c)
      | Some f \<Rightarrow>
          if stream_playlist_is_stream fs f
          then map_option (\<lambda>(r, e, c'). (r, c')) (play_stream cb as c)
          else play_file (\<lambda>f. map_option (map byte) (fs f)) reader_ok stop_at f c)"

section \<open>The settings are kept\<close>

text \<open>
  A setting on a store that never fails to write: the client that saves a changed value only ends
  with the value in the store, whatever was there.
\<close>

locale sound_setting = setting get put norm ok good
  for get :: "'s \<Rightarrow> ('a \<times> 's) option" and put :: "'a \<Rightarrow> 's \<Rightarrow> (bool \<times> 's) option"
    and norm :: "'a \<Rightarrow> 'a" and ok good +
  assumes put_sure: "good s \<Longrightarrow> put v s = Some (r, s') \<Longrightarrow> r"
    and get_total: "good s \<Longrightarrow> \<exists>v s'. get s = Some (v, s') \<and> good s' \<and> get s' = Some (v, s')"
begin

lemma saved:
  assumes "good s" "ok v" "norm v = v"
  shows "\<exists>s'. save_if_changed get put v s = Some s' \<and> get s' = Some (v, s') \<and> good s'"
proof -
  obtain w s1 where g: "get s = Some (w, s1)" "good s1" "get s1 = Some (w, s1)"
    using get_total [OF assms(1)] by blast
  obtain r s2 where p: "put v s1 = Some (r, s2)" "good s2"
    using put_total [OF g(2)] by blast
  then have "put v s1 = Some (True, s2)" using put_sure [OF g(2)] by simp
  from get_put [OF g(2) assms(2) this] assms(3) have "get s2 = Some (v, s2)" by simp
  with g p show ?thesis by (cases "v = w") (auto simp: save_if_changed_def)
qed

end

definition sure :: "nvs_state \<Rightarrow> bool" where
  "sure s = (running s \<and> writes s = [])"

lemma sure_items [simp]: "sure (s\<lparr>items := m\<rparr>) = sure s"
  by (simp add: sure_def running_def)

lemma save_sure [simp]:
  "sure s \<Longrightarrow> nvs_save_uint8 key v s = Some (True, s\<lparr>items := (items s)(key \<mapsto> NvsU8 v)\<rparr>)"
  by (simp add: sure_def nvs_save_uint8_def nvs_set_def)

lemma read_sure [simp]:
  "sure s \<Longrightarrow> nvs_read_uint8 key s = Some (case items s key of Some (NvsU8 v) \<Rightarrow> Some v | _ \<Rightarrow> None, s)"
  by (simp add: sure_def nvs_read_uint8_def)

lemma u8_setting_sure:
  "sure s \<Longrightarrow> u8_setting key d s =
     (case items s key of Some (NvsU8 v) \<Rightarrow> Some (v, s) | _ \<Rightarrow> Some (d, s\<lparr>items := (items s)(key \<mapsto> NvsU8 d)\<rparr>))"
  by (simp add: u8_setting_def split: option.splits nvs_item.splits)

lemma sound_setting_u8:
  "sound_setting (u8_setting key d) (nvs_save_uint8 key) (\<lambda>v. v) (\<lambda>_. True) sure"
  by unfold_locales (auto simp: u8_setting_sure split: option.splits nvs_item.splits)

interpretation player_volume: sound_setting config_volume config_save_volume "\<lambda>v. min v 100" "\<lambda>_. True" sure
  by unfold_locales
     (auto simp: config_volume_def config_save_volume_def min_def not_less split: option.splits nvs_item.splits)

interpretation player_bass_freqlimit:
  sound_setting config_bass_freqlimit config_save_bass_freqlimit "\<lambda>v. v" "\<lambda>_. True" sure
  using sound_setting_u8 [of "''bass_freqlim''" 0]
  by (simp add: config_bass_freqlimit_def config_save_bass_freqlimit_def [abs_def])

interpretation player_bass_amplitude:
  sound_setting config_bass_amplitude config_save_bass_amplitude "\<lambda>v. v" "\<lambda>_. True" sure
  using sound_setting_u8 [of "''bass_amp''" 0]
  by (simp add: config_bass_amplitude_def config_save_bass_amplitude_def [abs_def])

interpretation player_treble_freqlimit:
  sound_setting config_treble_freqlimit config_save_treble_freqlimit "\<lambda>v. v" "\<lambda>_. True" sure
  using sound_setting_u8 [of "''treb_freqlim''" 0]
  by (simp add: config_treble_freqlimit_def config_save_treble_freqlimit_def [abs_def])

interpretation player_treble_amplitude:
  sound_setting config_treble_amplitude config_save_treble_amplitude "\<lambda>v. v" "\<lambda>v. - 128 \<le> v \<and> v < 128" sure
  by unfold_locales
     (auto simp: config_treble_amplitude_def config_save_treble_amplitude_def u8_setting_sure
       split: option.splits nvs_item.splits)


section \<open>The name is the last part of the path\<close>

lemma last_slash_name:
  assumes "d \<noteq> []" "CHR ''/'' \<notin> set name" "k \<le> length name"
  shows "last_slash (d @ ''/'' @ name) (Suc (length d + k)) = Some (length d)"
  using assms(3)
proof (induction k)
  case 0
  then show ?case by (simp add: nth_append)
next
  case (Suc k)
  then have "(d @ ''/'' @ name) ! Suc (length d + k) = name ! k" by (simp add: nth_append)
  moreover have "name ! k \<noteq> CHR ''/''" using assms(2) Suc.prems by (auto simp: in_set_conv_nth)
  ultimately show ?case using Suc by simp
qed

lemma last_slash_none:
  "CHR ''/'' \<notin> set name \<Longrightarrow> Suc k \<le> length name \<Longrightarrow> last_slash name (Suc k) = Some 0"
proof (induction k)
  case (Suc k)
  then have "name ! Suc k \<noteq> CHR ''/''" by (auto simp: in_set_conv_nth)
  with Suc show ?case by simp
qed simp

lemma last_slash_total: "0 < k \<Longrightarrow> \<exists>i. last_slash s k = Some i"
proof (induction k)
  case (Suc k)
  then show ?case by (cases k) auto
qed simp

lemma named_path: "f \<noteq> [] \<Longrightarrow> \<exists>n. now_playing_of f = Some n"
  using last_slash_total [of "length f" f] by (auto simp: now_playing_of_def)

text \<open>
  The name that is shown for a path is its last component; a path without a slash is its own
  name. Only the empty path, for which the loop reads before the start of the string, has none.
\<close>

theorem now_playing_name:
  assumes "CHR ''/'' \<notin> set name"
  shows "(d \<noteq> [] \<longrightarrow> now_playing_of (d @ ''/'' @ name) = Some name) \<and>
         (now_playing_of name = (if name = [] then None else Some name))"
proof -
  have "now_playing_of (d @ ''/'' @ name) = Some name" if "d \<noteq> []"
    using last_slash_name [OF that assms order_refl] that by (simp add: now_playing_of_def)
  moreover have "now_playing_of name = (if name = [] then None else Some name)"
  proof (cases name)
    case (Cons c cs)
    then show ?thesis
      using last_slash_none [OF assms, of "length cs"] by (simp add: now_playing_of_def)
  qed (simp add: now_playing_of_def)
  ultimately show ?thesis by simp
qed

section \<open>A file is played in full\<close>

lemma file_buffers_Nil [simp]: "file_buffers n [] = [[]]"
  by (simp add: file_buffers.simps)

lemma file_buffers_concat: "0 < n \<Longrightarrow> concat (takeWhile (\<lambda>b. b \<noteq> []) (file_buffers n bs)) = bs"
proof (induction n bs rule: file_buffers.induct)
  case (1 n bs)
  then show ?case by (cases "bs = []") (simp_all add: file_buffers.simps [of n bs])
qed

lemma file_buffers_stopped:
  "0 < n \<Longrightarrow> concat (takeWhile (\<lambda>b. b \<noteq> []) (take k (file_buffers n bs) @ [[]])) = take (k * n) bs"
proof (induction n bs arbitrary: k rule: file_buffers.induct)
  case (1 n bs)
  then show ?case
    by (cases "bs = []"; cases k) (simp_all add: file_buffers.simps [of n bs] take_add)
qed

text \<open>
  C19: a file that plays to its end reaches the decoder completely, byte for byte and in order,
  in transfers of 1 to 32 bytes between unmuting and muting; one that is stopped does so up to the
  buffer before the stop.
\<close>

theorem play_file_sends:
  assumes "content_of path = Some content"
  shows "\<exists>c' chunks k. play_file content_of True stop_at path c = Some (True, c') \<and>
     audio c' = audio c @ [Sdi [0, 0], MuteGpio True] @ map Sdi chunks @ [MuteGpio False] @
       replicate k (Sdi zeros) \<and>
     concat chunks = (case stop_at of None \<Rightarrow> content | Some n \<Rightarrow> take (n * VS1011_BUFFER_SIZE) content) \<and>
     list_all (\<lambda>c. 0 < length c \<and> length c \<le> 32) chunks"
proof -
  have p: "0 < VS1011_BUFFER_SIZE" by (simp add: VS1011_BUFFER_SIZE_def)
  have "concat (takeWhile (\<lambda>b. b \<noteq> []) (reads stop_at (file_buffers VS1011_BUFFER_SIZE content))) =
      (case stop_at of None \<Rightarrow> content | Some n \<Rightarrow> take (n * VS1011_BUFFER_SIZE) content)"
    by (cases stop_at) (simp_all add: reads_def file_buffers_concat [OF p] file_buffers_stopped [OF p])
  with play_audio [of "reads stop_at (file_buffers VS1011_BUFFER_SIZE content)"
      "of_nat (length content)" True c]
  show ?thesis using assms by (simp add: play_file_def)
qed

theorem play_file_sends_witness:
  "\<exists>c' chunks. play_file [''/sd/a.mp3'' \<mapsto> [1, 2, 3]] True None ''/sd/a.mp3'' \<lparr>answers = [], ops = []\<rparr> = Some (True, c') \<and>
     concat chunks = [1, 2, 3] \<and> Sdi [0, 0] # MuteGpio True # map Sdi chunks = take (length chunks + 2) (audio c')"
proof -
  obtain c' chunks k where p: "play_file [''/sd/a.mp3'' \<mapsto> [1, 2, 3]] True None ''/sd/a.mp3'' \<lparr>answers = [], ops = []\<rparr> = Some (True, c')"
    "audio c' = audio \<lparr>answers = [], ops = []\<rparr> @ [Sdi [0, 0], MuteGpio True] @ map Sdi chunks @ [MuteGpio False] @
       replicate k (Sdi zeros)" "concat chunks = [1, 2, 3]"
    using play_file_sends [of "[''/sd/a.mp3'' \<mapsto> [1, 2, 3]]" "''/sd/a.mp3''" "[1, 2, 3]" None "\<lparr>answers = [], ops = []\<rparr>"]
    by auto
  have "audio \<lparr>answers = [], ops = []\<rparr> = []" by (simp add: audio_def)
  with p show ?thesis by (intro exI [of _ c'] exI [of _ chunks]) simp
qed

section \<open>Retries of a stream\<close>

fun retried :: "attempt \<Rightarrow> bool" where
  "retried NotStarted = True"
| "retried (EndOfStream bufs) = True"
| "retried _ = False"

definition rounds_result :: "bool \<Rightarrow> attempt list \<Rightarrow> nat \<Rightarrow> nat \<Rightarrow> (bool \<times> nat) option" where
  "rounds_result cb as r e =
     (let k = length (takeWhile retried (take r as)); n = (if cb then 1 else 0)
      in if k = r then Some (False, e + n * k)
         else if k = length as then None
         else (case as ! k of PlayerStopped bufs \<Rightarrow> Some (True, e + n * k) | _ \<Rightarrow> Some (False, e + n * Suc k)))"

lemma rounds_result_Cons:
  "0 < r \<Longrightarrow> rounds_result cb (a # as) r e =
     (if retried a then rounds_result cb as (r - 1) (e + (if cb then 1 else 0))
      else case a of PlayerStopped bufs \<Rightarrow> Some (True, e) | _ \<Rightarrow> Some (False, e + (if cb then 1 else 0)))"
  by (cases r; cases a; cases cb) (simp_all add: rounds_result_def Let_def split: attempt.split)

lemma rounds_result_0: "rounds_result cb as 0 e = Some (False, e)"
  by (simp add: rounds_result_def)

lemma u8_pred: "0 < unat (w :: u8) \<Longrightarrow> unat (w - 1) = unat w - 1"
  by (simp add: unat_sub word_le_nat_alt Suc_le_eq)

lemma stream_rounds:
  "0 < unat r \<Longrightarrow> map_option (\<lambda>(b, e, c'). (b, e)) (play_stream_loop cb False as r e c) =
     rounds_result cb as (unat r) e"
proof (induction as arbitrary: r e c)
  case Nil
  then show ?case by (simp add: rounds_result_def)
next
  case (Cons a as)
  have z: "(r - 1 > 0) = (0 < unat r - 1)"
    using u8_pred [OF Cons.prems] by (simp add: word_less_nat_alt)
  have "map_option (\<lambda>(b, e, c'). (b, e))
      (if r - 1 > 0 then play_stream_loop cb False as (r - 1) e' c' else Some (False, e', c')) =
    rounds_result cb as (unat r - 1) e'" for e' c'
    using Cons.IH [of "r - 1" e' c'] u8_pred [OF Cons.prems] z by (auto simp: rounds_result_0)
  then show ?case
    using Cons.prems by (cases a) (simp_all add: rounds_result_Cons Let_def)
qed

text \<open>
  Playing a stream makes at most three rounds, goes on to the next only when the stream did
  not start or came to its end, succeeds exactly when the player was stopped in one of them, and
  reports every failed round through the error callback.
\<close>

theorem play_stream_rounds:
  "map_option (\<lambda>(b, e, c'). (b, e)) (play_stream cb as c) = rounds_result cb as 3 0"
  using stream_rounds [of 3 cb as 0 c] by (simp add: play_stream_def config_stream_retries_def)


theorem now_playing_name_witness:
  "now_playing_of ''/sd/music/song.mp3'' = Some ''song.mp3''"
  using now_playing_name [of "''song.mp3''" "''/sd/music''"] by simp

end
