(* ===== verification/PlayerTask.thy ===== *)
theory PlayerTask
  imports Prelude Player
begin

text \<open>
  \<open>src/firmware/main/audio/player.c\<close>: the protocol between the playing task (\<open>player_thread\<close>), the
  scheduler that starts files (\<open>player_start\<close>) and another task that stops them (\<open>player_stop\<close>).
  They share two queues of length one, three event bits and the state under the mutex, and
  interleave at every access to them, so each is a step relation on one state. What happens while
  a file plays, the subject of \<open>Player\<close>, is here the choice between the end of the data, with any
  result, and the discovery of the stop bit.
\<close>

datatype player_state_t = PLAYING | STOPPED

text \<open>The places in \<open>player_stop\<close> and in \<open>wait_for_state\<close>, which it calls.\<close>

datatype stop_at = StopGet | StopSet | WaitGet | WaitClear | WaitBits | WaitCheck | StopClear bool | StopDone bool

datatype caller =
    Idle
  | StartGet string
  | StartStop stop_at string
  | StartCheck string
  | StartClear string
  | StartSend string
  | StartReceive string
  | Started string bool

datatype task_at =
    Waiting
  | Naming string
  | SetPlaying string
  | SignalPlaying bool string
  | Playing string
  | StopSeen string
  | Finished string bool
  | Replying string bool
  | SetStopped
  | SignalStopped bool

record pstate =
  player_state :: player_state_t
  now_playing :: "string option"
  queue :: "string option"
  back_queue :: "bool option"
  changed_bit :: bool
  stop_bit :: bool
  stopped_bit :: bool
  scheduler_at :: caller
  other_at :: "stop_at option"
  task_at :: task_at

definition player_begin :: pstate where
  "player_begin =
     \<lparr>player_state = STOPPED, now_playing = None, queue = None, back_queue = None, changed_bit = False,
      stop_bit = False, stopped_bit = False, scheduler_at = Idle, other_at = None, task_at = Waiting\<rparr>"

text \<open>\<open>player_stop\<close>, one access to the shared state at a time.\<close>

fun stop_step :: "stop_at \<Rightarrow> pstate \<Rightarrow> (stop_at \<times> pstate) option" where
  "stop_step StopGet p =
     Some (if player_state p = STOPPED then StopDone True else StopSet, p)"
| "stop_step StopSet p = Some (WaitGet, p\<lparr>stop_bit := True\<rparr>)"
| "stop_step WaitGet p =
     Some (if player_state p = STOPPED then StopClear True else WaitClear, p)"
| "stop_step WaitClear p = Some (WaitBits, p\<lparr>changed_bit := False\<rparr>)"
| "stop_step WaitBits p = (if changed_bit p then Some (WaitCheck, p\<lparr>changed_bit := False\<rparr>) else None)"
| "stop_step WaitCheck p = Some (StopClear (player_state p = STOPPED), p)"
| "stop_step (StopClear ok) p = Some (StopDone ok, p\<lparr>stop_bit := False\<rparr>)"
| "stop_step (StopDone ok) p = None"

text \<open>\<open>player_start\<close>; the allocation may fail.\<close>

inductive start_step :: "pstate \<Rightarrow> pstate \<Rightarrow> bool" where
  call_start:
    "scheduler_at p = Idle \<Longrightarrow> start_step p (p\<lparr>scheduler_at := StartGet f\<rparr>)"
| start_get:
    "scheduler_at p = StartGet f \<Longrightarrow>
     start_step p (p\<lparr>scheduler_at :=
       if player_state p = PLAYING then StartStop StopGet f else StartCheck f\<rparr>)"
| start_stop:
    "scheduler_at p = StartStop a f \<Longrightarrow> stop_step a p = Some (b, q) \<Longrightarrow>
     start_step p (q\<lparr>scheduler_at := StartStop b f\<rparr>)"
| start_stopped:
    "scheduler_at p = StartStop (StopDone ok) f \<Longrightarrow>
     start_step p (p\<lparr>scheduler_at := StartCheck f\<rparr>)"
| start_too_long:
    "scheduler_at p = StartCheck f \<Longrightarrow> length f > 1024 \<Longrightarrow>
     start_step p (p\<lparr>scheduler_at := Idle\<rparr>)"
| start_no_memory:
    "scheduler_at p = StartCheck f \<Longrightarrow> length f \<le> 1024 \<Longrightarrow>
     start_step p (p\<lparr>scheduler_at := Idle\<rparr>)"
| start_check:
    "scheduler_at p = StartCheck f \<Longrightarrow> length f \<le> 1024 \<Longrightarrow>
     start_step p (p\<lparr>scheduler_at := StartClear f\<rparr>)"
| start_clear:
    "scheduler_at p = StartClear f \<Longrightarrow>
     start_step p (p\<lparr>stop_bit := False, stopped_bit := False, scheduler_at := StartSend f\<rparr>)"
| start_send:
    "scheduler_at p = StartSend f \<Longrightarrow> queue p = None \<Longrightarrow>
     start_step p (p\<lparr>queue := Some f, scheduler_at := StartReceive f\<rparr>)"
| start_receive:
    "scheduler_at p = StartReceive f \<Longrightarrow> back_queue p = Some r \<Longrightarrow>
     start_step p (p\<lparr>back_queue := None, scheduler_at := Started f r\<rparr>)"
| start_return:
    "scheduler_at p = Started f r \<Longrightarrow> start_step p (p\<lparr>scheduler_at := Idle\<rparr>)"

inductive other_step :: "pstate \<Rightarrow> pstate \<Rightarrow> bool" where
  call_stop:
    "other_at p = None \<Longrightarrow> other_step p (p\<lparr>other_at := Some StopGet\<rparr>)"
| stop_stop:
    "other_at p = Some a \<Longrightarrow> stop_step a p = Some (b, q) \<Longrightarrow>
     other_step p (q\<lparr>other_at := Some b\<rparr>)"
| stop_return:
    "other_at p = Some (StopDone ok) \<Longrightarrow> other_step p (p\<lparr>other_at := None\<rparr>)"

text \<open>
  \<open>player_thread\<close>. Setting the state is a write under the mutex and then, when the state differs, the
  signal. An empty file name, for which \<open>set_now_playing\<close> reads out of bounds, has no step.
\<close>

inductive task_step :: "pstate \<Rightarrow> pstate \<Rightarrow> bool" where
  task_receive:
    "task_at p = Waiting \<Longrightarrow> queue p = Some f \<Longrightarrow>
     task_step p (p\<lparr>queue := None, task_at := Naming f\<rparr>)"
| task_name:
    "task_at p = Naming f \<Longrightarrow> now_playing_of f = Some n \<Longrightarrow>
     task_step p (p\<lparr>now_playing := Some n, task_at := SetPlaying f\<rparr>)"
| task_set_playing:
    "task_at p = SetPlaying f \<Longrightarrow>
     task_step p (p\<lparr>player_state := PLAYING, task_at := SignalPlaying (player_state p \<noteq> PLAYING) f\<rparr>)"
| task_signal_playing:
    "task_at p = SignalPlaying c f \<Longrightarrow>
     task_step p (p\<lparr>changed_bit := changed_bit p \<or> c, task_at := Playing f\<rparr>)"
| task_end:
    "task_at p = Playing f \<Longrightarrow> task_step p (p\<lparr>task_at := Finished f r\<rparr>)"
| task_sees_stop:
    "task_at p = Playing f \<Longrightarrow> stop_bit p \<Longrightarrow>
     task_step p (p\<lparr>stop_bit := False, task_at := StopSeen f\<rparr>)"
| task_stopped_file:
    "task_at p = StopSeen f \<Longrightarrow> task_step p (p\<lparr>stopped_bit := True, task_at := Finished f True\<rparr>)"
| task_stopped_stream:
    "task_at p = StopSeen f \<Longrightarrow> task_step p (p\<lparr>stopped_bit := False, task_at := Finished f True\<rparr>)"
| task_unname:
    "task_at p = Finished f r \<Longrightarrow> task_step p (p\<lparr>now_playing := None, task_at := Replying f r\<rparr>)"
| task_reply:
    "task_at p = Replying f r \<Longrightarrow> back_queue p = None \<Longrightarrow>
     task_step p (p\<lparr>back_queue := Some r, task_at := SetStopped\<rparr>)"
| task_reply_timeout:
    "task_at p = Replying f r \<Longrightarrow> back_queue p \<noteq> None \<Longrightarrow>
     task_step p (p\<lparr>task_at := SetStopped\<rparr>)"
| task_set_stopped:
    "task_at p = SetStopped \<Longrightarrow>
     task_step p (p\<lparr>player_state := STOPPED, task_at := SignalStopped (player_state p \<noteq> STOPPED)\<rparr>)"
| task_signal_stopped:
    "task_at p = SignalStopped c \<Longrightarrow>
     task_step p (p\<lparr>changed_bit := changed_bit p \<or> c, task_at := Waiting\<rparr>)"

inductive player_run :: "pstate \<Rightarrow> pstate \<Rightarrow> bool" where
  run_refl: "player_run p p"
| run_start: "player_run i p \<Longrightarrow> start_step p q \<Longrightarrow> player_run i q"
| run_other: "player_run i p \<Longrightarrow> other_step p q \<Longrightarrow> player_run i q"
| run_task: "player_run i p \<Longrightarrow> task_step p q \<Longrightarrow> player_run i q"

inductive_cases start_stepE: "start_step p q"
inductive_cases other_stepE: "other_step p q"
inductive_cases task_stepE: "task_step p q"

lemma stop_step_frame:
  "stop_step a p = Some (b, q) \<Longrightarrow>
     player_state q = player_state p \<and> now_playing q = now_playing p \<and> queue q = queue p \<and>
     back_queue q = back_queue p \<and> scheduler_at q = scheduler_at p \<and> other_at q = other_at p \<and>
     task_at q = task_at p"
  by (cases a) (auto split: if_splits)

section \<open>The protocol\<close>

text \<open>The file that the task is busy with and has not answered for yet.\<close>

fun busy_with :: "task_at \<Rightarrow> string option" where
  "busy_with (Naming f) = Some f"
| "busy_with (SetPlaying f) = Some f"
| "busy_with (SignalPlaying c f) = Some f"
| "busy_with (Playing f) = Some f"
| "busy_with (StopSeen f) = Some f"
| "busy_with (Finished f r) = Some f"
| "busy_with (Replying f r) = Some f"
| "busy_with _ = None"

fun awaited :: "caller \<Rightarrow> string option" where
  "awaited (StartReceive f) = Some f"
| "awaited _ = None"

fun is_playing :: "task_at \<Rightarrow> bool" where
  "is_playing (SignalPlaying c f) = True"
| "is_playing (Playing f) = True"
| "is_playing (StopSeen f) = True"
| "is_playing (Finished f r) = True"
| "is_playing (Replying f r) = True"
| "is_playing SetStopped = True"
| "is_playing _ = False"

fun named :: "task_at \<Rightarrow> string option" where
  "named (SetPlaying f) = now_playing_of f"
| "named (SignalPlaying c f) = now_playing_of f"
| "named (Playing f) = now_playing_of f"
| "named (StopSeen f) = now_playing_of f"
| "named (Finished f r) = now_playing_of f"
| "named _ = None"

text \<open>
  A file that an answer is awaited for is in the queue, with the task, or answered; otherwise nothing
  is.
\<close>

fun in_one_place :: "string option \<Rightarrow> string option \<Rightarrow> string option \<Rightarrow> bool option \<Rightarrow> bool" where
  "in_one_place None q b r = (q = None \<and> b = None \<and> r = None)"
| "in_one_place (Some f) q b r =
     ((q = Some f \<and> b = None \<and> r = None) \<or> (q = None \<and> b = Some f \<and> r = None) \<or>
      (q = None \<and> b = None \<and> r \<noteq> None))"

definition player_inv :: "pstate \<Rightarrow> bool" where
  "player_inv p =
     (in_one_place (awaited (scheduler_at p)) (queue p) (busy_with (task_at p)) (back_queue p) \<and>
      (player_state p = PLAYING \<longleftrightarrow> is_playing (task_at p)) \<and>
      now_playing p = named (task_at p))"

lemma player_inv_begin [inv_intros]: "player_inv player_begin"
  by (simp add: player_inv_def player_begin_def)

lemma player_inv_start [inv_intros]: "player_inv p \<Longrightarrow> start_step p q \<Longrightarrow> player_inv q"
  by (erule start_stepE) (auto simp: player_inv_def dest!: stop_step_frame)

lemma player_inv_other [inv_intros]: "player_inv p \<Longrightarrow> other_step p q \<Longrightarrow> player_inv q"
  by (erule other_stepE) (auto simp: player_inv_def dest!: stop_step_frame)

lemma player_inv_task [inv_intros]: "player_inv p \<Longrightarrow> task_step p q \<Longrightarrow> player_inv q"
  by (erule task_stepE; cases "awaited (scheduler_at p)") (auto simp: player_inv_def)

lemma player_inv_run: "player_run i p \<Longrightarrow> player_inv i \<Longrightarrow> player_inv p"
  by (induction rule: player_run.induct) (auto intro: inv_intros)

text \<open>
  C8: in every state that the three tasks can reach, exactly one of queue, playing task and answer
  queue holds the file that a waiting \<open>player_start\<close> has sent, so the answer it gets is the one for
  its own file and the answer queue is never full; the state is PLAYING exactly from
  \<open>set_state(PLAYING)\<close> to \<open>set_state(STOPPED)\<close>; and the shown name is that of the file being
  played, so the pointer to it never outlives the file name it points into.
\<close>

theorem player_protocol:
  assumes "player_run player_begin p"
  shows "in_one_place (awaited (scheduler_at p)) (queue p) (busy_with (task_at p)) (back_queue p) \<and>
      (player_state p = PLAYING \<longleftrightarrow> is_playing (task_at p)) \<and>
      now_playing p = named (task_at p)"
  using player_inv_run [OF assms player_inv_begin] by (simp add: player_inv_def)

section \<open>Progress\<close>

lemma stop_step_stuck: "stop_step a p = None \<Longrightarrow> (\<exists>ok. a = StopDone ok) \<or> (a = WaitBits \<and> \<not> changed_bit p)"
  by (cases a) (auto split: if_splits)

lemma task_progress:
  assumes "task_at p \<noteq> Waiting \<or> queue p \<noteq> None" and "\<And>f. task_at p = Naming f \<Longrightarrow> f \<noteq> []"
  shows "\<exists>q. task_step p q"
proof (cases "task_at p")
  case (Naming f)
  have "\<exists>n. now_playing_of f = Some n"
    using assms(2) [OF Naming] named_path by blast
  with Naming show ?thesis by (blast intro: task_name)
next
  case (Replying f r)
  then show ?thesis by (cases "back_queue p") (auto intro: task_reply task_reply_timeout)
qed (use assms(1) in \<open>auto intro: task_step.intros\<close>)

lemma player_stuck:
  assumes "player_inv p" "scheduler_at p \<noteq> Idle" "task_at p \<noteq> Naming []"
    and "\<nexists>q. start_step p q" "\<nexists>q. task_step p q"
  shows "\<exists>f. scheduler_at p = StartStop WaitBits f \<and> \<not> changed_bit p \<and> task_at p = Waiting"
proof -
  have idle: "task_at p = Waiting" "queue p = None"
    using task_progress [of p] assms(3,5) by blast+
  have none: "\<not> start_step p q" for q using assms(4) by blast
  show ?thesis
  proof (cases "scheduler_at p")
    case (StartGet f)
    with start_get none show ?thesis by blast
  next
    case (StartStop a f)
    then have "stop_step a p = None"
      using start_stop [of p a f] none by (cases "stop_step a p") auto
    moreover have "\<forall>ok. a \<noteq> StopDone ok"
      using start_stopped [of p] StartStop none by blast
    ultimately show ?thesis using stop_step_stuck StartStop idle by blast
  next
    case (StartCheck f)
    with start_too_long start_check none show ?thesis by (meson not_less)
  next
    case (StartClear f)
    with start_clear none show ?thesis by blast
  next
    case (StartSend f)
    with start_send idle none show ?thesis by blast
  next
    case (StartReceive f)
    with assms(1) idle obtain r where "back_queue p = Some r"
      by (auto simp: player_inv_def)
    with StartReceive start_receive none show ?thesis by blast
  next
    case (Started f r)
    with start_return none show ?thesis by blast
  qed (use assms(2) in auto)
qed

text \<open>
  C26: starting a file does not deadlock, with one exception: when neither the scheduler in
  \<open>player_start\<close> nor the playing task can go on, the scheduler is in \<open>wait_for_state\<close> and waits for a
  signal while the player is already stopped.
\<close>

theorem player_start_progress:
  assumes "player_run player_begin p" and "scheduler_at p \<noteq> Idle" and "task_at p \<noteq> Naming []"
    and "\<nexists>q. start_step p q" and "\<nexists>q. task_step p q"
  shows "\<exists>f. scheduler_at p = StartStop WaitBits f \<and> \<not> changed_bit p \<and> task_at p = Waiting"
  using player_stuck [OF player_inv_run [OF assms(1) player_inv_begin] assms(2-5)] .

section \<open>The lost signal\<close>

definition conf :: "caller \<Rightarrow> player_state_t \<Rightarrow> string option \<Rightarrow> string option \<Rightarrow> bool option \<Rightarrow> bool \<Rightarrow> bool \<Rightarrow>
    task_at \<Rightarrow> pstate" where
  "conf s st n q b c sb t =
     \<lparr>player_state = st, now_playing = n, queue = q, back_queue = b, changed_bit = c, stop_bit = sb,
      stopped_bit = False, scheduler_at = s, other_at = None, task_at = t\<rparr>"

lemma start_eq: "player_run i p \<Longrightarrow> start_step p q' \<Longrightarrow> q = q' \<Longrightarrow> player_run i q"
  by (auto intro: run_start)

lemma task_eq: "player_run i p \<Longrightarrow> task_step p q' \<Longrightarrow> q = q' \<Longrightarrow> player_run i q"
  by (auto intro: run_task)

lemma hang_run:
  assumes "length f \<le> 1024" "now_playing_of f = Some n"
  shows "player_run player_begin (conf (StartStop WaitBits g) STOPPED None None None False True Waiting)"
proof -
  have s0: "player_run player_begin (conf (Idle) STOPPED (None) (None) (None) False False (Waiting))"
    using run_refl [of player_begin] by (simp add: conf_def player_begin_def)
  have s1: "player_run player_begin (conf (StartGet f) STOPPED (None) (None) (None) False False (Waiting))"
    by (rule start_eq [OF s0 call_start [where f = f]]) (simp_all add: conf_def)
  have s2: "player_run player_begin (conf (StartCheck f) STOPPED (None) (None) (None) False False (Waiting))"
    by (rule start_eq [OF s1 start_get [where f = f]]) (simp_all add: conf_def)
  have s3: "player_run player_begin (conf (StartClear f) STOPPED (None) (None) (None) False False (Waiting))"
    by (rule start_eq [OF s2 start_check [where f = f]]) (simp_all add: conf_def assms)
  have s4: "player_run player_begin (conf (StartSend f) STOPPED (None) (None) (None) False False (Waiting))"
    by (rule start_eq [OF s3 start_clear [where f = f]]) (simp_all add: conf_def)
  have s5: "player_run player_begin (conf (StartReceive f) STOPPED (None) (Some f) (None) False False (Waiting))"
    by (rule start_eq [OF s4 start_send [where f = f]]) (simp_all add: conf_def)
  have s6: "player_run player_begin (conf (StartReceive f) STOPPED (None) (None) (None) False False (Naming f))"
    by (rule task_eq [OF s5 task_receive [where f = f]]) (simp_all add: conf_def)
  have s7: "player_run player_begin (conf (StartReceive f) STOPPED (Some n) (None) (None) False False (SetPlaying f))"
    by (rule task_eq [OF s6 task_name [where f = f and n = n]]) (simp_all add: conf_def assms)
  have s8: "player_run player_begin (conf (StartReceive f) PLAYING (Some n) (None) (None) False False (SignalPlaying True f))"
    by (rule task_eq [OF s7 task_set_playing [where f = f]]) (simp_all add: conf_def)
  have s9: "player_run player_begin (conf (StartReceive f) PLAYING (Some n) (None) (None) True False (Playing f))"
    by (rule task_eq [OF s8 task_signal_playing [where f = f and c = True]]) (simp_all add: conf_def)
  have s10: "player_run player_begin (conf (StartReceive f) PLAYING (Some n) (None) (None) True False (Finished f True))"
    by (rule task_eq [OF s9 task_end [where f = f and r = True]]) (simp_all add: conf_def)
  have s11: "player_run player_begin (conf (StartReceive f) PLAYING (None) (None) (None) True False (Replying f True))"
    by (rule task_eq [OF s10 task_unname [where f = f and r = True]]) (simp_all add: conf_def)
  have s12: "player_run player_begin (conf (StartReceive f) PLAYING (None) (None) (Some True) True False (SetStopped))"
    by (rule task_eq [OF s11 task_reply [where f = f and r = True]]) (simp_all add: conf_def)
  have s13: "player_run player_begin (conf (Started f True) PLAYING (None) (None) (None) True False (SetStopped))"
    by (rule start_eq [OF s12 start_receive [where f = f and r = True]]) (simp_all add: conf_def)
  have s14: "player_run player_begin (conf (Idle) PLAYING (None) (None) (None) True False (SetStopped))"
    by (rule start_eq [OF s13 start_return [where f = f and r = True]]) (simp_all add: conf_def)
  have s15: "player_run player_begin (conf (StartGet g) PLAYING (None) (None) (None) True False (SetStopped))"
    by (rule start_eq [OF s14 call_start [where f = g]]) (simp_all add: conf_def)
  have s16: "player_run player_begin (conf (StartStop StopGet g) PLAYING (None) (None) (None) True False (SetStopped))"
    by (rule start_eq [OF s15 start_get [where f = g]]) (simp_all add: conf_def)
  have s17: "player_run player_begin (conf (StartStop StopSet g) PLAYING (None) (None) (None) True False (SetStopped))"
    by (rule start_eq [OF s16 start_stop [where f = g and a = StopGet and b = StopSet
      and q = "conf (StartStop StopGet g) PLAYING (None) (None) (None) True False (SetStopped)"]]) (simp_all add: conf_def)
  have s18: "player_run player_begin (conf (StartStop WaitGet g) PLAYING (None) (None) (None) True True (SetStopped))"
    by (rule start_eq [OF s17 start_stop [where f = g and a = StopSet and b = WaitGet
      and q = "conf (StartStop StopSet g) PLAYING (None) (None) (None) True True (SetStopped)"]]) (simp_all add: conf_def)
  have s19: "player_run player_begin (conf (StartStop WaitClear g) PLAYING (None) (None) (None) True True (SetStopped))"
    by (rule start_eq [OF s18 start_stop [where f = g and a = WaitGet and b = WaitClear
      and q = "conf (StartStop WaitGet g) PLAYING (None) (None) (None) True True (SetStopped)"]]) (simp_all add: conf_def)
  have s20: "player_run player_begin (conf (StartStop WaitClear g) STOPPED (None) (None) (None) True True (SignalStopped True))"
    by (rule task_eq [OF s19 task_set_stopped]) (simp_all add: conf_def)
  have s21: "player_run player_begin (conf (StartStop WaitClear g) STOPPED (None) (None) (None) True True (Waiting))"
    by (rule task_eq [OF s20 task_signal_stopped [where c = True]]) (simp_all add: conf_def)
  have s22: "player_run player_begin (conf (StartStop WaitBits g) STOPPED (None) (None) (None) False True (Waiting))"
    by (rule start_eq [OF s21 start_stop [where f = g and a = WaitClear and b = WaitBits
      and q = "conf (StartStop WaitClear g) STOPPED (None) (None) (None) False True (Waiting)"]]) (simp_all add: conf_def)
  from s22 show ?thesis by simp
qed

text \<open>A scheduler that waits while the task is idle and the signal is gone.\<close>

definition hung :: "string \<Rightarrow> pstate \<Rightarrow> bool" where
  "hung g p = (scheduler_at p = StartStop WaitBits g \<and> task_at p = Waiting \<and> queue p = None \<and>
     \<not> changed_bit p)"

lemma stop_step_unsignalled: "stop_step a p = Some (b, q) \<Longrightarrow> \<not> changed_bit p \<Longrightarrow> \<not> changed_bit q"
  by (cases a) (auto split: if_splits)

lemma hung_run: "player_run p q \<Longrightarrow> hung g p \<Longrightarrow> hung g q"
  by (induction rule: player_run.induct)
     (auto simp: hung_def elim!: start_stepE other_stepE task_stepE
       dest: stop_step_frame stop_step_unsignalled)

text \<open>
  The signal that a file has ended can be lost: after one file has played to its end,
  starting the next can reach a state in which it waits for the signal with no limit of time and no
  step of any task ever wakes it.
\<close>

theorem player_lost_wakeup:
  fixes f :: string
  assumes "f \<noteq> []" and "length f \<le> 1024"
  shows "\<exists>p. player_run player_begin p \<and> player_state p = STOPPED \<and>
     (\<forall>q. player_run p q \<longrightarrow> scheduler_at q = StartStop WaitBits g)"
proof -
  obtain n where n: "now_playing_of f = Some n"
    using named_path [OF assms(1)] by blast
  let ?p = "conf (StartStop WaitBits g) STOPPED None None None False True Waiting"
  have "hung g ?p" by (simp add: hung_def conf_def)
  then have "\<forall>q. player_run ?p q \<longrightarrow> scheduler_at q = StartStop WaitBits g"
    using hung_run by (auto simp: hung_def)
  with hang_run [OF assms(2) n] show ?thesis
    by (intro exI [of _ ?p]) (simp add: conf_def)
qed

theorem player_protocol_witness:
  "in_one_place (awaited (scheduler_at player_begin)) (queue player_begin) (busy_with (task_at player_begin))
       (back_queue player_begin) \<and>
   (player_state player_begin = PLAYING \<longleftrightarrow> is_playing (task_at player_begin)) \<and>
   now_playing player_begin = named (task_at player_begin)"
  by (rule player_protocol [OF run_refl])

theorem player_lost_wakeup_witness:
  "\<exists>p. player_run player_begin p \<and> player_state p = STOPPED \<and>
     scheduler_at p = StartStop WaitBits ''/sd/b.mp3''"
  using player_lost_wakeup [of "''/sd/a.mp3''" "''/sd/b.mp3''"] run_refl by force

theorem player_start_progress_witness:
  "\<exists>f. scheduler_at (conf (StartStop WaitBits ''/sd/b.mp3'') STOPPED None None None False True Waiting) =
       StartStop WaitBits f"
proof -
  let ?p = "conf (StartStop WaitBits ''/sd/b.mp3'') STOPPED None None None False True Waiting"
  have "now_playing_of ''/a'' = Some ''/a''" by (simp add: now_playing_of_def)
  then have "player_run player_begin ?p" by (intro hang_run [of "''/a''" "''/a''"]) simp_all
  moreover have "\<nexists>q. start_step ?p q" "\<nexists>q. task_step ?p q"
    by (auto simp: conf_def elim!: start_stepE task_stepE)
  ultimately show ?thesis
    using player_start_progress [of ?p] by (auto simp: conf_def)
qed

end
