(* ===== verification/PdjsonShape.thy ===== *)
theory PdjsonShape
  imports Pdjson
begin

text \<open>
  The shape of what the parser delivers: whenever it reaches the end of a text without an error, its
  events are those of exactly one JSON value, with every bracket closed and every member of an object a
  string followed by one value. The shape is stated by a grammar of its own, not by the parser's stack.
\<close>

definition scalar_event :: "json_event \<Rightarrow> bool" where
  "scalar_event e = (case e of JSON_STRING _ \<Rightarrow> True | JSON_NUMBER _ \<Rightarrow> True | JSON_TRUE \<Rightarrow> True
     | JSON_FALSE \<Rightarrow> True | JSON_NULL \<Rightarrow> True | _ \<Rightarrow> False)"

lemma scalar_event_simps [simp]:
  "scalar_event (JSON_STRING s)" "scalar_event (JSON_NUMBER n)" "scalar_event JSON_TRUE"
  "scalar_event JSON_FALSE" "scalar_event JSON_NULL" "\<not> scalar_event JSON_OBJECT" "\<not> scalar_event JSON_ARRAY"
  "\<not> scalar_event JSON_DONE" "\<not> scalar_event JSON_ERROR"
  by (simp_all add: scalar_event_def)

inductive value_events :: "json_event list \<Rightarrow> bool"
  and element_events :: "json_event list \<Rightarrow> bool"
  and member_events :: "json_event list \<Rightarrow> bool" where
  scalar: "scalar_event e \<Longrightarrow> value_events [e]"
| array: "element_events es \<Longrightarrow> value_events (JSON_ARRAY # es @ [JSON_ARRAY_END])"
| object: "member_events es \<Longrightarrow> value_events (JSON_OBJECT # es @ [JSON_OBJECT_END])"
| no_element: "element_events []"
| element: "value_events v \<Longrightarrow> element_events es \<Longrightarrow> element_events (v @ es)"
| no_member: "member_events []"
| member: "value_events v \<Longrightarrow> member_events es \<Longrightarrow> member_events (JSON_STRING k # v @ es)"

text \<open>What is still to come when containers are open.\<close>

fun closing :: "(container \<times> nat) list \<Rightarrow> json_event list \<Rightarrow> bool" where
  "closing [] es = (es = [])"
| "closing ((In_Array, n) # st) es =
     (\<exists>b r. es = b @ JSON_ARRAY_END # r \<and> element_events b \<and> closing st r)"
| "closing ((In_Object, n) # st) es =
     (if even n then \<exists>b r. es = b @ JSON_OBJECT_END # r \<and> member_events b \<and> closing st r
      else \<exists>v b r. es = v @ b @ JSON_OBJECT_END # r \<and> value_events v \<and> member_events b \<and> closing st r)"

text \<open>A reading that succeeds delivers a scalar, or opens a container.\<close>

definition delivers :: "json_stream \<Rightarrow> json_event \<times> json_stream \<Rightarrow> bool" where
  "delivers j p = (ntokens (snd p) = Suc (ntokens j) \<and> (fst p = JSON_ERROR \<or> scalar_event (fst p) \<and> stack (snd p) = stack j
     \<or> fst p = JSON_ARRAY \<and> stack (snd p) = (In_Array, 0) # stack j
     \<or> fst p = JSON_OBJECT \<and> stack (snd p) = (In_Object, 0) # stack j))"

lemma delivers_if:
  "(c \<Longrightarrow> delivers j p) \<Longrightarrow> (\<not> c \<Longrightarrow> delivers j q) \<Longrightarrow> delivers j (if c then p else q)"
  by simp

lemma delivers_simps:
  "ntokens j1 = Suc (ntokens j) \<Longrightarrow> delivers j (fail_with j1)"
  "stack j1 = stack j \<Longrightarrow> ntokens j1 = Suc (ntokens j) \<Longrightarrow> scalar_event e \<Longrightarrow> delivers j (literal p e j1)"
  "stack j1 = stack j \<Longrightarrow> ntokens j1 = Suc (ntokens j) \<Longrightarrow> delivers j (JSON_ARRAY, push In_Array j1)"
  "stack j1 = stack j \<Longrightarrow> ntokens j1 = Suc (ntokens j) \<Longrightarrow> delivers j (JSON_OBJECT, push In_Object j1)"
  by (simp_all add: delivers_def fail_with_def literal_def push_def split: prod.split)

lemma delivers_option:
  "delivers j p \<Longrightarrow> (\<And>t r. delivers j (f t r)) \<Longrightarrow> delivers j (case x of None \<Rightarrow> p | Some (t, r) \<Rightarrow> f t r)"
  by (simp split: option.split)

lemma read_value_delivers: "delivers j (read_value num c j)"
proof (cases c)
  case (Some d)
  have "delivers j (case read_number d s of (t, r, f) \<Rightarrow>
      (case t of None \<Rightarrow> JSON_ERROR | Some ds \<Rightarrow> JSON_NUMBER (num ds), j\<lparr>ntokens := Suc (ntokens j), source := r, error_flag := f\<rparr>))"
    for s by (auto simp: delivers_def split: prod.split option.split)
  then show ?thesis
    unfolding read_value_def Let_def Some option.case
    by (intro delivers_if delivers_option delivers_simps) (simp_all add: delivers_def)
qed (simp add: read_value_def Let_def delivers_simps)

lemma read_value_cases:
  assumes "read_value num c j = (e, j')" "\<not> final e"
  shows "scalar_event e \<and> stack j' = stack j \<or> e = JSON_ARRAY \<and> stack j' = (In_Array, 0) # stack j
    \<or> e = JSON_OBJECT \<and> stack j' = (In_Object, 0) # stack j"
  using read_value_delivers [of j num c] assms by (auto simp: delivers_def)

lemma value_then:
  assumes "read_value num c j = (e, j')" "\<not> final e" "closing (stack j') es"
  shows "\<exists>v r. e # es = v @ r \<and> value_events v \<and> closing (stack j) r"
proof -
  from read_value_cases [OF assms(1,2)] consider
      "scalar_event e" "stack j' = stack j"
    | "e = JSON_ARRAY" "stack j' = (In_Array, 0) # stack j"
    | "e = JSON_OBJECT" "stack j' = (In_Object, 0) # stack j" by blast
  then show ?thesis
  proof cases
    case 1
    with assms(3) show ?thesis by (intro exI [of _ "[e]"] exI [of _ es]) (simp add: scalar)
  next
    case 2
    with assms(3) obtain b r where "es = b @ JSON_ARRAY_END # r" "element_events b" "closing (stack j) r"
      by auto
    with 2 show ?thesis
      by (intro exI [of _ "JSON_ARRAY # b @ [JSON_ARRAY_END]"] exI [of _ r]) (simp add: array)
  next
    case 3
    with assms(3) obtain b r where "es = b @ JSON_OBJECT_END # r" "member_events b" "closing (stack j) r"
      by auto
    with 3 show ?thesis
      by (intro exI [of _ "JSON_OBJECT # b @ [JSON_OBJECT_END]"] exI [of _ r]) (simp add: object)
  qed
qed

lemma pop_then:
  assumes "pop k j = (e, j')" "\<not> final e" "stack j = (k', n) # st" "closing (stack j') es" "k' = In_Object \<Longrightarrow> even n"
  shows "closing ((k', n) # st) (e # es)"
proof -
  from assms(1-3) have k: "k' = k" and j': "stack j' = st"
    and e: "e = (if k = In_Array then JSON_ARRAY_END else JSON_OBJECT_END)"
    by (auto simp: pop_def fail_with_def split: if_splits)
  show ?thesis
  proof (cases k)
    case In_Array
    with k j' e assms(4) show ?thesis using no_element by force
  next
    case In_Object
    with k j' e assms(4,5) show ?thesis using no_member by force
  qed
qed

lemma name_then:
  assumes "read_name num c j = (e, j')" "\<not> final e" "stack j = (In_Object, n) # st" "even n"
    "closing (stack j') es"
  shows "closing ((In_Object, n) # st) (e # es)"
proof -
  obtain e1 j1 where r: "read_value num c j = (e1, j1)" by fastforce
  with assms(1,2) have s: "is_string_event e1" "e = e1" "j' = count_up j1"
    by (auto simp: read_name_def fail_with_def split: if_splits)
  then obtain k where k: "e = JSON_STRING k" by (auto simp: is_string_event_def split: json_event.splits)
  with read_value_cases [OF r] s have "stack j1 = stack j" by auto
  with s assms(3,4,5) obtain v b q where
    "es = v @ b @ JSON_OBJECT_END # q" "value_events v" "member_events b" "closing st q"
    by (auto simp: count_up_def)
  moreover from this have "member_events (e # v @ b)" by (simp add: k member)
  ultimately show ?thesis
    using assms(4) by (simp, intro exI [of _ "e # v @ b"] exI [of _ q]) simp
qed

lemma read_value_tokens: "0 < ntokens (snd (read_value num c j))" "fst (read_value num c j) \<noteq> JSON_DONE"
  using read_value_delivers [of j num c] by (auto simp: delivers_def)

text \<open>Each step inside a container fits what has to come.\<close>

lemma next_value_then:
  assumes "read_value num c j1 = (e, j')" "\<not> final e" "stack j1 = (k, Suc n) # st" "closing (stack j') es"
    "k = In_Object \<Longrightarrow> odd n"
  shows "closing ((k, n) # st) (e # es)"
proof -
  from value_then [OF assms(1,2,4)] assms(3) obtain v r where
    v: "e # es = v @ r" "value_events v" "closing ((k, Suc n) # st) r" by auto
  show ?thesis
  proof (cases k)
    case In_Array
    with v(3) obtain b q where b: "r = b @ JSON_ARRAY_END # q" "element_events b" "closing st q" by auto
    with v have "element_events (v @ b)" by (simp add: element)
    with In_Array v(1) b show ?thesis by (simp, intro exI [of _ "v @ b"] exI [of _ q]) simp
  next
    case In_Object
    with assms(5) v(3) obtain b q where b: "r = b @ JSON_OBJECT_END # q" "member_events b" "closing st q" by auto
    with In_Object v assms(5) show ?thesis by (simp, intro exI [of _ v] exI [of _ b] exI [of _ q]) simp
  qed
qed

lemma next_char_frame:
  "next_char j = (c, j') \<Longrightarrow> stack j' = stack j \<and> ntokens j' = ntokens j \<and> error_flag j' = error_flag j"
  by (auto simp: next_char_def split: list.splits)

lemma fail_final: "fail_with j = (e, j') \<Longrightarrow> final e"
  by (auto simp: fail_with_def)

lemma next_in_array_then:
  assumes "next_in num In_Array n c j = (e, j')" "\<not> final e" "stack j = (In_Array, n) # st" "closing (stack j') es"
  shows "closing ((In_Array, n) # st) (e # es)"
proof -
  have s: "stack (count_up j) = (In_Array, Suc n) # st" using assms(3) by (simp add: count_up_def)
  obtain c1 j1 where n: "next_char (count_up j) = (c1, j1)" by fastforce
  with s have j1: "stack j1 = (In_Array, Suc n) # st" using next_char_frame by fastforce
  from assms(1) n consider "pop In_Array j = (e, j')" | "read_value num c (count_up j) = (e, j')"
    | "read_value num c1 j1 = (e, j')" | "fail_with j = (e, j')"
    by (auto simp: next_in_def split: if_splits)
  then show ?thesis
  proof cases
    case 1 from pop_then [OF 1 assms(2-4)] show ?thesis by simp
  next
    case 2 from next_value_then [OF 2 assms(2) s assms(4)] show ?thesis by simp
  next
    case 3 from next_value_then [OF 3 assms(2) j1 assms(4)] show ?thesis by simp
  next
    case 4 with assms(2) show ?thesis by (simp add: fail_final)
  qed
qed

lemma next_in_object_then:
  assumes "next_in num In_Object n c j = (e, j')" "\<not> final e" "stack j = (In_Object, n) # st" "closing (stack j') es"
  shows "closing ((In_Object, n) # st) (e # es)"
proof -
  have s: "stack (count_up j) = (In_Object, Suc n) # st" using assms(3) by (simp add: count_up_def)
  obtain c1 j1 where n: "next_char (count_up j) = (c1, j1)" by fastforce
  with s have j1: "stack j1 = (In_Object, Suc n) # st" using next_char_frame by fastforce
  obtain c2 j2 where m: "next_char j = (c2, j2)" by fastforce
  with assms(3) have j2: "stack j2 = (In_Object, n) # st" using next_char_frame by fastforce
  from assms(1) n m consider "pop In_Object j = (e, j')" "even n" | "read_name num c j = (e, j')" "even n"
    | "read_name num c2 j2 = (e, j')" "even n" | "read_value num c1 j1 = (e, j')" "odd n" | "fail_with j = (e, j')"
    by (auto simp: next_in_def even_iff_mod_2_eq_zero split: if_splits)
  then show ?thesis
  proof cases
    case 1 from pop_then [OF 1(1) assms(2-4) 1(2)] show ?thesis .
  next
    case 2 from name_then [OF 2(1) assms(2,3) 2(2) assms(4)] show ?thesis .
  next
    case 3 from name_then [OF 3(1) assms(2) j2 3(2) assms(4)] show ?thesis .
  next
    case 4 from next_value_then [OF 4(1) assms(2) j1 assms(4)] 4(2) show ?thesis by simp
  next
    case 5 with assms(2) show ?thesis by (simp add: fail_final)
  qed
qed

lemma next_in_then:
  assumes "next_in num k n c j = (e, j')" "\<not> final e" "stack j = (k, n) # st" "closing (stack j') es"
  shows "closing ((k, n) # st) (e # es)"
  using next_in_array_then [of num n c j] next_in_object_then [of num n c j] assms by (cases k) blast+

lemma pop_tokens: "ntokens (snd (pop k j)) = ntokens j" "fst (pop k j) \<noteq> JSON_DONE"
  by (auto simp: pop_def fail_with_def split: list.split)

lemma read_name_tokens: "0 < ntokens (snd (read_name num c j))" "fst (read_name num c j) \<noteq> JSON_DONE"
  using read_value_tokens [of num c j] by (auto simp: read_name_def fail_with_def split: prod.splits)

lemma next_tokens:
  "0 < ntokens (snd (case next_char j of (c', j') \<Rightarrow> read_value num c' j'))"
  "0 < ntokens (snd (case next_char j of (c', j') \<Rightarrow> read_name num c' j'))"
  "fst (case next_char j of (c', j') \<Rightarrow> read_value num c' j') \<noteq> JSON_DONE"
  "fst (case next_char j of (c', j') \<Rightarrow> read_name num c' j') \<noteq> JSON_DONE"
  by (simp_all add: read_value_tokens read_name_tokens split: prod.split)

lemma fail_tokens: "ntokens (snd (fail_with j)) = ntokens j" "fst (fail_with j) \<noteq> JSON_DONE"
  by (simp_all add: fail_with_def)

lemma next_in_tokens:
  assumes "0 < ntokens j"
  shows "0 < ntokens (snd (next_in num k n c j))" "fst (next_in num k n c j) \<noteq> JSON_DONE"
  using assms
  by (cases k; auto simp only: next_in_def container.case pop_tokens fail_tokens read_value_tokens
      read_name_tokens next_tokens split: if_split)+

lemma run_closing:
  "json_run num j = es @ [JSON_DONE] \<Longrightarrow> 0 < ntokens j \<Longrightarrow> closing (stack j) es"
proof (induction num j arbitrary: es rule: json_run.induct)
  case (1 num j)
  obtain e j' where n: "json_next num j = (e, j')" by fastforce
  have run: "json_run num j = (if final e then [e] else e # json_run num j')"
    by (simp add: json_run.simps [of num j] n)
  show ?case
  proof (cases "error_flag j \<or> stack j = []")
    case True
    with n 1(3) consider "e = JSON_ERROR" | "e = JSON_DONE" "stack j = []"
      by (auto simp: json_next_def split: if_splits)
    then show ?thesis using run 1(2) by cases auto
  next
    case False
    then obtain k m st where st: "stack j = (k, m) # st" by (cases "stack j") auto
    obtain c j1 where c: "next_char j = (c, j1)" by fastforce
    note f = next_char_frame [OF c]
    from n c False st f have e: "next_in num k m c j1 = (e, j')" by (auto simp: json_next_def)
    note t = next_in_tokens [of j1 num k m c, unfolded e fst_conv snd_conv]
    from t 1(2,3) run f have nf: "\<not> final e" by (auto simp: final_def split: if_splits)
    with run 1(2) obtain es' where es: "es = e # es'" "json_run num j' = es' @ [JSON_DONE]"
      by (cases es) (auto simp: final_def)
    from 1(1) [OF n [symmetric] nf es(2)] t f 1(3) have "closing (stack j') es'" by simp
    with next_in_then [OF e nf] st f es(1) show ?thesis by simp
  qed
qed

text \<open>
  C24: The events of a text that the parser reads without an error are those of exactly one JSON value:
  every opened container is closed by its own kind, a member of an object is a string and one value,
  and nothing follows the value. This is what the walks over a playlist and a command rely on.
\<close>

theorem parser_shape:
  assumes "json_events num s = es @ [JSON_DONE]"
  shows "value_events es"
proof -
  let ?j = "json_open_string s"
  obtain e j' where n: "json_next num ?j = (e, j')" by fastforce
  obtain c j1 where c: "next_char ?j = (c, j1)" by fastforce
  note f = next_char_frame [OF c, unfolded json_open_string_def, simplified]
  from n c f have r: "read_value num c j1 = (e, j')" by (simp add: json_next_def json_open_string_def)
  note t = read_value_tokens [of num c j1, unfolded r fst_conv snd_conv]
  have run: "json_events num s = (if final e then [e] else e # json_run num j')"
    by (simp add: json_events_def json_run.simps [of num ?j] n)
  with assms t have nf: "\<not> final e" by (auto simp: final_def split: if_splits)
  with run assms obtain es' where es: "es = e # es'" "json_run num j' = es' @ [JSON_DONE]"
    by (cases es) (auto simp: final_def)
  from value_then [OF r nf run_closing [OF es(2)]] t f es(1) show ?thesis by auto
qed

theorem parser_shape_witness:
  "value_events [JSON_ARRAY, JSON_OBJECT, JSON_STRING ''k'', JSON_NULL, JSON_OBJECT_END, JSON_ARRAY_END]"
proof (rule parser_shape [of "\<lambda>_. 0" "'' [ {\"k\" : null } ] ''"])
  show "json_events (\<lambda>_. 0) '' [ {\"k\" : null } ] '' =
      [JSON_ARRAY, JSON_OBJECT, JSON_STRING ''k'', JSON_NULL, JSON_OBJECT_END, JSON_ARRAY_END] @ [JSON_DONE]"
    by code_simp
qed

end
