(* ===== verification/CJson.thy ===== *)
theory CJson
  imports Pdjson
begin

text \<open>
  The printer of \<open>src/esp-idf/components/json/cJSON/cJSON.c\<close>, with which the firmware builds its
  messages and answers, without white space, and the proof that the parser of the theory Pdjson gives
  back exactly the events of the value. An item is a value of a datatype; buffers grow as far as needed.
  The characters of a string are its UTF-8 bytes. Numbers are whole and of at most 15 digits, which is
  as far as the first format that \<open>print_number\<close> tries prints every digit.
\<close>

datatype json =
    JNull
  | JBool bool
  | JNumber int
  | JString string
  | JArray "json list"
  | JObject "(string \<times> json) list"

definition hex_digit :: "nat \<Rightarrow> char" where
  "hex_digit n = (if n < 10 then char_of (48 + n) else char_of (87 + n))"

definition escape :: "char \<Rightarrow> string" where
  "escape c =
     (if (of_char c :: nat) > 31 \<and> c \<noteq> CHR 0x22 \<and> c \<noteq> CHR 0x5C then [c]
      else CHR 0x5C #
        (if c = CHR 0x5C \<or> c = CHR 0x22 then [c]
         else if c = CHR 0x08 then ''b''
         else if c = CHR 0x0C then ''f''
         else if c = CHR 0x0A then ''n''
         else if c = CHR 0x0D then ''r''
         else if c = CHR 0x09 then ''t''
         else [CHR ''u'', CHR ''0'', CHR ''0'', hex_digit (of_char c div 16), hex_digit (of_char c mod 16)]))"

definition print_string_ptr :: "string \<Rightarrow> string" where
  "print_string_ptr input = [CHR 0x22] @ concat (map escape (cstr input)) @ [CHR 0x22]"

definition print_number :: "int \<Rightarrow> string" where
  "print_number d = show_int d"

text \<open>A separator after every element that has a next one.\<close>

fun separated :: "string list \<Rightarrow> string" where
  "separated [] = []"
| "separated (t # ts) = t @ (if ts = [] then [] else '','') @ separated ts"

definition print_array :: "('a \<Rightarrow> string) \<Rightarrow> 'a list \<Rightarrow> string" where
  "print_array print_item child = ''['' @ separated (map print_item child) @ '']''"

definition print_object :: "('a \<Rightarrow> string) \<Rightarrow> (string \<times> 'a) list \<Rightarrow> string" where
  "print_object print_item child =
     ''{'' @ separated (map (\<lambda>(k, v). print_string_ptr k @ '':'' @ print_item v) child) @ ''}''"

lemma print_array_cong [fundef_cong]:
  "xs = ys \<Longrightarrow> (\<And>x. x \<in> set ys \<Longrightarrow> f x = g x) \<Longrightarrow> print_array f xs = print_array g ys"
  by (simp add: print_array_def cong: map_cong)

lemma print_object_cong [fundef_cong]:
  assumes "xs = ys" "\<And>x. x \<in> snd ` set ys \<Longrightarrow> f x = g x"
  shows "print_object f xs = print_object g ys"
proof -
  have "map (\<lambda>(k, v). print_string_ptr k @ '':'' @ f v) ys = map (\<lambda>(k, v). print_string_ptr k @ '':'' @ g v) ys"
    using assms(2) by (intro map_cong refl) force
  then show ?thesis unfolding print_object_def assms(1) by (rule arg_cong)
qed

fun print_value :: "json \<Rightarrow> string" where
  "print_value JNull = ''null''"
| "print_value (JBool b) = (if b then ''true'' else ''false'')"
| "print_value (JNumber n) = print_number n"
| "print_value (JString s) = print_string_ptr s"
| "print_value (JArray vs) = print_array print_value vs"
| "print_value (JObject ms) = print_object print_value ms"

definition cJSON_PrintUnformatted :: "json \<Rightarrow> string" where
  "cJSON_PrintUnformatted item = print_value item"

text \<open>What follows the first element or member.\<close>

definition print_more :: "json list \<Rightarrow> string" where
  "print_more vs = concat (map (\<lambda>v. '','' @ print_value v) vs)"

definition print_more_members :: "(string \<times> json) list \<Rightarrow> string" where
  "print_more_members ms = concat (map (\<lambda>(k, v). '','' @ print_string_ptr k @ '':'' @ print_value v) ms)"

lemma separated_Cons: "separated (t # ts) = t @ concat (map (\<lambda>t. '','' @ t) ts)"
  by (induction ts arbitrary: t) auto

lemma print_more_simps [simp]:
  "print_more [] = []"
  "print_more (v # vs) = '','' @ print_value v @ print_more vs"
  "print_more_members [] = []"
  "print_more_members ((k, v) # ms) =
     '','' @ print_string_ptr k @ '':'' @ print_value v @ print_more_members ms"
  by (simp_all add: print_more_def print_more_members_def)

lemma print_containers [simp]:
  "print_array print_value [] = ''[]''"
  "print_array print_value (v # vs) = ''['' @ print_value v @ print_more vs @ '']''"
  "print_object print_value [] = ''{}''"
  "print_object print_value ((k, v) # ms) =
     ''{'' @ print_string_ptr k @ '':'' @ print_value v @ print_more_members ms @ ''}''"
  by (simp_all add: print_array_def print_object_def separated_Cons print_more_def print_more_members_def comp_def
      split_def del: separated.simps(2))

fun events_of :: "(string \<Rightarrow> int) \<Rightarrow> json \<Rightarrow> json_event list"
  and events_of_list :: "(string \<Rightarrow> int) \<Rightarrow> json list \<Rightarrow> json_event list"
  and events_of_members :: "(string \<Rightarrow> int) \<Rightarrow> (string \<times> json) list \<Rightarrow> json_event list" where
  "events_of num JNull = [JSON_NULL]"
| "events_of num (JBool b) = [if b then JSON_TRUE else JSON_FALSE]"
| "events_of num (JNumber n) = [JSON_NUMBER (num (show_int n))]"
| "events_of num (JString s) = [JSON_STRING s]"
| "events_of num (JArray vs) = JSON_ARRAY # events_of_list num vs @ [JSON_ARRAY_END]"
| "events_of num (JObject ms) = JSON_OBJECT # events_of_members num ms @ [JSON_OBJECT_END]"
| "events_of_list num [] = []"
| "events_of_list num (v # vs) = events_of num v @ events_of_list num vs"
| "events_of_members num [] = []"
| "events_of_members num ((k, v) # ms) = JSON_STRING k # events_of num v @ events_of_members num ms"

text \<open>A text of legal UTF-8 sequences.\<close>

function utf8_text :: "string \<Rightarrow> bool" where
  "utf8_text [] = True"
| "utf8_text (c # r) =
     (if (of_char c :: nat) < 0x80 then utf8_text r
      else (case read_utf8 c r of None \<Rightarrow> False | Some (t, r') \<Rightarrow> utf8_text r'))"
  by pat_completeness auto
termination
  by (relation "measure length") (auto dest: read_utf8_not_longer)

declare utf8_text.simps [simp del]

definition c_text :: "string \<Rightarrow> bool" where
  "c_text s = (is_cstr s \<and> utf8_text s)"

lemma c_text_cstr [simp]: "c_text s \<Longrightarrow> cstr s = s"
  by (simp add: c_text_def)

fun utf8_json :: "json \<Rightarrow> bool"
  and utf8_list :: "json list \<Rightarrow> bool"
  and utf8_members :: "(string \<times> json) list \<Rightarrow> bool" where
  "utf8_json (JString s) = c_text s"
| "utf8_json (JArray vs) = utf8_list vs"
| "utf8_json (JObject ms) = utf8_members ms"
| "utf8_json (JNumber n) = (abs n < 10 ^ 15)"
| "utf8_json _ = True"
| "utf8_list [] = True"
| "utf8_list (v # vs) = (utf8_json v \<and> utf8_list vs)"
| "utf8_members [] = True"
| "utf8_members ((k, v) # ms) = (c_text k \<and> utf8_json v \<and> utf8_members ms)"

section \<open>Strings\<close>

lemma hexchar_hex_digit: "n < 16 \<Longrightarrow> hexchar (hex_digit n) = Some n"
  by (auto simp: hexchar_def hex_digit_def Let_def)

lemma read_escaped_control:
  assumes "(of_char c :: nat) < 0x20"
  shows "read_escaped (CHR ''u'' # CHR ''0'' # CHR ''0'' # hex_digit (of_char c div 16) #
           hex_digit (of_char c mod 16) # r) = Some ([c], r)"
proof -
  have "hexchar CHR ''0'' = Some 0" by (simp add: hexchar_def)
  moreover have "hexchar (hex_digit (of_char c div 16)) = Some (of_char c div 16)"
    using assms by (intro hexchar_hex_digit) auto
  moreover have "hexchar (hex_digit (of_char c mod 16)) = Some (of_char c mod 16)"
    by (intro hexchar_hex_digit) auto
  ultimately have "read_unicode_cp (CHR ''0'' # CHR ''0'' # hex_digit (of_char c div 16) #
      hex_digit (of_char c mod 16) # r) = Some (of_char c, r)"
    by (simp add: read_unicode_cp_def)
  note cp = this
  have n: "(of_char c :: nat) < 0x80" "\<not> 0xD800 \<le> (of_char c :: nat)" "\<not> 0xDC00 \<le> (of_char c :: nat)"
    using assms by linarith+
  have "encode_utf8 (of_char c) = Some [c]"
    unfolding encode_utf8_def using n(1) by (simp only: if_True char_of_char)
  with n(2,3) show ?thesis
    by (simp only: read_escaped_def list.case if_True read_unicode_def cp option.case prod.case
        simp_thms if_False option.map)
qed

lemma continuation_high: "continuation a \<Longrightarrow> 0x80 \<le> a \<and> a \<noteq> 0xFF"
  by (simp add: continuation_def)

lemma second_byte_high: "second_byte b a \<Longrightarrow> 0x80 \<le> a \<and> a \<noteq> 0xFF"
  by (auto simp: second_byte_def continuation_def split: if_splits)

lemma is_legal_utf8_high:
  assumes "is_legal_utf8 (b # bs)"
  shows "list_all (\<lambda>a. 0x80 \<le> a \<and> a \<noteq> 0xFF) bs"
proof -
  consider "bs = []" | x where "bs = [x]" | x y where "bs = [x, y]" | x y z where "bs = [x, y, z]"
    | u v w x r where "bs = u # v # w # x # r"
    by (metis neq_Nil_conv)
  then show ?thesis
    using assms
    by cases (auto simp: is_legal_utf8_def dest: second_byte_high continuation_high)
qed

lemma utf8_seq_length_le: "utf8_seq_length u \<le> 4"
  by (auto simp: utf8_seq_length_def)

lemma diff_le_3: "n \<le> (4 :: nat) \<Longrightarrow> n - 1 \<le> 3"
  by simp

lemma read_utf8_split:
  assumes "read_utf8 c r = Some (t, r')"
  shows "\<exists>u. t = c # u \<and> r = u @ r' \<and> list_all (\<lambda>b. 0x80 \<le> (of_char b :: nat)) u \<and>
    (\<forall>x. read_utf8 c (u @ x) = Some (c # u, x))"
proof -
  let ?n = "utf8_seq_length (of_char c) - 1"
  let ?b = "take ?n (r @ replicate 3 (CHR 0xFF))"
  from assms have a: "t = c # ?b" "r' = drop ?n r" "is_legal_utf8 (map of_char (c # ?b))"
    "utf8_seq_length (of_char c) \<noteq> 0"
    unfolding read_utf8_def Let_def by (simp_all only: option.inject prod.inject option.distinct simp_thms split: if_splits)
  have n: "?n \<le> 3" using utf8_seq_length_le [of "of_char c"] by (rule diff_le_3)
  have cont: "list_all (\<lambda>b. 0x80 \<le> b \<and> b \<noteq> 0xFF) (map of_char ?b :: nat list)"
    by (rule is_legal_utf8_high) (rule a(3) [unfolded list.map])
  have le: "?n \<le> length r"
  proof (rule ccontr)
    assume "\<not> ?n \<le> length r"
    then have "CHR 0xFF \<in> set ?b" using n by (cases "?n - length r") auto
    then have "(0xFF :: nat) \<in> set (map of_char ?b)" by force
    with cont show False by (auto simp only: list_all_iff)
  qed
  then have b: "?b = take ?n r" by simp
  have "read_utf8 c (take ?n r @ x) = Some (c # take ?n r, x)" for x
    using a(3,4) b le by (simp add: read_utf8_def Let_def)
  moreover have "list_all (\<lambda>b. 0x80 \<le> (of_char b :: nat)) (take ?n r)"
    using cont b by (auto simp: list_all_iff)
  ultimately show ?thesis
    using a(1,2) b by (intro exI [of _ "take ?n r"]) simp
qed

lemma escape_high: "list_all (\<lambda>b. 0x80 \<le> (of_char b :: nat)) u \<Longrightarrow> concat (map escape u) = u"
  by (induction u) (auto simp: escape_def)

lemma read_string_escape_low:
  assumes "(of_char c :: nat) < 0x80"
  shows "read_string acc (escape c @ r) = read_string (acc @ [c]) r"
proof -
  consider (plain) "(of_char c :: nat) > 31" "c \<noteq> CHR 0x22" "c \<noteq> CHR 0x5C"
    | (short) "c \<in> {CHR 0x22, CHR 0x5C, CHR 0x08, CHR 0x0C, CHR 0x0A, CHR 0x0D, CHR 0x09}"
    | (code) "\<not> (of_char c :: nat) > 31" "c \<notin> {CHR 0x22, CHR 0x5C, CHR 0x08, CHR 0x0C, CHR 0x0A, CHR 0x0D, CHR 0x09}"
    by blast
  then show ?thesis
  proof cases
    case plain
    then have "escape c = [c]" "\<not> char_needs_escaping c" "\<not> 0x80 \<le> (of_char c :: nat)"
      using assms by (simp_all add: escape_def char_needs_escaping_def)
    with plain show ?thesis by (simp add: read_string.simps)
  next
    case short
    then have "\<exists>d. escape c = [CHR 0x5C, d] \<and> read_escaped (d # r) = Some ([c], r)"
      by (auto simp: escape_def read_escaped_def escape_codes_def)
    then show ?thesis by (auto simp: read_string.simps)
  next
    case code
    then have e: "escape c = CHR 0x5C # CHR ''u'' # CHR ''0'' # CHR ''0'' # hex_digit (of_char c div 16) #
        hex_digit (of_char c mod 16) # []"
      unfolding escape_def by (simp only: insert_iff empty_iff de_Morgan_disj simp_thms if_False)
    from code(1) have "(of_char c :: nat) < 0x20" by linarith
    then show ?thesis
      unfolding e append_Cons append_Nil read_string.simps(2) [of acc "CHR 0x5C"]
      by (simp add: read_escaped_control)
  qed
qed

lemma read_string_escapes:
  "utf8_text s \<Longrightarrow> read_string acc (concat (map escape s) @ r) = read_string (acc @ s) r"
proof (induction s arbitrary: acc rule: utf8_text.induct)
  case 1
  then show ?case by simp
next
  case (2 c s)
  show ?case
  proof (cases "(of_char c :: nat) < 0x80")
    case True
    with 2(3) have "utf8_text s" by (simp add: utf8_text.simps)
    from 2(1) [OF True this] show ?thesis
      by (simp add: read_string_escape_low [OF True])
  next
    case False
    with 2(3) obtain t s' where t: "read_utf8 c s = Some (t, s')" "utf8_text s'"
      by (auto simp: utf8_text.simps split: option.splits)
    from read_utf8_split [OF t(1)] obtain u where u: "t = c # u" "s = u @ s'"
      "list_all (\<lambda>b. 0x80 \<le> (of_char b :: nat)) u" "\<And>x. read_utf8 c (u @ x) = Some (c # u, x)"
      by blast
    have c: "escape c = [c]" "c \<noteq> CHR 0x22" "c \<noteq> CHR 0x5C" "0x80 \<le> (of_char c :: nat)"
      using False by (auto simp: escape_def)
    have "read_string acc (concat (map escape (c # s)) @ r) =
        read_string acc (c # (u @ (concat (map escape s') @ r)))"
      by (simp add: c(1) u(2) escape_high [OF u(3)])
    also have "\<dots> = read_string (acc @ c # u) (concat (map escape s') @ r)"
      using c(2-4) by (simp add: read_string.simps u(4))
    also have "\<dots> = read_string ((acc @ c # u) @ s') r"
      using 2(2) [OF False t(1) refl t(2)] by simp
    finally show ?thesis by (simp add: u(2))
  qed
qed

lemma read_string_escape:
  "utf8_text s \<Longrightarrow> read_string acc (concat (map escape s) @ CHR 0x22 # r) = Some (acc @ s, r)"
  by (simp add: read_string_escapes) (simp add: read_string.simps)

section \<open>Numbers\<close>

text \<open>What may follow a value in the printed text.\<close>

definition delim :: "string \<Rightarrow> bool" where
  "delim r = (case r of [] \<Rightarrow> True | c # s \<Rightarrow> c = CHR '','' \<or> c = CHR '']'' \<or> c = CHR ''}'')"

lemma delim_simps [simp]:
  "delim []" "delim (CHR '','' # r)" "delim (CHR '']'' # r)" "delim (CHR ''}'' # r)"
  by (simp_all add: delim_def)

lemma hd_show_nat: "0 < n \<Longrightarrow> hd (show_nat n) \<noteq> CHR ''0''"
proof (induction n rule: show_nat.induct)
  case (1 n)
  show ?case
  proof (cases "n < 10")
    case True
    with 1(2) have "(of_char (digit n) :: nat) \<noteq> 48" by (simp add: of_char_digit)
    then have "digit n \<noteq> CHR ''0''" by auto
    with True show ?thesis by (subst show_nat.simps) simp
  next
    case False
    with 1(1) show ?thesis by (subst show_nat.simps) simp
  qed
qed

lemma read_fraction_delim: "delim r \<Longrightarrow> read_fraction acc r f = (Some acc, r, f)"
  by (auto simp: read_fraction_def read_exponent_def delim_def split: list.splits)

lemma read_digits_delim:
  assumes "list_all is_digit_char ds" "delim r"
  shows "read_digits (ds @ r) = (ds, r)"
proof -
  have "takeWhile is_digit_char r = []" "dropWhile is_digit_char r = r"
    using assms(2) by (auto simp: delim_def is_digit_char_def split: list.splits)
  moreover have "\<And>x. x \<in> set ds \<Longrightarrow> is_digit_char x" using assms(1) by (simp add: list_all_iff)
  ultimately show ?thesis by (simp add: read_digits_def)
qed

lemma read_unsigned_show_nat:
  assumes "show_nat n = c # s" "delim r"
  shows "read_unsigned acc c (s @ r) = (Some (acc @ c # s), r, False)"
proof (cases "c = CHR ''0''")
  case True
  then have "n = 0" using hd_show_nat [of n] assms(1) by (cases "n = 0") auto
  with assms(1) have "s = []" by (simp add: show_nat.simps)
  with True assms(2) show ?thesis by (simp add: read_unsigned_def read_fraction_delim)
next
  case False
  have "list_all is_digit_char s" using show_nat_digits [of n] assms(1) by simp
  with False assms(2) show ?thesis
    by (simp add: read_unsigned_def read_digits_delim read_fraction_delim)
qed

lemma read_number_show_int:
  assumes "show_int n = c # s" "delim r"
  shows "read_number c (s @ r) = (Some (c # s), r, False)"
proof (cases "n < 0")
  case True
  with assms(1) have c: "c = CHR ''-''" "s = show_nat (nat (- n))" by (auto simp: show_int_def)
  obtain d t where d: "show_nat (nat (- n)) = d # t" using show_nat_nonempty by (meson neq_Nil_conv)
  with c have "s = d # t" by simp
  moreover have "is_digit_char d" using show_nat_digits [of "nat (- n)"] d by simp
  ultimately show ?thesis
    using c(1) read_unsigned_show_nat [OF d assms(2)] by (simp add: read_number_def)
next
  case False
  with assms(1) have d: "show_nat (nat n) = c # s" by (simp add: show_int_def)
  have "is_digit_char c" using show_nat_digits [of "nat n"] d by simp
  then have "c \<noteq> CHR ''-''" by (simp add: digit_char_not)
  then show ?thesis
    using read_unsigned_show_nat [OF d assms(2), of "[]"] by (simp add: read_number_def)
qed

lemma show_int_start: "\<exists>c s. show_int n = c # s \<and> (is_digit_char c \<or> c = CHR ''-'')"
proof (cases "n < 0")
  case False
  obtain c s where "show_nat (nat n) = c # s" using show_nat_nonempty by (meson neq_Nil_conv)
  with False show_nat_digits [of "nat n"] show ?thesis by (simp add: show_int_def)
qed (simp add: show_int_def)

section \<open>Values\<close>

abbreviation at :: "string \<Rightarrow> (container \<times> nat) list \<Rightarrow> nat \<Rightarrow> json_stream" where
  "at s st n \<equiv> \<lparr>source = s, stack = st, ntokens = n, error_flag = False\<rparr>"

text \<open>A character that begins a value is neither white space nor a closing bracket.\<close>

definition opens_value :: "char \<Rightarrow> bool" where
  "opens_value c = (c \<in> set ''{[ntf-'' \<or> c = CHR 0x22 \<or> is_digit_char c)"

lemma opens_value_not: "opens_value c \<Longrightarrow> \<not> json_isspace c \<and> c \<noteq> CHR '']'' \<and> c \<noteq> CHR ''}''"
  by (auto simp: opens_value_def json_isspace_def is_digit_char_def)

lemma show_int_opens: "\<exists>c s. show_int n = c # s \<and> opens_value c"
  using show_int_start [of n] by (auto simp: opens_value_def)

lemma print_value_start: "\<exists>c s. print_value v = c # s \<and> opens_value c"
  using show_int_opens
  by (cases v) (simp_all add: print_number_def print_array_def print_object_def print_string_ptr_def opens_value_def)

lemma next_char_at: "\<not> json_isspace c \<Longrightarrow> next_char (at (c # s) st n) = (Some c, at s st n)"
  by (simp add: next_char_def)

lemma json_run_at:
  assumes "\<not> json_isspace c" "n = 0 \<or> st \<noteq> []"
  shows "json_run num (at (c # s) st n) =
    (case (case st of [] \<Rightarrow> read_value num (Some c) (at s [] n)
           | (k, m) # st' \<Rightarrow> next_in num k m (Some c) (at s st n)) of
       (e, j') \<Rightarrow> if final e then [e] else e # json_run num j')"
proof (cases st)
  case Nil
  with assms show ?thesis by (subst json_run.simps) (simp add: json_next_def next_char_at)
next
  case (Cons p st')
  obtain k m where "p = (k, m)" by fastforce
  with Cons assms show ?thesis by (subst json_run.simps) (simp add: json_next_def next_char_at)
qed

text \<open>A value that starts at a place of the source is read, and what follows it is reached.\<close>

definition reads :: "(string \<Rightarrow> int) \<Rightarrow> json \<Rightarrow> bool" where
  "reads num v = (\<forall>c s st n rest. print_value v = c # s \<longrightarrow> delim rest \<longrightarrow>
     (\<exists>e j' n'. read_value num (Some c) (at (s @ rest) st n) = (e, j') \<and> \<not> final e \<and> 0 < n' \<and>
        e # json_run num j' = events_of num v @ json_run num (at rest st n')))"

definition reads_more :: "(string \<Rightarrow> int) \<Rightarrow> json list \<Rightarrow> bool" where
  "reads_more num vs = (\<forall>st m n rest. \<exists>n'. 0 < n' \<and>
     json_run num (at (print_more vs @ CHR '']'' # rest) ((In_Array, Suc m) # st) (Suc n)) =
       events_of_list num vs @ JSON_ARRAY_END # json_run num (at rest st n'))"

definition reads_more_members :: "(string \<Rightarrow> int) \<Rightarrow> (string \<times> json) list \<Rightarrow> bool" where
  "reads_more_members num ms = (\<forall>st m n rest. \<exists>n'. 0 < n' \<and>
     json_run num (at (print_more_members ms @ CHR ''}'' # rest) ((In_Object, 2 * m + 2) # st) (Suc n)) =
       events_of_members num ms @ JSON_OBJECT_END # json_run num (at rest st n'))"

lemma readsD:
  assumes "reads num v" "print_value v = c # s" "delim rest"
  obtains e j' n' where "read_value num (Some c) (at (s @ rest) st n) = (e, j')" "\<not> final e" "0 < n'"
    "e # json_run num j' = events_of num v @ json_run num (at rest st n')"
  using assms unfolding reads_def by blast

lemma delim_more [simp]: "delim (print_more vs @ CHR '']'' # r)" "delim (print_more_members ms @ CHR ''}'' # r)"
  by (cases vs; simp) (cases ms; auto)

lemma json_isspace_simps [simp]:
  "\<not> json_isspace CHR '',''" "\<not> json_isspace CHR '']''" "\<not> json_isspace CHR ''}''" "\<not> json_isspace CHR '':''"
  "\<not> json_isspace CHR 0x22" "\<not> json_isspace CHR ''[''" "\<not> json_isspace CHR ''{''"
  by (simp_all add: json_isspace_def)

lemma reads_number: "reads num (JNumber i)"
  unfolding reads_def
proof (intro allI impI)
  fix c s st n rest
  assume p: "print_value (JNumber i) = c # s" and d: "delim rest"
  then have i: "show_int i = c # s" by (simp add: print_number_def)
  have c: "is_digit_char c \<or> c = CHR ''-''" using show_int_start [of i] i by simp
  then have "c \<noteq> CHR ''{''" "c \<noteq> CHR ''[''" "c \<noteq> CHR 0x22" "c \<noteq> CHR ''n''" "c \<noteq> CHR ''f''" "c \<noteq> CHR ''t''"
    by (auto simp: is_digit_char_def)
  with c have "read_value num (Some c) (at (s @ rest) st n) = (JSON_NUMBER (num (c # s)), at rest st (Suc n))"
    by (simp add: read_value_def read_number_show_int [OF i d])
  then show "\<exists>e j' n'. read_value num (Some c) (at (s @ rest) st n) = (e, j') \<and> \<not> final e \<and> 0 < n' \<and>
      e # json_run num j' = events_of num (JNumber i) @ json_run num (at rest st n')"
    by (auto simp: i)
qed

lemma read_value_quote:
  assumes "c_text t"
  shows "read_value num (Some (CHR 0x22)) (at (concat (map escape t) @ CHR 0x22 # rest) st n) =
    (JSON_STRING t, at rest st (Suc n))"
proof -
  from assms have "utf8_text t" by (simp add: c_text_def)
  from read_string_escape [OF this, of "[]" rest] show ?thesis by (simp add: read_value_def)
qed

lemma reads_string: "c_text t \<Longrightarrow> reads num (JString t)"
  unfolding reads_def by (auto simp: print_string_ptr_def read_value_quote)

lemma reads_literals: "reads num JNull" "reads num (JBool b)"
  unfolding reads_def by (auto simp: read_value_def literal_def)

text \<open>After an opening bracket or a separator, the value is read and the rest goes on.\<close>

lemma json_run_value:
  assumes "reads num v" "delim rest"
    and "\<And>c s. print_value v = c # s \<Longrightarrow> opens_value c \<Longrightarrow>
      json_next num j = read_value num (Some c) (at (s @ rest) st n)"
  shows "\<exists>n'. 0 < n' \<and> json_run num j = events_of num v @ json_run num (at rest st n')"
proof -
  obtain c s where p: "print_value v = c # s" "opens_value c" using print_value_start by blast
  from assms(3) [OF p] have j: "json_next num j = read_value num (Some c) (at (s @ rest) st n)" .
  from readsD [OF assms(1) p(1) assms(2)] obtain e j' n' where
    "read_value num (Some c) (at (s @ rest) st n) = (e, j')" "\<not> final e" "0 < n'"
    "e # json_run num j' = events_of num v @ json_run num (at rest st n')"
    by blast
  with j show ?thesis by (intro exI [of _ n']) (simp add: json_run.simps [of num j])
qed

lemma reads_array_empty: "reads num (JArray [])"
  unfolding reads_def
  by (auto simp: read_value_def push_def json_run_at next_in_def pop_def)

lemma reads_more_Nil: "reads_more num []"
  unfolding reads_more_def by (auto simp: json_run_at next_in_def pop_def)

lemma reads_more_Cons:
  assumes "reads num v" "reads_more num vs"
  shows "reads_more num (v # vs)"
  unfolding reads_more_def
proof (intro allI)
  fix st m n rest
  let ?r = "print_more vs @ CHR '']'' # rest"
  let ?j = "at (CHR '','' # print_value v @ ?r) ((In_Array, Suc m) # st) (Suc n)"
  have "json_next num ?j = read_value num (Some c) (at (s @ ?r) ((In_Array, Suc (Suc m)) # st) (Suc n))"
    if "print_value v = c # s" "opens_value c" for c s
    using that by (simp add: json_next_def next_char_at next_in_def count_up_def opens_value_not)
  from json_run_value [OF assms(1) _ this] obtain n1 where n1: "0 < n1"
    "json_run num ?j = events_of num v @ json_run num (at ?r ((In_Array, Suc (Suc m)) # st) n1)"
    by auto
  from n1(1) obtain k where "n1 = Suc k" by (cases n1) auto
  with assms(2) obtain n2 where "0 < n2" "json_run num (at ?r ((In_Array, Suc (Suc m)) # st) n1) =
      events_of_list num vs @ JSON_ARRAY_END # json_run num (at rest st n2)"
    unfolding reads_more_def by blast
  with n1(2) show "\<exists>n'. 0 < n' \<and>
      json_run num (at (print_more (v # vs) @ CHR '']'' # rest) ((In_Array, Suc m) # st) (Suc n)) =
      events_of_list num (v # vs) @ JSON_ARRAY_END # json_run num (at rest st n')"
    by auto
qed

lemma reads_array_Cons:
  assumes "reads num v" "reads_more num vs"
  shows "reads num (JArray (v # vs))"
  unfolding reads_def
proof (intro allI impI)
  fix c s st n rest
  assume p: "print_value (JArray (v # vs)) = c # s"
  let ?r = "print_more vs @ CHR '']'' # rest"
  let ?j = "at (print_value v @ ?r) ((In_Array, 0) # st) (Suc n)"
  have s: "c = CHR ''[''" "s @ rest = print_value v @ ?r" using p by auto
  have "json_next num ?j = read_value num (Some c) (at (s @ ?r) ((In_Array, Suc 0) # st) (Suc n))"
    if "print_value v = c # s" "opens_value c" for c s
    using that by (simp add: json_next_def next_char_at next_in_def count_up_def opens_value_not)
  from json_run_value [OF assms(1) _ this] obtain n1 where n1: "0 < n1"
    "json_run num ?j = events_of num v @ json_run num (at ?r ((In_Array, Suc 0) # st) n1)"
    by auto
  from n1(1) obtain k where "n1 = Suc k" by (cases n1) auto
  with assms(2) obtain n2 where "0 < n2" "json_run num (at ?r ((In_Array, Suc 0) # st) n1) =
      events_of_list num vs @ JSON_ARRAY_END # json_run num (at rest st n2)"
    unfolding reads_more_def by blast
  with n1(2) have "json_run num ?j = events_of_list num (v # vs) @ JSON_ARRAY_END # json_run num (at rest st n2)"
    by simp
  moreover have "read_value num (Some c) (at (s @ rest) st n) = (JSON_ARRAY, ?j)"
    by (simp add: s read_value_def push_def)
  ultimately show "\<exists>e j' n'. read_value num (Some c) (at (s @ rest) st n) = (e, j') \<and> \<not> final e \<and> 0 < n' \<and>
      e # json_run num j' = events_of num (JArray (v # vs)) @ json_run num (at rest st n')"
    using \<open>0 < n2\<close> by (intro exI [of _ JSON_ARRAY] exI [of _ ?j] exI [of _ n2]) simp
qed

lemma json_run_colon:
  assumes "reads num v" "delim rest"
  shows "\<exists>n'. 0 < n' \<and>
    json_run num (at (CHR '':'' # print_value v @ rest) ((In_Object, 2 * m + 1) # st) n) =
      events_of num v @ json_run num (at rest ((In_Object, 2 * m + 2) # st) n')"
proof (rule json_run_value [OF assms])
  fix c s
  assume "print_value v = c # s" "opens_value c"
  then show "json_next num (at (CHR '':'' # print_value v @ rest) ((In_Object, 2 * m + 1) # st) n) =
      read_value num (Some c) (at (s @ rest) ((In_Object, 2 * m + 2) # st) n)"
    by (simp add: json_next_def next_char_at next_in_def count_up_def opens_value_not)
qed

lemma read_name_quote:
  assumes "c_text k"
  shows "read_name num (Some (CHR 0x22)) (at (concat (map escape k) @ CHR 0x22 # rest) ((In_Object, m) # st) n) =
    (JSON_STRING k, at rest ((In_Object, Suc m) # st) (Suc n))"
  by (simp add: read_name_def read_value_quote [OF assms] is_string_event_def count_up_def)

lemma reads_object_empty: "reads num (JObject [])"
  unfolding reads_def
  by (auto simp: read_value_def push_def json_run_at next_in_def pop_def)

lemma reads_more_members_Nil: "reads_more_members num []"
  unfolding reads_more_members_def by (auto simp: json_run_at next_in_def pop_def)

text \<open>A member from its key on, once the place before it is reached.\<close>

lemma json_run_member:
  assumes "c_text k" "reads num v" "reads_more_members num ms"
    and "json_next num j = read_name num (Some (CHR 0x22))
      (at (concat (map escape k) @ CHR 0x22 # CHR '':'' # print_value v @ print_more_members ms @ CHR ''}'' # rest)
         ((In_Object, 2 * m) # st) n)"
  shows "\<exists>n'. 0 < n' \<and> json_run num j =
    events_of_members num ((k, v) # ms) @ JSON_OBJECT_END # json_run num (at rest st n')"
proof -
  let ?r = "print_more_members ms @ CHR ''}'' # rest"
  have 1: "json_run num j = JSON_STRING k #
      json_run num (at (CHR '':'' # print_value v @ ?r) ((In_Object, 2 * m + 1) # st) (Suc n))"
    by (simp add: json_run.simps [of num j] assms(4) read_name_quote [OF assms(1)])
  from json_run_colon [OF assms(2), where rest = ?r and m = m and st = st and n = "Suc n"]
  obtain n1 where n1: "0 < n1" "json_run num (at (CHR '':'' # print_value v @ ?r) ((In_Object, 2 * m + 1) # st) (Suc n)) =
      events_of num v @ json_run num (at ?r ((In_Object, 2 * m + 2) # st) n1)"
    by auto
  from n1(1) obtain k where "n1 = Suc k" by (cases n1) auto
  with assms(3) obtain n2 where "0 < n2" "json_run num (at ?r ((In_Object, 2 * m + 2) # st) n1) =
      events_of_members num ms @ JSON_OBJECT_END # json_run num (at rest st n2)"
    unfolding reads_more_members_def by blast
  with 1 n1(2) show ?thesis by (intro exI [of _ n2]) simp
qed

lemma reads_more_members_Cons:
  assumes "c_text k" "reads num v" "reads_more_members num ms"
  shows "reads_more_members num ((k, v) # ms)"
  unfolding reads_more_members_def
proof (intro allI)
  fix st m n rest
  let ?r = "print_more_members ms @ CHR ''}'' # rest"
  show "\<exists>n'. 0 < n' \<and>
      json_run num (at (print_more_members ((k, v) # ms) @ CHR ''}'' # rest) ((In_Object, 2 * m + 2) # st) (Suc n)) =
      events_of_members num ((k, v) # ms) @ JSON_OBJECT_END # json_run num (at rest st n')"
    by (rule json_run_member [OF assms, where m = "Suc m" and n = "Suc n" and st = st])
       (simp add: json_next_def next_char_at next_in_def print_string_ptr_def c_text_cstr [OF assms(1)])
qed

lemma reads_object_Cons:
  assumes "c_text k" "reads num v" "reads_more_members num ms"
  shows "reads num (JObject ((k, v) # ms))"
  unfolding reads_def
proof (intro allI impI)
  fix c s st n rest
  assume p: "print_value (JObject ((k, v) # ms)) = c # s"
  let ?r = "print_more_members ms @ CHR ''}'' # rest"
  let ?j = "at (print_string_ptr k @ CHR '':'' # print_value v @ ?r) ((In_Object, 0) # st) (Suc n)"
  have s: "c = CHR ''{''" "s @ rest = print_string_ptr k @ CHR '':'' # print_value v @ ?r" using p by auto
  have "\<exists>n'. 0 < n' \<and> json_run num ?j =
      events_of_members num ((k, v) # ms) @ JSON_OBJECT_END # json_run num (at rest st n')"
    by (rule json_run_member [OF assms, where m = 0 and n = "Suc n" and st = st])
       (simp add: json_next_def next_char_at next_in_def print_string_ptr_def c_text_cstr [OF assms(1)])
  then obtain n' where "0 < n'" "json_run num ?j =
      events_of_members num ((k, v) # ms) @ JSON_OBJECT_END # json_run num (at rest st n')"
    by blast
  moreover have "read_value num (Some c) (at (s @ rest) st n) = (JSON_OBJECT, ?j)"
    by (simp add: s read_value_def push_def)
  ultimately show "\<exists>e j' n'. read_value num (Some c) (at (s @ rest) st n) = (e, j') \<and> \<not> final e \<and> 0 < n' \<and>
      e # json_run num j' = events_of num (JObject ((k, v) # ms)) @ json_run num (at rest st n')"
    by (intro exI [of _ JSON_OBJECT] exI [of _ ?j] exI [of _ n']) simp
qed

lemma reads_more_all: "list_all (reads num) vs \<Longrightarrow> reads_more num vs"
  by (induction vs) (auto simp: reads_more_Nil intro: reads_more_Cons)

lemma reads_more_members_all:
  "list_all (\<lambda>(k, v). c_text k \<and> reads num v) ms \<Longrightarrow> reads_more_members num ms"
  by (induction ms) (auto simp: reads_more_members_Nil intro: reads_more_members_Cons)

lemma reads_array: "list_all (reads num) vs \<Longrightarrow> reads num (JArray vs)"
  by (cases vs) (auto simp: reads_array_empty intro: reads_array_Cons reads_more_all)

lemma reads_object:
  "list_all (\<lambda>(k, v). c_text k \<and> reads num v) ms \<Longrightarrow> reads num (JObject ms)"
  by (cases ms) (auto simp: reads_object_empty intro: reads_object_Cons reads_more_members_all)

lemma reads_all:
  "utf8_json v \<Longrightarrow> reads num v"
  "utf8_list vs \<Longrightarrow> list_all (reads num) vs"
  "utf8_members ms \<Longrightarrow> list_all (\<lambda>(k, v). c_text k \<and> reads num v) ms"
  by (induction v and vs and ms rule: utf8_json_utf8_list_utf8_members.induct)
     (simp_all add: reads_string reads_number reads_literals reads_array reads_object)

lemma json_events_value:
  assumes "utf8_json v"
  shows "json_events num (print_value v) = events_of num v @ [JSON_DONE]"
proof -
  obtain c s where p: "print_value v = c # s" "opens_value c" using print_value_start by blast
  from readsD [OF reads_all(1) [OF assms] p(1), of "[]" num "[]" 0] obtain e j' n' where
    r: "read_value num (Some c) (at s [] 0) = (e, j')" "\<not> final e" "0 < n'"
    "e # json_run num j' = events_of num v @ json_run num (at [] [] n')"
    by auto
  have "json_run num (at [] [] n') = [JSON_DONE]"
    using r(3) by (simp add: json_run.simps json_next_def)
  with r p show ?thesis
    by (simp add: json_events_def json_open_string_def json_run_at opens_value_not)
qed

section \<open>Properties of the parser\<close>

lemma json_run_length: "length (json_run num j) \<le> Suc (length (source j))"
proof (induction num j rule: json_run.induct)
  case (1 num j)
  obtain e j' where n: "json_next num j = (e, j')" by fastforce
  show ?case
  proof (cases "final e")
    case False
    with 1 [OF n [symmetric]] json_next_shorter [OF n] show ?thesis
      by (subst json_run.simps) (simp add: n)
  qed (simp add: n json_run.simps [of num j])
qed

lemma json_run_last: "\<exists>es e. json_run num j = es @ [e] \<and> final e \<and> list_all (\<lambda>e. \<not> final e) es"
proof (induction num j rule: json_run.induct)
  case (1 num j)
  obtain e j' where n: "json_next num j = (e, j')" by fastforce
  show ?case
  proof (cases "final e")
    case False
    with 1 [OF n [symmetric]] obtain es f where
      "json_run num j' = es @ [f]" "final f" "list_all (\<lambda>e. \<not> final e) es" by blast
    with False show ?thesis
      by (intro exI [of _ "e # es"] exI [of _ f]) (simp add: n json_run.simps [of num j])
  qed (auto simp: n json_run.simps [of num j])
qed

text \<open>
  C25: On any text at all the parser reaches the end of the value or an error: its events are a run of
  at most as many as the text has characters, followed by one \<open>JSON_DONE\<close> or \<open>JSON_ERROR\<close>. So the loops
  of the firmware that read events up to one of these two end on every input.
\<close>

theorem parser_ends:
  "\<exists>es e. json_events num s = es @ [e] \<and> final e \<and> list_all (\<lambda>e. \<not> final e) es \<and> length es \<le> length s"
proof -
  from json_run_last obtain es e where
    "json_run num (json_open_string s) = es @ [e]" "final e" "list_all (\<lambda>e. \<not> final e) es" by blast
  moreover from this json_run_length [of num "json_open_string s"] have "length es \<le> length s"
    by (simp add: json_open_string_def)
  ultimately show ?thesis by (auto simp: json_events_def)
qed

text \<open>
  C14: Printer and parser agree: every JSON value whose strings are legal UTF-8 without NUL and whose
  numbers have at most 15 digits is printed by the one, with quotes, backslashes and control characters
  escaped, as a text that the other reads as exactly the events of the value, at any depth, and then
  the end.
\<close>

theorem parser_roundtrip:
  assumes "utf8_json v"
  shows "json_events num (cJSON_PrintUnformatted v) = events_of num v @ [JSON_DONE]"
  unfolding cJSON_PrintUnformatted_def by (rule json_events_value [OF assms])

theorem parser_roundtrip_witness:
  "json_events (\<lambda>_. 7) ''{\"a\":[true,-12,\"x\"],\"b\":{}}'' =
    [JSON_OBJECT, JSON_STRING ''a'', JSON_ARRAY, JSON_TRUE, JSON_NUMBER 7, JSON_STRING ''x'', JSON_ARRAY_END,
     JSON_STRING ''b'', JSON_OBJECT, JSON_OBJECT_END, JSON_OBJECT_END, JSON_DONE]"
proof -
  let ?v = "JObject [(''a'', JArray [JBool True, JNumber (- 12), JString ''x'']), (''b'', JObject [])]"
  have "cJSON_PrintUnformatted ?v = ''{\"a\":[true,-12,\"x\"],\"b\":{}}''"
    by (simp add: cJSON_PrintUnformatted_def print_string_ptr_def print_number_def escape_def show_int_def
        show_nat.simps digit_def char_of_def bit_Suc_0_iff cstr_def)
  moreover have "utf8_json ?v"
    by (simp add: c_text_def utf8_text.simps is_cstr_def)
  ultimately show ?thesis
    using parser_roundtrip [of ?v "\<lambda>_. 7"] by simp
qed

end
