(* ===== verification/PlaylistText.thy ===== *)
theory PlaylistText
  imports CJson Traverse
begin

text \<open>
  From the text of a playlist to its tracks: the parser and the walk together. A playlist entry is
  printed as a JSON value, the walk takes the events that the parser makes of the text.
\<close>

definition interval_json :: "string \<times> string \<times> string list \<Rightarrow> json" where
  "interval_json i = (case i of (b, e, ss) \<Rightarrow>
     JObject [(''begin'', JString b), (''end'', JString e), (''schedule'', JArray (map JString ss))])"

fun entry_json :: "playlist_entry \<Rightarrow> json" where
  "entry_json (Background u f n) =
     JObject [(''url'', JString u), (''filename'', JString f), (''media_item_id'', JNumber n),
       (''type'', JString ''background'')]"
| "entry_json (Advert u f n ivs) =
     JObject [(''url'', JString u), (''filename'', JString f), (''media_item_id'', JNumber n),
       (''type'', JString ''advertising''), (''schedule_intervals'', JArray (map interval_json ivs))]"

definition playlist_text :: "playlist_entry list \<Rightarrow> string" where
  "playlist_text es = cJSON_PrintUnformatted (JArray (map entry_json es))"

fun entry_id :: "playlist_entry \<Rightarrow> int" where
  "entry_id (Background u f n) = n"
| "entry_id (Advert u f n ivs) = n"

text \<open>The numbers of a playlist are read as they were printed, and its strings are UTF-8.\<close>

definition exact_ids :: "(string \<Rightarrow> int) \<Rightarrow> playlist_entry list \<Rightarrow> bool" where
  "exact_ids num es = list_all (\<lambda>e. num (show_int (entry_id e)) = entry_id e) es"

fun utf8_entry :: "playlist_entry \<Rightarrow> bool" where
  "utf8_entry (Background u f n) = (c_text u \<and> c_text f \<and> abs n < 10 ^ 15)"
| "utf8_entry (Advert u f n ivs) = (c_text u \<and> c_text f \<and> abs n < 10 ^ 15 \<and>
     list_all (\<lambda>(b, e, ss). c_text b \<and> c_text e \<and> list_all c_text ss) ivs)"

text \<open>A reader of decimal integers that is exact on all of them.\<close>

definition int_of_text :: "string \<Rightarrow> int" where
  "int_of_text s = (case s of c # r \<Rightarrow> if c = CHR ''-'' then - int (dec_val 0 r) else int (dec_val 0 s) | [] \<Rightarrow> 0)"

lemma int_of_text_show_int [simp]: "int_of_text (show_int n) = n"
proof (cases "n < 0")
  case False
  obtain c s where d: "show_nat (nat n) = c # s" using show_nat_nonempty by (meson neq_Nil_conv)
  moreover from this have "is_digit_char c" using show_nat_digits [of "nat n"] by simp
  then have "c \<noteq> CHR ''-''" by (simp add: digit_char_not)
  moreover have "int (dec_val 0 (c # s)) = n" using False by (simp only: d [symmetric] dec_val_show_nat)
  ultimately show ?thesis using False by (simp add: int_of_text_def show_int_def)
qed (simp add: int_of_text_def show_int_def)

lemma events_of_list_concat: "events_of_list num vs = concat (map (events_of num) vs)"
  by (induction vs) auto

lemma events_of_list_strings: "events_of_list num (map JString ss) = map JSON_STRING ss"
  by (induction ss) auto

lemma events_of_interval: "events_of num (interval_json i) = interval_events i"
  by (cases i) (simp add: interval_json_def interval_events_def events_of_list_strings)

lemma events_of_entry:
  "num (show_int (entry_id e)) = entry_id e \<Longrightarrow> events_of num (entry_json e) = entry_events e"
  by (cases e) (simp_all add: events_of_list_concat events_of_interval comp_def)

lemma events_of_playlist:
  "exact_ids num es \<Longrightarrow> events_of num (JArray (map entry_json es)) @ [JSON_DONE] = playlist_events es"
  unfolding exact_ids_def playlist_events_def
  by (induction es) (auto simp: events_of_entry)

lemma utf8_list_all: "utf8_list vs = list_all utf8_json vs"
  by (induction vs) auto

lemma utf8_strings: "utf8_list (map JString ss) = list_all c_text ss"
  by (induction ss) auto

lemma c_text_literals [simp]:
  "c_text ''begin''" "c_text ''end''" "c_text ''schedule''" "c_text ''url''" "c_text ''filename''"
  "c_text ''media_item_id''" "c_text ''type''" "c_text ''background''" "c_text ''advertising''"
  "c_text ''schedule_intervals''"
  by (simp_all add: c_text_def utf8_text.simps)

lemma utf8_interval: "utf8_json (interval_json (b, e, ss)) = (c_text b \<and> c_text e \<and> list_all c_text ss)"
  by (auto simp: interval_json_def utf8_strings)

lemma utf8_entry_json: "utf8_entry e \<Longrightarrow> utf8_json (entry_json e)"
  by (cases e) (auto simp: utf8_list_all list_all_iff utf8_interval)

lemma playlist_parsed:
  assumes "list_all utf8_entry es" "exact_ids num es"
  shows "json_events num (playlist_text es) = playlist_events es"
proof -
  have "utf8_json (JArray (map entry_json es))"
    using assms(1) by (auto simp: utf8_list_all list_all_iff utf8_entry_json)
  from json_events_value [OF this] show ?thesis
    by (simp only: playlist_text_def cJSON_PrintUnformatted_def events_of_playlist [OF assms(2)])
qed

text \<open>
  Parser and walk together: the text of a playlist, its strings escaped as JSON asks, gives back
  exactly the tracks of its entries, in order, with their dates and schedules.
\<close>

theorem playlist_text_tracks:
  assumes "list_all plain_entry es" "list_all utf8_entry es" "exact_ids num es"
  shows "traverse_playlist (Some collect) (json_events num (playlist_text es)) [] = Some (True, map track_of es)"
  by (simp add: playlist_parsed [OF assms(2,3)] traverse_playlist_visit [OF assms(1)] visit_collect)

theorem playlist_text_tracks_witness:
  "traverse_playlist (Some collect) (json_events int_of_text (playlist_text
     [Background ''/m/1'' ''so ng.mp3'' 4, Advert ''/m/2'' ''ad.mp3'' 5 [(''01.02.2019'', ''01.03.2019'', [''10:00:00''])]])) [] =
   Some (True, map track_of
     [Background ''/m/1'' ''so ng.mp3'' 4, Advert ''/m/2'' ''ad.mp3'' 5 [(''01.02.2019'', ''01.03.2019'', [''10:00:00''])]])"
  by (rule playlist_text_tracks) (simp_all add: exact_ids_def plain_def c_text_def utf8_text.simps)

end
