(* ===== verification/JsonKey.thy ===== *)
theory JsonKey
  imports CJson PdjsonShape
begin

text \<open>
  The loop with which the firmware looks up a string in a JSON text: it stands, with another key, in
  \<open>parse_command\<close> (\<open>remote/commands/incoming.c\<close>), \<open>parse_json_timezone\<close> and
  \<open>parse_json_distribution_url\<close> (its handlers) and \<open>parse_json\<close> (\<open>clock/clock.c\<close>).
  Strings at depth one are compared with the key, and the string at depth one that follows the first
  match is the answer. A C reader sees each string up to its first NUL.
\<close>

function string_after :: "string \<Rightarrow> bool \<Rightarrow> json_stream \<Rightarrow> string option" where
  "string_after key key_found j =
     (case json_next (\<lambda>_. 0) j of (t, j') \<Rightarrow>
        if final t then None
        else (case t of
                JSON_STRING s \<Rightarrow>
                  if json_get_depth j' = 1 then
                    (if key_found then Some (cstr s) else string_after key (cstr s = key) j')
                  else string_after key key_found j'
              | _ \<Rightarrow> string_after key key_found j'))"
  by pat_completeness auto
termination
  by (relation "measure (\<lambda>(key, found, j). length (source j))") (auto dest: json_next_shorter [OF sym])

declare string_after.simps [simp del]

definition find_string :: "string \<Rightarrow> string \<Rightarrow> string option" where
  "find_string key text_of = string_after key False (json_open_string text_of)"

section \<open>The loop on events\<close>

text \<open>Depth before an event to depth after it.\<close>

fun depth_after :: "json_event \<Rightarrow> nat \<Rightarrow> nat" where
  "depth_after JSON_OBJECT d = Suc d"
| "depth_after JSON_ARRAY d = Suc d"
| "depth_after JSON_OBJECT_END d = d - 1"
| "depth_after JSON_ARRAY_END d = d - 1"
| "depth_after _ d = d"

fun scan :: "string \<Rightarrow> bool \<Rightarrow> nat \<Rightarrow> json_event list \<Rightarrow> string option" where
  "scan key key_found d [] = None"
| "scan key key_found d (JSON_STRING s # es) =
     (if d = 1 then (if key_found then Some (cstr s) else scan key (cstr s = key) d es)
      else scan key key_found d es)"
| "scan key key_found d (e # es) = scan key key_found (depth_after e d) es"

text \<open>The parser's stack has the depth that the events say.\<close>

definition deepens :: "json_stream \<Rightarrow> json_event \<times> json_stream \<Rightarrow> bool" where
  "deepens j p = (final (fst p) \<or> json_get_depth (snd p) = depth_after (fst p) (json_get_depth j))"

lemma scalar_depth: "scalar_event e \<Longrightarrow> depth_after e d = d"
  by (cases e) (auto simp: scalar_event_def)

lemma deepens_read_value: "json_get_depth j1 = json_get_depth j \<Longrightarrow> deepens j (read_value num c j1)"
  using read_value_delivers [of j1 num c]
  by (auto simp: deepens_def delivers_def json_get_depth_def scalar_depth)

lemma depth_count_up [simp]: "json_get_depth (count_up j) = json_get_depth j"
  by (auto simp: count_up_def json_get_depth_def split: list.split)

lemma depth_next_char: "next_char j = (c, j') \<Longrightarrow> json_get_depth j' = json_get_depth j"
  using next_char_frame [of j c j'] by (simp add: json_get_depth_def)

lemma deepens_read_name: "json_get_depth j1 = json_get_depth j \<Longrightarrow> deepens j (read_name num c j1)"
  using deepens_read_value [of j1 j num c]
  by (auto simp: read_name_def deepens_def fail_with_def split: prod.split)

lemma deepens_next:
  "json_get_depth j1 = json_get_depth j \<Longrightarrow> deepens j (case next_char j1 of (c', j') \<Rightarrow> read_value num c' j')"
  "json_get_depth j1 = json_get_depth j \<Longrightarrow> deepens j (case next_char j1 of (c', j') \<Rightarrow> read_name num c' j')"
  by (auto split: prod.split dest!: depth_next_char intro!: deepens_read_value deepens_read_name)

lemma deepens_fail: "deepens j (fail_with j1)"
  by (simp add: deepens_def fail_with_def)

lemma deepens_pop: "deepens j (pop k j)"
  by (auto simp: deepens_def pop_def fail_with_def json_get_depth_def split: list.split)

lemma deepens_next_in: "deepens j (next_in num k n c j)"
  by (cases k)
     (auto simp only: next_in_def container.case deepens_pop deepens_fail
        deepens_read_value [OF depth_count_up] deepens_read_name [OF refl] deepens_next(1) [OF depth_count_up]
        deepens_next(2) [OF refl] split: if_split)

lemma json_next_depth:
  assumes "json_next num j = (e, j')" "\<not> final e"
  shows "json_get_depth j' = depth_after e (json_get_depth j)"
proof -
  obtain c j1 where n: "next_char j = (c, j1)" by fastforce
  note d = depth_next_char [OF n]
  have "deepens j1 (e, j')"
  proof (cases "stack j1")
    case Nil
    with assms n show ?thesis
      using deepens_read_value [OF refl, of j1 num c] by (auto simp: json_next_def split: if_splits)
  next
    case (Cons p st)
    obtain k m where "p = (k, m)" by fastforce
    with Cons assms n show ?thesis
      using deepens_next_in [of j1 num k m c] by (auto simp: json_next_def split: if_splits)
  qed
  with assms(2) d show ?thesis by (simp add: deepens_def)
qed

lemma string_after_scan:
  "string_after key found j = scan key found (json_get_depth j) (json_run (\<lambda>_. 0) j)"
proof (induction key found j rule: string_after.induct)
  case (1 key found j)
  obtain e j' where n: "json_next (\<lambda>_. 0) j = (e, j')" by fastforce
  show ?case
  proof (cases "final e")
    case True
    with n show ?thesis
      by (auto simp: string_after.simps [of key found j] json_run.simps [of _ j] final_def)
  next
    case False
    note IH = 1 [OF n [symmetric] False]
    note d = json_next_depth [OF n False]
    have r: "json_run (\<lambda>_. 0) j = e # json_run (\<lambda>_. 0) j'"
      using n False by (simp add: json_run.simps [of _ j])
    show ?thesis
      unfolding r string_after.simps [of key found j] n prod.case
      using IH d False by (cases e) simp_all
  qed
qed

section \<open>Objects\<close>

text \<open>Below depth one nothing is looked at.\<close>

lemma scan_inside:
  "scan key f (Suc (Suc d)) (events_of num v @ es) = scan key f (Suc (Suc d)) es"
  "scan key f (Suc (Suc d)) (events_of_list num vs @ es) = scan key f (Suc (Suc d)) es"
  "scan key f (Suc (Suc d)) (events_of_members num ms @ es) = scan key f (Suc (Suc d)) es"
  by (induction num v and num vs and num ms arbitrary: d es and d es and d es
      rule: events_of_events_of_list_events_of_members.induct) auto

text \<open>The answer in terms of the members of an object.\<close>

fun next_string :: "string \<Rightarrow> bool \<Rightarrow> (string \<times> json) list \<Rightarrow> string option" where
  "next_string key found [] = None"
| "next_string key found ((k, v) # ms) =
     (if found then Some k
      else (case v of
              JString s \<Rightarrow> if k = key then Some s else next_string key (s = key) ms
            | _ \<Rightarrow> next_string key (k = key) ms))"

lemma scan_value:
  assumes "\<nexists>s. v = JString s"
  shows "scan key f (Suc 0) (events_of num v @ es) = scan key f (Suc 0) es"
  using assms scan_inside [where d = 0] by (cases v) auto

lemma scan_members:
  "utf8_members ms \<Longrightarrow> scan key f 1 (events_of_members num ms @ [JSON_OBJECT_END, JSON_DONE]) = next_string key f ms"
proof (induction ms arbitrary: f)
  case (Cons m ms)
  obtain k v where m: "m = (k, v)" by fastforce
  with Cons.prems have k: "cstr k = k" "utf8_members ms" "utf8_json v" by auto
  show ?case
  proof (cases "\<exists>s. v = JString s")
    case True
    then obtain s where s: "v = JString s" by blast
    with k(3) have "cstr s = s" by simp
    with k m s Cons.IH show ?thesis by auto
  next
    case False
    then have "scan key f' (Suc 0) (events_of num v @ es) = scan key f' (Suc 0) es" for f' es
      by (rule scan_value)
    moreover have "next_string key f (m # ms) = (if f then Some k else next_string key (k = key) ms)"
      using False by (cases v) (simp_all add: m)
    ultimately show ?thesis using k m Cons.IH by simp
  qed
qed simp

lemma find_string_object:
  assumes "utf8_members ms"
  shows "find_string key (cJSON_PrintUnformatted (JObject ms)) = next_string key False ms"
proof -
  have e: "json_run (\<lambda>_. 0) (json_open_string (print_value (JObject ms))) =
      JSON_OBJECT # events_of_members (\<lambda>_. 0) ms @ [JSON_OBJECT_END, JSON_DONE]"
    using json_events_value [of "JObject ms" "\<lambda>_. 0"] assms by (simp add: json_events_def)
  have d: "json_get_depth (json_open_string t) = 0" for t
    by (simp add: json_get_depth_def json_open_string_def)
  show ?thesis
    unfolding find_string_def cJSON_PrintUnformatted_def string_after_scan e d
    using scan_members [OF assms, of key False] by simp
qed

lemma next_string_skip:
  "list_all (\<lambda>(k, v). k \<noteq> key \<and> v \<noteq> JString key) pre \<Longrightarrow>
   next_string key False (pre @ ms) = next_string key False ms"
proof (induction pre)
  case (Cons m pre)
  obtain k v where m: "m = (k, v)" by fastforce
  with Cons.prems have "k \<noteq> key" "v \<noteq> JString key" by auto
  then have "next_string key False (m # (pre @ ms)) = next_string key False (pre @ ms)"
    by (cases v) (simp_all add: m)
  with Cons show ?case by simp
qed simp

lemma utf8_members_append [simp]: "utf8_members (ms @ ns) = (utf8_members ms \<and> utf8_members ns)"
  by (induction ms rule: list.induct) (auto split: prod.splits)

text \<open>
  Looking up a key finds its value: in an object where the key has a string as its value and
  occurs neither as a key nor as the text of a string before, whatever else the object holds and however
  deeply it is nested, the answer is that string, whatever follows.
\<close>

theorem find_string_value:
  assumes "utf8_members (pre @ (key, JString s) # post)"
    and "list_all (\<lambda>(k, v). k \<noteq> key \<and> v \<noteq> JString key) pre"
  shows "find_string key (cJSON_PrintUnformatted (JObject (pre @ (key, JString s) # post))) = Some s"
  by (simp add: find_string_object [OF assms(1)] next_string_skip [OF assms(2)])

theorem find_string_value_witness:
  "find_string ''command'' (cJSON_PrintUnformatted (JObject
     [(''x'', JObject [(''command'', JString ''no'')]), (''command'', JString ''reboot'')])) = Some ''reboot''"
  using find_string_value [of "[(''x'', JObject [(''command'', JString ''no'')])]" "''command''" "''reboot''" "[]"]
  by (simp add: c_text_def utf8_text.simps)

text \<open>
  Keys and values are not told apart: a member whose value is the text of the key makes the name of
  the next member the answer, and the value under the key itself is never reached.
\<close>

theorem find_string_takes_value_for_key:
  assumes "utf8_members ((k, JString key) # (k', v) # ms)" and "k \<noteq> key"
  shows "find_string key (cJSON_PrintUnformatted (JObject ((k, JString key) # (k', v) # ms))) = Some k'"
  using assms(2) by (simp add: find_string_object [OF assms(1)])

theorem find_string_takes_value_for_key_witness:
  "find_string ''command'' (cJSON_PrintUnformatted (JObject
     [(''title'', JString ''command''), (''reboot'', JNull), (''command'', JString ''update_setting'')])) =
   Some ''reboot''"
  by (rule find_string_takes_value_for_key) (simp_all add: c_text_def utf8_text.simps)

end
