(* ===== verification/Clock.thy ===== *)
theory Clock
  imports JsonKey Config Ds3231
begin

text \<open>
  \<open>src/firmware/main/clock/clock.c\<close> and \<open>ntp.c\<close>: the time zone of the C library, set from the table of
  zones in the program, and the synchronisation of the two clocks. The table \<open>zones\<close> is the text of
  \<open>clock/zones.json\<close>; the state is the variable \<open>TZ\<close>, unset at first, and the settings.
\<close>

definition clock_set_timezone :: "string \<Rightarrow> string \<Rightarrow> string option \<Rightarrow> bool \<times> string option" where
  "clock_set_timezone zones tzname tz =
     (case find_string tzname zones of
        Some tzvalue \<Rightarrow> (True, Some tzvalue)
      | None \<Rightarrow> (False, tz))"

definition clock_set_timezone_from_config ::
  "string \<Rightarrow> string option \<Rightarrow> nvs_state \<Rightarrow> (bool \<times> string option \<times> nvs_state) option" where
  "clock_set_timezone_from_config zones tz s =
     map_option (\<lambda>(tzname, s'). case clock_set_timezone zones tzname tz of (ok, tz') \<Rightarrow> (ok, tz', s'))
       (config_timezone s)"

text \<open>\<open>mktime\<close> reads \<open>TZ\<close>, so the zone has to be set before the chip is read.\<close>

definition clock_init ::
  "string \<Rightarrow> (string option \<Rightarrow> rtc_tm \<Rightarrow> int) \<Rightarrow> 'd i2c_bus \<Rightarrow> bool \<Rightarrow> bool \<Rightarrow> bool \<Rightarrow> string option \<Rightarrow>
     nvs_state \<Rightarrow> int \<Rightarrow> 'd \<Rightarrow> (bool \<times> string option \<times> nvs_state \<times> int \<times> 'd) option" where
  "clock_init zones mktime bus driver_ok got_mutex task_ok tz s system_time d =
     (case clock_set_timezone_from_config zones tz s of
        None \<Rightarrow> None
      | Some (_, tz', s') \<Rightarrow>
          (case ds3231_init (mktime tz') bus driver_ok got_mutex system_time d of (rtc_ok, now, d') \<Rightarrow>
             Some (rtc_ok \<and> task_ok, tz', s', now, d')))"

text \<open>
  The task of \<open>ntp.c\<close> once the network is there: it polls until the status is no longer
  \<open>SNTP_SYNC_STATUS_RESET\<close> (each entry of \<open>resets\<close> is one poll that still finds it, None is a wait that
  has not ended), then writes the local time to the chip.
\<close>

fun ntp_wait :: "bool list \<Rightarrow> nat option" where
  "ntp_wait [] = None"
| "ntp_wait (reset # resets) = (if reset then map_option Suc (ntp_wait resets) else Some 0)"

definition ntp_thread ::
  "bool list \<Rightarrow> (int \<Rightarrow> rtc_tm) \<Rightarrow> int \<Rightarrow> 'd i2c_bus \<Rightarrow> 'd \<Rightarrow> (bool \<times> 'd) option" where
  "ntp_thread resets localtime now bus d =
     (case ntp_wait resets of
        None \<Rightarrow> None
      | Some _ \<Rightarrow> Some (ds3231_set_time bus (localtime now) d))"

section \<open>Properties\<close>

lemma ntp_wait_ends: "ntp_wait (replicate n True @ False # rest) = Some n"
  by (induction n) auto

text \<open>
  C39: Time survives a restart: once the network time has been obtained and the chip has taken the local
  time, the next start sets the system clock to that very second, if the stored zone is the one in force
  when the time was written, \<open>mktime\<close> undoes \<open>localtime\<close> in it, and the chip keeps its seven registers.
\<close>

theorem ntp_time_survives_restart:
  assumes "ntp_thread resets (localtime (Some tzvalue)) now bus d = Some (True, d')"
    and "valid_time (localtime (Some tzvalue) now)"
    and "mktime (Some tzvalue) (localtime (Some tzvalue) now) = now" and "now > 30"
    and "\<And>d data r d'. bus d (write_ops 0 data) = Some (r, d') \<Longrightarrow> length data = 7 \<Longrightarrow>
           bus d' (read_ops 0 7) = Some (data, d')"
    and "config_timezone s = Some (zone, s')" and "find_string zone zones = Some tzvalue"
  shows "clock_init zones mktime bus True True True None s boot_time d' =
           Some (True, Some tzvalue, s', now, d')"
proof -
  have "ds3231_set_time bus (localtime (Some tzvalue) now) d = (True, d')"
    using assms(1) by (auto simp: ntp_thread_def split: option.splits)
  from chip_keeps(2) [OF assms(2) _ this, where mktime = "mktime (Some tzvalue)" and now = boot_time] assms(3-7)
  show ?thesis
    by (simp add: clock_init_def clock_set_timezone_from_config_def clock_set_timezone_def)
qed

theorem ntp_time_survives_restart_witness:
  "\<exists>s'. clock_init ''{\"Europe/Kaliningrad\":\"EET-2\"}'' (\<lambda>_. ryear) plain_chip True True True None fresh_nvs 5
     (encode_time new_year) = Some (True, Some ''EET-2'', s', 119, encode_time new_year)"
proof -
  obtain s' where s: "config_timezone fresh_nvs = Some (''Europe/Kaliningrad'', s')"
    by (simp add: config_timezone_def fresh_nvs_def nvs_ops nvs_enter_def nvs_init_def nvs_set_def
        config_save_timezone_def nvs_flash_init_def)
  have c: "find_string ''Europe/Kaliningrad'' ''{\"Europe/Kaliningrad\":\"EET-2\"}'' = Some ''EET-2''"
    by code_simp
  have "clock_init ''{\"Europe/Kaliningrad\":\"EET-2\"}'' (\<lambda>_. ryear) plain_chip True True True None fresh_nvs 5
     (encode_time new_year) = Some (True, Some ''EET-2'', s', 119, encode_time new_year)"
    by (rule ntp_time_survives_restart [where localtime = "\<lambda>_ _. new_year" and resets = "[True, False]" and d = "[]"])
       (auto simp: ntp_thread_def ds3231_set_time_def i2c_write_def write_ops_def plain_chip_def read_ops_def
          valid_time_def new_year_def encode_time_def s c split: if_splits)
  then show ?thesis by blast
qed

end
