(* ===== verification/Outgoing.thy ===== *)
theory Outgoing
  imports JsonKey Track Player
begin

text \<open>
  \<open>src/firmware/main/remote/queue.c\<close>, \<open>remote/commands/outgoing.c\<close> and its seven builders: the
  messages of the device on their way into the queue. What a message reads of the rest of the device
  is a record; the JSON values are those of the theory CJson, whose allocations succeed.
\<close>

section \<open>The queue\<close>

text \<open>The two functions that the firmware passes as a callback of a message.\<close>

datatype sent_callback = Reboot_Callback | Remove_Nvs_Sequence_Callback

record QueueMessage_t =
  data :: string
  sequence :: u32
  max_retries :: u16
  callback :: "sent_callback option"

type_synonym queue = "QueueMessage_t list"

definition QUEUE_LENGTH :: nat where
  "QUEUE_LENGTH = 16"

text \<open>With a timeout of zero; a queue that cannot be created stops the firmware and is left out.\<close>

definition queue_put :: "QueueMessage_t \<Rightarrow> queue \<Rightarrow> bool \<times> queue" where
  "queue_put msg q = (if length q < QUEUE_LENGTH then (True, q @ [msg]) else (False, q))"

text \<open>With a timeout of \<open>portMAX_DELAY\<close>: None is a receiver that waits.\<close>

definition queue_receive :: "queue \<Rightarrow> (QueueMessage_t \<times> queue) option" where
  "queue_receive q = (case q of [] \<Rightarrow> None | msg # q' \<Rightarrow> Some (msg, q'))"

section \<open>What the messages read\<close>

datatype esp_reset_reason_t =
    ESP_RST_UNKNOWN | ESP_RST_POWERON | ESP_RST_EXT | ESP_RST_SW | ESP_RST_PANIC | ESP_RST_INT_WDT
  | ESP_RST_TASK_WDT | ESP_RST_WDT | ESP_RST_DEEPSLEEP | ESP_RST_BROWNOUT | ESP_RST_SDIO

definition sysinfo_reset_reason :: "esp_reset_reason_t \<Rightarrow> string" where
  "sysinfo_reset_reason r =
     (case r of
        ESP_RST_UNKNOWN \<Rightarrow> ''unknown'' | ESP_RST_POWERON \<Rightarrow> ''poweron'' | ESP_RST_EXT \<Rightarrow> ''ext''
      | ESP_RST_SW \<Rightarrow> ''sw'' | ESP_RST_PANIC \<Rightarrow> ''panic'' | ESP_RST_INT_WDT \<Rightarrow> ''int_wdt''
      | ESP_RST_TASK_WDT \<Rightarrow> ''task_wdt'' | ESP_RST_WDT \<Rightarrow> ''wdt'' | ESP_RST_DEEPSLEEP \<Rightarrow> ''deepsleep''
      | ESP_RST_BROWNOUT \<Rightarrow> ''brownout'' | ESP_RST_SDIO \<Rightarrow> ''sdio'')"

record device =
  localtime_text :: string
  sd_bytes_free :: int
  sta_ip_addr :: string
  reset_reason :: esp_reset_reason_t
  player_mutex :: bool
  player_name :: "string option"
  player_percents :: u8

section \<open>The builders\<close>

type_synonym members = "(string \<times> json) list"

definition cJSON_CreateString :: "string cptr \<Rightarrow> json option option" where
  "cJSON_CreateString s = (case s of NULL \<Rightarrow> Some None | Ptr t \<Rightarrow> Some (Some (JString t)) | Wild \<Rightarrow> None)"

definition cJSON_AddItemToObject :: "string \<Rightarrow> json option \<Rightarrow> members \<Rightarrow> members" where
  "cJSON_AddItemToObject key item object = (case item of None \<Rightarrow> object | Some v \<Rightarrow> object @ [(key, v)])"

abbreviation add :: "string \<Rightarrow> json \<Rightarrow> members \<Rightarrow> members" where
  "add key v \<equiv> cJSON_AddItemToObject key (Some v)"

record AckCommandArgs_t =
  ack_message :: string
  ack_sequence :: u32

text \<open>The command and what its \<open>args\<close> point to.\<close>

datatype OutgoingCommand_t =
    NOW_PLAYING
  | POWER_ON
  | TRACK_BEGIN Track_t
  | TRACK_END Track_t
  | ACK_OK "AckCommandArgs_t option"
  | ACK_FAIL "AckCommandArgs_t option"
  | UPDATE_PLAYLIST u32 u32

record OutgoingCommandArgument_t =
  arg_json :: members
  arg_sequence :: u32
  arg_max_retries :: u16

definition add_to :: "string \<Rightarrow> json \<Rightarrow> OutgoingCommandArgument_t \<Rightarrow> OutgoingCommandArgument_t" where
  "add_to key v a = a\<lparr>arg_json := add key v (arg_json a)\<rparr>"

text \<open>
  The message is what plays and the position. None: the name fills the buffer of 322 bytes so that it is
  not terminated, or the percents are appended past its end, since the bound of \<open>strncat\<close> counts the
  characters appended and not the buffer.
\<close>

definition now_playing_text :: "device \<Rightarrow> string option" where
  "now_playing_text dev =
     (case player_get_now_playing (player_mutex dev) (player_name dev) 322 of
        (True, None) \<Rightarrow> None
      | (True, Some name) \<Rightarrow>
          (let percents = '' ('' @ show_nat (unat (player_percents dev)) @ ''%)''
           in if length name + length percents < 322 then Some (name @ percents) else None)
      | (False, _) \<Rightarrow> Some [])"

definition now_playing :: "device \<Rightarrow> OutgoingCommandArgument_t \<Rightarrow> OutgoingCommandArgument_t option" where
  "now_playing dev arg =
     map_option (\<lambda>t. add_to ''message'' (JString t) (add_to ''command'' (JString ''now_playing'') arg))
       (now_playing_text dev)"

definition power_on :: "device \<Rightarrow> OutgoingCommandArgument_t \<Rightarrow> OutgoingCommandArgument_t" where
  "power_on dev arg =
     (add_to ''message'' (JString (sysinfo_reset_reason (reset_reason dev)))
       (add_to ''command'' (JString ''power_on'') arg))\<lparr>arg_max_retries := 15\<rparr>"

definition track_message :: "Track_t \<Rightarrow> members option" where
  "track_message track =
     map_option (\<lambda>name.
       add ''type'' (JString (if track_type track = TRACK_BACKGROUND then ''background'' else ''advertising''))
         (add ''id'' (JNumber (track_id track)) (cJSON_AddItemToObject ''filename'' name [])))
       (cJSON_CreateString (filename track))"

definition track_begin :: "Track_t \<Rightarrow> OutgoingCommandArgument_t \<Rightarrow> OutgoingCommandArgument_t option" where
  "track_begin track arg =
     map_option (\<lambda>message.
       (add_to ''message'' (JObject message) (add_to ''command'' (JString ''track_begin'') arg))
         \<lparr>arg_max_retries := 50\<rparr>)
       (track_message track)"

definition track_end :: "Track_t \<Rightarrow> OutgoingCommandArgument_t \<Rightarrow> OutgoingCommandArgument_t option" where
  "track_end track arg =
     map_option (\<lambda>message.
       (add_to ''message'' (JObject message) (add_to ''command'' (JString ''track_end'') arg))
         \<lparr>arg_max_retries := 50\<rparr>)
       (track_message track)"

definition ack :: "string \<Rightarrow> AckCommandArgs_t option \<Rightarrow> OutgoingCommandArgument_t \<Rightarrow> OutgoingCommandArgument_t" where
  "ack name args arg =
     (let arg = add_to ''command'' (JString name) arg
      in case args of
           Some a \<Rightarrow> (add_to ''message'' (JString (ack_message a)) arg)\<lparr>arg_sequence := ack_sequence a\<rparr>
         | None \<Rightarrow> add_to ''message'' (JString []) arg)"

definition ack_ok :: "AckCommandArgs_t option \<Rightarrow> OutgoingCommandArgument_t \<Rightarrow> OutgoingCommandArgument_t" where
  "ack_ok = ack ''ack_ok''"

definition ack_fail :: "AckCommandArgs_t option \<Rightarrow> OutgoingCommandArgument_t \<Rightarrow> OutgoingCommandArgument_t" where
  "ack_fail = ack ''ack_fail''"

definition update_playlist_progress :: "u32 \<Rightarrow> u32 \<Rightarrow> OutgoingCommandArgument_t \<Rightarrow> OutgoingCommandArgument_t" where
  "update_playlist_progress files_done seq arg =
     (add_to ''message'' (JObject (add ''files_done'' (JNumber (uint files_done)) []))
       (add_to ''command'' (JString ''update_playlist'') arg))\<lparr>arg_sequence := seq\<rparr>"

section \<open>Sending\<close>

definition base_command_fields :: "device \<Rightarrow> members \<Rightarrow> members" where
  "base_command_fields dev json =
     add ''ip_addr'' (JString (sta_ip_addr dev))
       (add ''free_space'' (JNumber (sd_bytes_free dev))
         (add ''localtime'' (JString (localtime_text dev)) json))"

definition build :: "device \<Rightarrow> OutgoingCommand_t \<Rightarrow> OutgoingCommandArgument_t option" where
  "build dev cmd =
     (let arg = \<lparr>arg_json = [], arg_sequence = 0, arg_max_retries = 0\<rparr>
      in case cmd of
           NOW_PLAYING \<Rightarrow> now_playing dev arg
         | POWER_ON \<Rightarrow> Some (power_on dev arg)
         | TRACK_BEGIN t \<Rightarrow> track_begin t arg
         | TRACK_END t \<Rightarrow> track_end t arg
         | ACK_OK a \<Rightarrow> Some (ack_ok a arg)
         | ACK_FAIL a \<Rightarrow> Some (ack_fail a arg)
         | UPDATE_PLAYLIST n s \<Rightarrow> Some (update_playlist_progress n s arg))"

definition outgoing_command ::
  "device \<Rightarrow> OutgoingCommand_t \<Rightarrow> sent_callback option \<Rightarrow> queue \<Rightarrow> (bool \<times> queue) option" where
  "outgoing_command dev cmd cb q =
     map_option (\<lambda>arg.
       queue_put \<lparr>data = cJSON_PrintUnformatted (JObject (base_command_fields dev (arg_json arg))),
         sequence = arg_sequence arg, max_retries = arg_max_retries arg, callback = cb\<rparr> q)
       (build dev cmd)"

section \<open>Properties\<close>

text \<open>The name, the retries and the sequence of a command.\<close>

fun command_name :: "OutgoingCommand_t \<Rightarrow> string" where
  "command_name NOW_PLAYING = ''now_playing''"
| "command_name POWER_ON = ''power_on''"
| "command_name (TRACK_BEGIN t) = ''track_begin''"
| "command_name (TRACK_END t) = ''track_end''"
| "command_name (ACK_OK a) = ''ack_ok''"
| "command_name (ACK_FAIL a) = ''ack_fail''"
| "command_name (UPDATE_PLAYLIST n s) = ''update_playlist''"

fun command_retries :: "OutgoingCommand_t \<Rightarrow> u16" where
  "command_retries POWER_ON = 15"
| "command_retries (TRACK_BEGIN t) = 50"
| "command_retries (TRACK_END t) = 50"
| "command_retries _ = 0"

fun command_sequence :: "OutgoingCommand_t \<Rightarrow> u32" where
  "command_sequence (ACK_OK (Some a)) = ack_sequence a"
| "command_sequence (ACK_FAIL (Some a)) = ack_sequence a"
| "command_sequence (UPDATE_PLAYLIST n s) = s"
| "command_sequence _ = 0"

text \<open>What the texts and numbers of a command have to be for its message to be JSON.\<close>

definition printable_track :: "Track_t \<Rightarrow> bool" where
  "printable_track t = (abs (track_id t) < 10 ^ 15 \<and>
     (case filename t of Ptr f \<Rightarrow> c_text f | NULL \<Rightarrow> True | Wild \<Rightarrow> False))"

fun printable_command :: "OutgoingCommand_t \<Rightarrow> bool" where
  "printable_command (TRACK_BEGIN t) = printable_track t"
| "printable_command (TRACK_END t) = printable_track t"
| "printable_command (ACK_OK (Some a)) = c_text (ack_message a)"
| "printable_command (ACK_FAIL (Some a)) = c_text (ack_message a)"
| "printable_command _ = True"

definition printable_device :: "device \<Rightarrow> bool" where
  "printable_device dev = (c_text (localtime_text dev) \<and> c_text (sta_ip_addr dev) \<and>
     abs (sd_bytes_free dev) < 10 ^ 15 \<and>
     (case player_name dev of None \<Rightarrow> True | Some name \<Rightarrow> c_text name \<and> length name < 315))"

lemma c_text_append [simp]: "c_text s \<Longrightarrow> c_text t \<Longrightarrow> c_text (s @ t)"
proof -
  have "utf8_text s \<Longrightarrow> utf8_text t \<Longrightarrow> utf8_text (s @ t)"
  proof (induction s rule: utf8_text.induct)
    case (2 c s)
    show ?case
    proof (cases "(of_char c :: nat) < 0x80")
      case True
      with 2 show ?thesis by (simp add: utf8_text.simps)
    next
      case False
      with 2(3) obtain u s' where u: "read_utf8 c s = Some (u, s')" "utf8_text s'"
        by (auto simp: utf8_text.simps split: option.splits)
      from read_utf8_split [OF u(1)] obtain v where v: "s = v @ s'" "\<And>x. read_utf8 c (v @ x) = Some (c # v, x)"
        by blast
      from v(2) [of "s' @ t"] have "read_utf8 c (s @ t) = Some (c # v, s' @ t)" by (simp add: v(1))
      with 2(2) [OF False u(1) refl u(2) 2(4)] False show ?thesis by (simp add: utf8_text.simps)
    qed
  qed simp
  then show "c_text s \<Longrightarrow> c_text t \<Longrightarrow> c_text (s @ t)" by (auto simp: c_text_def)
qed

lemma ascii_text: "list_all (\<lambda>c. (of_char c :: nat) < 0x80) s \<Longrightarrow> utf8_text s"
  by (induction s) (auto simp: utf8_text.simps)

lemma c_text_digits: "list_all is_digit_char s \<Longrightarrow> c_text s"
  unfolding c_text_def
  by (auto intro!: is_cstr_digits ascii_text elim!: list.pred_mono_strong simp: is_digit_char_def)

lemma c_text_show_nat [simp]: "c_text (show_nat n)"
  by (rule c_text_digits [OF show_nat_digits])

text \<open>The texts of the source.\<close>

lemma c_text_ascii: "list_all (\<lambda>c. c \<noteq> NUL \<and> (of_char c :: nat) < 0x80) s \<Longrightarrow> c_text s"
  unfolding c_text_def is_cstr_def by (auto intro!: ascii_text elim: list.pred_mono_strong)

lemma u32_digits: "abs (uint (w :: u32)) < 10 ^ 15"
  using unsigned_less [of w, where ?'a = int] by simp

lemma now_playing_printable:
  assumes "printable_device dev"
  shows "\<exists>t. now_playing_text dev = Some t \<and> c_text t"
proof -
  let ?p = "'' ('' @ show_nat (unat (player_percents dev)) @ ''%)''"
  have "length (show_nat (unat (player_percents dev))) \<le> 3"
    using unat_u8_less [of "player_percents dev"] by (intro length_show_nat_le) auto
  then have "length ?p \<le> 7" by simp
  moreover have "c_text ?p"
    by (intro c_text_append c_text_show_nat) (simp_all add: c_text_ascii)
  moreover have "c_text []" by (simp add: c_text_ascii)
  ultimately show ?thesis
    using assms
    by (auto simp: now_playing_text_def player_get_now_playing_def strncpy_def printable_device_def Let_def
        split: option.splits if_splits intro!: c_text_append)
qed

lemma c_text_sources [simp]:
  "c_text ''command''" "c_text ''message''" "c_text ''id''" "c_text ''type''" "c_text ''filename''"
  "c_text ''files_done''" "c_text ''localtime''" "c_text ''free_space''" "c_text ''ip_addr''"
  "c_text ''background''" "c_text ''advertising''" "c_text []"
  by (simp_all add: c_text_ascii)

lemma c_text_names [simp]: "c_text (sysinfo_reset_reason r)" "c_text (command_name cmd)"
  by (cases r; simp add: sysinfo_reset_reason_def c_text_ascii) (cases cmd; simp add: c_text_ascii)

lemma track_message_printable:
  assumes "printable_track t"
  shows "\<exists>m. track_message t = Some m \<and> utf8_members m"
  using assms
  by (cases "filename t") (auto simp: track_message_def cJSON_CreateString_def cJSON_AddItemToObject_def printable_track_def)

text \<open>The arguments of a command: its name first, then a printable message.\<close>

definition built :: "OutgoingCommand_t \<Rightarrow> OutgoingCommandArgument_t option \<Rightarrow> bool" where
  "built cmd r = (\<exists>arg v. r = Some arg \<and>
     arg_json arg = [(''command'', JString (command_name cmd)), (''message'', v)] \<and> utf8_json v \<and>
     arg_sequence arg = command_sequence cmd \<and> arg_max_retries arg = command_retries cmd)"

lemma ack_built:
  "case a of None \<Rightarrow> True | Some x \<Rightarrow> c_text (ack_message x) \<Longrightarrow>
   built (ACK_OK a) (Some (ack_ok a \<lparr>arg_json = [], arg_sequence = 0, arg_max_retries = 0\<rparr>))"
  "case a of None \<Rightarrow> True | Some x \<Rightarrow> c_text (ack_message x) \<Longrightarrow>
   built (ACK_FAIL a) (Some (ack_fail a \<lparr>arg_json = [], arg_sequence = 0, arg_max_retries = 0\<rparr>))"
  by (cases a; simp add: built_def ack_ok_def ack_fail_def ack_def add_to_def cJSON_AddItemToObject_def)+

lemma build_printable:
  assumes "printable_device dev" "printable_command cmd"
  shows "built cmd (build dev cmd)"
proof (cases cmd)
  case NOW_PLAYING
  from now_playing_printable [OF assms(1)] obtain t where "now_playing_text dev = Some t" "c_text t" by blast
  with NOW_PLAYING show ?thesis
    by (simp add: built_def build_def now_playing_def add_to_def cJSON_AddItemToObject_def)
next
  case (TRACK_BEGIN t)
  with track_message_printable [of t] assms(2) obtain m where "track_message t = Some m" "utf8_members m" by auto
  with TRACK_BEGIN show ?thesis
    by (simp add: built_def build_def track_begin_def add_to_def cJSON_AddItemToObject_def)
next
  case (TRACK_END t)
  with track_message_printable [of t] assms(2) obtain m where "track_message t = Some m" "utf8_members m" by auto
  with TRACK_END show ?thesis
    by (simp add: built_def build_def track_end_def add_to_def cJSON_AddItemToObject_def)
next
  case (ACK_OK a)
  with assms(2) ack_built(1) [of a] show ?thesis by (cases a) (simp_all add: build_def)
next
  case (ACK_FAIL a)
  with assms(2) ack_built(2) [of a] show ?thesis by (cases a) (simp_all add: build_def)
next
  case (UPDATE_PLAYLIST n q)
  with u32_digits [of n] show ?thesis
    by (simp add: built_def build_def update_playlist_progress_def add_to_def cJSON_AddItemToObject_def)
qed (simp add: built_def build_def power_on_def add_to_def cJSON_AddItemToObject_def)

text \<open>The message of a command, and what a receiver makes of it.\<close>

definition says :: "string \<Rightarrow> device \<Rightarrow> string \<Rightarrow> bool" where
  "says name dev text = (\<exists>v es. find_string ''command'' text = Some name \<and>
     json_events (\<lambda>_. 0) text = es @ [JSON_DONE] \<and>
     text = cJSON_PrintUnformatted (JObject [(''command'', JString name), (''message'', v),
       (''localtime'', JString (localtime_text dev)), (''free_space'', JNumber (sd_bytes_free dev)),
       (''ip_addr'', JString (sta_ip_addr dev))]))"

lemma outgoing_command_message:
  assumes "printable_device dev" "printable_command cmd"
  shows "\<exists>msg. outgoing_command dev cmd cb q = Some (queue_put msg q) \<and> says (command_name cmd) dev (data msg) \<and>
    sequence msg = command_sequence cmd \<and> max_retries msg = command_retries cmd \<and> callback msg = cb"
proof -
  from build_printable [OF assms] obtain arg v where b: "build dev cmd = Some arg"
    "arg_json arg = [(''command'', JString (command_name cmd)), (''message'', v)]" "utf8_json v"
    "arg_sequence arg = command_sequence cmd" "arg_max_retries arg = command_retries cmd"
    unfolding built_def by blast
  let ?ms = "base_command_fields dev (arg_json arg)"
  have ms: "?ms = [(''command'', JString (command_name cmd)), (''message'', v),
       (''localtime'', JString (localtime_text dev)), (''free_space'', JNumber (sd_bytes_free dev)),
       (''ip_addr'', JString (sta_ip_addr dev))]"
    by (simp add: base_command_fields_def cJSON_AddItemToObject_def b(2))
  have u: "utf8_members ?ms"
    using assms(1) b(3) by (simp add: ms printable_device_def)
  have "find_string ''command'' (cJSON_PrintUnformatted (JObject ?ms)) = Some (command_name cmd)"
    unfolding find_string_object [OF u] by (simp add: ms)
  moreover have "json_events (\<lambda>_. 0) (cJSON_PrintUnformatted (JObject ?ms)) =
      events_of (\<lambda>_. 0) (JObject ?ms) @ [JSON_DONE]"
    unfolding cJSON_PrintUnformatted_def using u by (intro json_events_value) simp
  ultimately have "says (command_name cmd) dev (cJSON_PrintUnformatted (JObject ?ms))"
    unfolding says_def by (auto simp: ms)
  with b show ?thesis
    unfolding outgoing_command_def
    by (intro exI [of _ "\<lparr>data = cJSON_PrintUnformatted (JObject ?ms), sequence = command_sequence cmd,
          max_retries = command_retries cmd, callback = cb\<rparr>"]) simp
qed


definition sample_device :: device where
  "sample_device = \<lparr>localtime_text = ''2019-10-01T12:00:00+0200'', sd_bytes_free = 1000, sta_ip_addr = ''10.0.0.2'',
     reset_reason = ESP_RST_POWERON, player_mutex = True, player_name = Some ''song.mp3'', player_percents = 7\<rparr>"

lemma printable_sample: "printable_device sample_device"
  by (simp add: printable_device_def sample_device_def c_text_ascii)


end
