(* ===== verification/System.thy ===== *)
theory System
  imports Outgoing Clock CleanupFiles Downloader CloudScheduler OfflineScheduler Files
begin

text \<open>
  The state that the commands of the server act on: the queue of messages, the settings and the time
  zone, the files of the card and its tree of directories, the states of the scheduling and downloading
  components, \<open>src/firmware/main/system/status.c\<close>, and the partition of a firmware update. The two views
  of the card serve different operations: temporary files are looked up by path, directories are
  removed in the tree.
\<close>

record ota =
  ota_image :: string
  ota_boot_new :: bool
  ota_confirmed :: bool

record system =
  sys_device :: device
  sys_queue :: queue
  sys_nvs :: nvs_state
  sys_tz :: "string option"
  sys_files :: files
  sys_card :: dnode
  sys_offline :: offline
  sys_cloud :: cloud
  sys_downloader :: "dl_ctl option"
  sys_cleanup :: cleanup_ctl
  sys_job :: "(Tempfile_t \<times> u32) option"
  sys_online :: bool
  sys_synchronizing :: bool
  sys_ota :: ota
  sys_restarted :: bool

definition status_set_online :: "bool \<Rightarrow> system \<Rightarrow> system" where
  "status_set_online arg s = s\<lparr>sys_online := arg\<rparr>"

definition status_online :: "system \<Rightarrow> bool" where
  "status_online s = sys_online s"

definition status_set_synchronizing :: "bool \<Rightarrow> system \<Rightarrow> system" where
  "status_set_synchronizing arg s = s\<lparr>sys_synchronizing := arg\<rparr>"

definition status_synchronizing :: "system \<Rightarrow> bool" where
  "status_synchronizing s = sys_synchronizing s"

text \<open>A call of \<open>outgoing_command\<close> whose answer the caller drops.\<close>

definition send :: "OutgoingCommand_t \<Rightarrow> sent_callback option \<Rightarrow> system \<Rightarrow> system option" where
  "send cmd cb s =
     map_option (\<lambda>(_, q). s\<lparr>sys_queue := q\<rparr>) (outgoing_command (sys_device s) cmd cb (sys_queue s))"

definition send_ack :: "bool \<Rightarrow> u32 \<Rightarrow> string \<Rightarrow> sent_callback option \<Rightarrow> system \<Rightarrow> system option" where
  "send_ack ok seq message cb s =
     (let a = Some \<lparr>ack_message = message, ack_sequence = seq\<rparr>
      in send (if ok then ACK_OK a else ACK_FAIL a) cb s)"

text \<open>The stops of the other tasks, whose answers are dropped too.\<close>

definition downloader_stopped :: "system \<Rightarrow> system" where
  "downloader_stopped s = s\<lparr>sys_downloader := snd (cloud_downloader_stop (sys_downloader s))\<rparr>"

definition cleanup_stopped :: "system \<Rightarrow> system" where
  "cleanup_stopped s = s\<lparr>sys_cleanup := snd (cloud_cleanup_files_stop (sys_cleanup s))\<rparr>"

definition cloud_stopped :: "system \<Rightarrow> system" where
  "cloud_stopped s = s\<lparr>sys_cloud := snd (cloud_scheduler_deinit (sys_cloud s))\<rparr>"

definition offline_stopped :: "system \<Rightarrow> system" where
  "offline_stopped s = s\<lparr>sys_offline := offline_scheduler_deinit (sys_offline s)\<rparr>"

lemma sys_simps [simp]:
  "sys_queue (downloader_stopped s) = sys_queue s" "sys_queue (cleanup_stopped s) = sys_queue s"
  "sys_queue (cloud_stopped s) = sys_queue s" "sys_queue (offline_stopped s) = sys_queue s"
  "sys_device (downloader_stopped s) = sys_device s" "sys_device (cleanup_stopped s) = sys_device s"
  "sys_device (cloud_stopped s) = sys_device s" "sys_device (offline_stopped s) = sys_device s"
  "sys_nvs (downloader_stopped s) = sys_nvs s" "sys_nvs (cleanup_stopped s) = sys_nvs s"
  "sys_nvs (cloud_stopped s) = sys_nvs s" "sys_nvs (offline_stopped s) = sys_nvs s"
  "sys_card (downloader_stopped s) = sys_card s" "sys_card (cleanup_stopped s) = sys_card s"
  "sys_card (cloud_stopped s) = sys_card s" "sys_card (offline_stopped s) = sys_card s"
  "sys_files (downloader_stopped s) = sys_files s" "sys_files (cleanup_stopped s) = sys_files s"
  "sys_files (cloud_stopped s) = sys_files s" "sys_files (offline_stopped s) = sys_files s"
  "sys_ota (downloader_stopped s) = sys_ota s" "sys_ota (cleanup_stopped s) = sys_ota s"
  "sys_restarted (downloader_stopped s) = sys_restarted s" "sys_restarted (cleanup_stopped s) = sys_restarted s"
  "sys_restarted (cloud_stopped s) = sys_restarted s" "sys_restarted (offline_stopped s) = sys_restarted s"
  by (simp_all add: downloader_stopped_def cleanup_stopped_def cloud_stopped_def offline_stopped_def)

text \<open>An acknowledgement that finds a place.\<close>

lemma send_ack_queued:
  assumes "printable_device (sys_device s)" "c_text message" "length (sys_queue s) < QUEUE_LENGTH"
  shows "\<exists>msg. send_ack ok seq message cb s = Some (s\<lparr>sys_queue := sys_queue s @ [msg]\<rparr>) \<and>
    says (if ok then ''ack_ok'' else ''ack_fail'') (sys_device s) (data msg) \<and> sequence msg = seq \<and>
    max_retries msg = 0 \<and> QueueMessage_t.callback msg = cb"
proof -
  let ?a = "Some \<lparr>ack_message = message, ack_sequence = seq\<rparr>"
  have "printable_command (ACK_OK ?a)" "printable_command (ACK_FAIL ?a)" using assms(2) by simp_all
  from outgoing_command_message [OF assms(1) this(1), of cb "sys_queue s"]
    outgoing_command_message [OF assms(1) this(2), of cb "sys_queue s"] assms(3)
  show ?thesis by (cases ok) (auto simp: send_ack_def send_def queue_put_def Let_def)
qed

text \<open>A device that has just started, with an empty card.\<close>

definition sample_system :: system where
  "sample_system = \<lparr>sys_device = sample_device, sys_queue = [], sys_nvs = fresh_nvs, sys_tz = None,
     sys_files = Map.empty, sys_card = DDir (Some [(''song.mp3'', DReg)]), sys_offline = started,
     sys_cloud = idle_cloud, sys_downloader = None,
     sys_cleanup = \<lparr>cleanup_ctl.event_group = None, thread_handle = False, cleanup_tmr = None\<rparr>, sys_job = None,
     sys_online = False, sys_synchronizing = False,
     sys_ota = \<lparr>ota_image = [], ota_boot_new = False, ota_confirmed = False\<rparr>, sys_restarted = False\<rparr>"

lemma sample_system_simps [simp]:
  "sys_queue sample_system = []" "sys_device sample_system = sample_device" "sys_nvs sample_system = fresh_nvs"
  "sys_ota sample_system = \<lparr>ota_image = [], ota_boot_new = False, ota_confirmed = False\<rparr>"
  "sys_restarted sample_system = False" "sys_card sample_system = DDir (Some [(''song.mp3'', DReg)])"
  "sys_files sample_system = Map.empty"
  by (simp_all add: sample_system_def)

lemma healthy_fresh: "healthy fresh_nvs"
  by (simp add: healthy_def fresh_nvs_def)

end
