(* ===== verification/FirmwareUpdate.thy ===== *)
theory FirmwareUpdate
  imports System
begin

text \<open>
  \<open>src/firmware/main/system/firmware_update.c\<close>: an update over the air, the restart into it, and its
  acknowledgement after the restart. The libraries of ESP-IDF are seen through the outcomes of their
  calls: for each piece of the body the status of the response at that time and whether the partition
  takes it. The image is what has been written to the partition since \<open>esp_ota_begin\<close>.
\<close>

record ota_outcomes =
  has_partition :: bool
  begin_ok :: bool
  pieces :: "(int \<times> string \<times> bool) list"
  performed :: bool
  final_status :: int
  end_ok :: bool
  set_boot_ok :: bool

text \<open>The handler's \<open>HTTP_EVENT_ON_DATA\<close>: the flag of the context and the image.\<close>

definition http_event_handle :: "int \<times> string \<times> bool \<Rightarrow> bool \<times> string \<Rightarrow> bool \<times> string" where
  "http_event_handle evt ctx =
     (case evt of (status, bytes, write_ok) \<Rightarrow>
        if 300 \<le> status \<and> status < 599 then ctx
        else if write_ok then (fst ctx, snd ctx @ bytes)
        else (False, snd ctx))"

definition ota_start :: "ota_outcomes \<Rightarrow> ota \<Rightarrow> bool \<times> ota" where
  "ota_start w o1 =
     (if \<not> has_partition w then (False, o1)
      else if \<not> begin_ok w then (False, o1)
      else
        (case fold http_event_handle (pieces w) (True, []) of (ctx_ok, img) \<Rightarrow>
           let o2 = o1\<lparr>ota_image := img\<rparr>
           in if \<not> performed w then (False, o2)
              else if \<not> (200 \<le> final_status w \<and> final_status w < 300 \<and> ctx_ok) then (False, o2)
              else if \<not> end_ok w then (False, o2)
              else if \<not> set_boot_ok w then (False, o2)
              else (True, o2\<lparr>ota_boot_new := True\<rparr>)))"

text \<open>
  The answer is None when the device restarts instead. The comparison of the Boolean \<open>result\<close> with
  \<open>ESP_OK\<close>, which is 0, is that of the source.
\<close>

definition firmware_update_start ::
  "ota_outcomes \<Rightarrow> string \<Rightarrow> u32 \<Rightarrow> system \<Rightarrow> (bool option \<times> system) option" where
  "firmware_update_start w url seq s0 =
     (let s1 = cleanup_stopped (downloader_stopped s0)
      in case ota_start w (sys_ota s1) of (result, o2) \<Rightarrow>
           (let s2 = s1\<lparr>sys_ota := o2\<rparr>
            in if result then
                 (case nvs_save_uint32 ''fw_upgdare_seq'' seq (sys_nvs s2) of
                    None \<Rightarrow> None
                  | Some (_, n1) \<Rightarrow>
                      (case config_save_disable_tls_certs_verification False n1 of
                         None \<Rightarrow> None
                       | Some (_, n2) \<Rightarrow> Some (None, s2\<lparr>sys_nvs := n2, sys_restarted := True\<rparr>)))
               else Some (Some (of_bool result = (0 :: nat)), s2)))"

text \<open>
  After the restart. Marking the running image as invalid rolls back and restarts the device, unless the
  library refuses it (\<open>rollback_fails\<close>).
\<close>

definition firmware_update_confirm :: "bool \<Rightarrow> bool \<Rightarrow> string \<Rightarrow> system \<Rightarrow> system option" where
  "firmware_update_confirm rollback_fails success version s =
     (if \<not> success \<and> \<not> rollback_fails then Some (s\<lparr>sys_restarted := True\<rparr>)
      else
        (let s1 = (if success then s\<lparr>sys_ota := (sys_ota s)\<lparr>ota_confirmed := True\<rparr>\<rparr> else s);
             message = (if success then version else ''firmware update failed, rolling back'')
         in case nvs_read_uint32 ''fw_upgdare_seq'' (sys_nvs s1) of
              None \<Rightarrow> None
            | Some (r, n1) \<Rightarrow>
                (let s2 = s1\<lparr>sys_nvs := n1\<rparr>
                 in case r of
                      None \<Rightarrow> Some s2
                    | Some seq \<Rightarrow>
                        if seq = 0 then Some s2
                        else send_ack success seq message (Some Remove_Nvs_Sequence_Callback) s2)))"

definition remove_nvs_sequence_callback :: "bool \<Rightarrow> system \<Rightarrow> system option" where
  "remove_nvs_sequence_callback ok s =
     (if \<not> ok then Some s
      else map_option (\<lambda>(_, n). s\<lparr>sys_nvs := n\<rparr>) (nvs_save_uint32 ''fw_upgdare_seq'' 0 (sys_nvs s)))"

section \<open>Properties\<close>

text \<open>A piece that goes to the partition.\<close>

definition taken :: "int \<times> string \<times> bool \<Rightarrow> bool" where
  "taken evt = (\<not> (300 \<le> fst evt \<and> fst evt < 599))"

definition all_written :: "ota_outcomes \<Rightarrow> bool" where
  "all_written w = list_all (\<lambda>evt. taken evt \<longrightarrow> snd (snd evt)) (pieces w)"

definition body :: "ota_outcomes \<Rightarrow> string" where
  "body w = concat (map (\<lambda>evt. fst (snd evt)) (filter taken (pieces w)))"

lemma fold_pieces:
  "fst (fold http_event_handle evts (ok, img)) = (ok \<and> list_all (\<lambda>evt. taken evt \<longrightarrow> snd (snd evt)) evts)"
  "list_all (\<lambda>evt. taken evt \<longrightarrow> snd (snd evt)) evts \<Longrightarrow>
   fold http_event_handle evts (ok, img) =
     (ok, img @ concat (map (\<lambda>evt. fst (snd evt)) (filter taken evts)))"
proof (induction evts arbitrary: ok img)
  case (Cons evt evts)
  obtain st b w where evt: "evt = (st, b, w)" by (metis prod_cases3)
  {
    case 1
    show ?case
      using Cons.IH(1) by (auto simp: evt http_event_handle_def taken_def)
  next
    case 2
    with Cons.IH(2) show ?case
      by (auto simp: evt http_event_handle_def taken_def)
  }
qed simp_all

lemma ota_start_cases:
  "fst (ota_start w o1) =
     (has_partition w \<and> begin_ok w \<and> performed w \<and> 200 \<le> final_status w \<and> final_status w < 300 \<and>
      all_written w \<and> end_ok w \<and> set_boot_ok w)"
  "fst (ota_start w o1) \<Longrightarrow> snd (ota_start w o1) = o1\<lparr>ota_image := body w, ota_boot_new := True\<rparr>"
  "\<not> fst (ota_start w o1) \<Longrightarrow> ota_boot_new (snd (ota_start w o1)) = ota_boot_new o1"
  using fold_pieces [of "pieces w" True "[]"]
  by (auto simp: ota_start_def all_written_def body_def Let_def split: prod.split)

text \<open>
  C17: The device boots a new image only when the update was complete: a partition was found and opened,
  the download ended with a status of success, every piece that was not part of a redirect or an error
  page was written, and the library accepted the image. Then the image is exactly these pieces in order;
  in every other case the boot partition stays what it was.
\<close>

theorem ota_boots_complete_image:
  "\<exists>img. ota_start w o1 =
     (if has_partition w \<and> begin_ok w \<and> performed w \<and> 200 \<le> final_status w \<and> final_status w < 300 \<and>
         all_written w \<and> end_ok w \<and> set_boot_ok w
      then (True, o1\<lparr>ota_image := body w, ota_boot_new := True\<rparr>)
      else (False, o1\<lparr>ota_image := img\<rparr>))"
proof (cases "fst (ota_start w o1)")
  case True
  with ota_start_cases(1,2) [of w o1] show ?thesis
    by (intro exI [of _ "[]"]) (metis prod.collapse)
next
  case False
  then have "\<exists>img. ota_start w o1 = (False, o1\<lparr>ota_image := img\<rparr>)"
    by (auto simp: ota_start_def Let_def split: prod.splits if_splits intro: exI [of _ "ota_image o1"])
  with False ota_start_cases(1) [of w o1] show ?thesis by auto
qed

definition complete_update :: ota_outcomes where
  "complete_update = \<lparr>has_partition = True, begin_ok = True, pieces = [(302, ''moved'', True), (200, ''fw'', True)],
     performed = True, final_status = 200, end_ok = True, set_boot_ok = True\<rparr>"

definition broken_update :: ota_outcomes where
  "broken_update = complete_update\<lparr>performed := False\<rparr>"

lemma sample_updates: "fst (ota_start complete_update o1)" "\<not> fst (ota_start broken_update o1)"
  by (simp_all add: ota_start_cases(1) complete_update_def broken_update_def all_written_def taken_def)

text \<open>
  The answer of an update that did not happen is success: the device restarts when the update
  worked, and otherwise \<open>firmware_update_start\<close> answers true, in every state.
\<close>

theorem failed_update_answers_true:
  assumes "\<not> fst (ota_start w (sys_ota s))"
  shows "\<exists>s'. firmware_update_start w url seq s = Some (Some True, s') \<and> \<not> fst (ota_start w (sys_ota s)) \<and>
    sys_restarted s' = sys_restarted s \<and> sys_nvs s' = sys_nvs s"
  using assms by (auto simp: firmware_update_start_def Let_def split: prod.split)

theorem failed_update_answers_true_witness:
  "\<exists>s'. firmware_update_start broken_update ''u'' 7 sample_system = Some (Some True, s')"
  using failed_update_answers_true [of broken_update sample_system "''u''" 7] sample_updates(2) by auto

section \<open>Across the restart\<close>

lemma update_stores_sequence:
  assumes "healthy (sys_nvs s)" "fst (ota_start w (sys_ota s))"
  shows "\<exists>s'. firmware_update_start w url seq s = Some (None, s') \<and> sys_restarted s' \<and> healthy (sys_nvs s') \<and>
    items (sys_nvs s') ''fw_upgdare_seq'' = Some (NvsU32 seq)"
proof -
  obtain n1 where n1: "nvs_save_uint32 ''fw_upgdare_seq'' seq (sys_nvs s) = Some (True, n1)" "healthy n1"
    "items n1 = (items (sys_nvs s))(''fw_upgdare_seq'' \<mapsto> NvsU32 seq)"
    using nvs_save_healthy(1) [OF assms(1)] by blast
  obtain n2 where n2: "nvs_save_uint8 ''nocerts'' 0 n1 = Some (True, n2)" "healthy n2"
    "items n2 = (items n1)(''nocerts'' \<mapsto> NvsU8 0)"
    using nvs_save_healthy(2) [OF n1(2)] by blast
  from assms(2) n1 n2 show ?thesis
    by (auto simp: firmware_update_start_def config_save_disable_tls_certs_verification_def Let_def split: prod.split)
qed

lemma confirm_with_sequence:
  assumes "healthy (sys_nvs t)" "items (sys_nvs t) ''fw_upgdare_seq'' = Some (NvsU32 seq)" "seq \<noteq> 0"
    and "printable_device (sys_device t)" "c_text version" "length (sys_queue t) < QUEUE_LENGTH"
  shows "\<exists>t' msg. firmware_update_confirm rf True version t = Some t' \<and> sys_queue t' = sys_queue t @ [msg] \<and>
    says ''ack_ok'' (sys_device t) (data msg) \<and> sequence msg = seq \<and>
    QueueMessage_t.callback msg = Some Remove_Nvs_Sequence_Callback \<and> ota_confirmed (sys_ota t') \<and>
    healthy (sys_nvs t') \<and> items (sys_nvs t') = items (sys_nvs t)"
proof -
  obtain n1 where n1: "nvs_read_uint32 ''fw_upgdare_seq'' (sys_nvs t) = Some (Some seq, n1)" "healthy n1"
    "items n1 = items (sys_nvs t)"
    using nvs_read_healthy [OF assms(1), of "''fw_upgdare_seq''"] assms(2) by auto
  let ?t = "t\<lparr>sys_ota := (sys_ota t)\<lparr>ota_confirmed := True\<rparr>, sys_nvs := n1\<rparr>"
  from send_ack_queued [of ?t version True seq "Some Remove_Nvs_Sequence_Callback"] assms(4-6)
  obtain msg where "send_ack True seq version (Some Remove_Nvs_Sequence_Callback) ?t =
      Some (?t\<lparr>sys_queue := sys_queue t @ [msg]\<rparr>)" "says ''ack_ok'' (sys_device t) (data msg)"
    "sequence msg = seq" "QueueMessage_t.callback msg = Some Remove_Nvs_Sequence_Callback"
    by auto
  with n1 assms(3) show ?thesis by (auto simp: firmware_update_confirm_def)
qed

lemma confirm_without_sequence:
  assumes "healthy (sys_nvs t)" "items (sys_nvs t) ''fw_upgdare_seq'' = Some (NvsU32 0)"
  shows "\<exists>t'. firmware_update_confirm rf True version t = Some t' \<and> sys_queue t' = sys_queue t"
proof -
  obtain n1 where "nvs_read_uint32 ''fw_upgdare_seq'' (sys_nvs t) = Some (Some 0, n1)"
    using nvs_read_healthy [OF assms(1), of "''fw_upgdare_seq''"] assms(2) by auto
  then show ?thesis by (auto simp: firmware_update_confirm_def)
qed

lemma start_after_update:
  assumes "healthy (sys_nvs t1)" "items (sys_nvs t1) ''fw_upgdare_seq'' = Some (NvsU32 seq)" "seq \<noteq> 0" "c_text version"
    and t: "printable_device (sys_device t1)" "length (sys_queue t1) < QUEUE_LENGTH"
      "printable_device (sys_device t2)" "length (sys_queue t2) < QUEUE_LENGTH"
  shows "\<exists>t1' msg failed acked. firmware_update_confirm rf True version t1 = Some t1' \<and>
    sys_queue t1' = sys_queue t1 @ [msg] \<and> says ''ack_ok'' (sys_device t1) (data msg) \<and> sequence msg = seq \<and>
    QueueMessage_t.callback msg = Some Remove_Nvs_Sequence_Callback \<and>
    remove_nvs_sequence_callback False t1' = Some failed \<and>
    remove_nvs_sequence_callback True t1' = Some acked \<and>
    (sys_nvs t2 = rebooted (sys_nvs failed) \<longrightarrow>
       (\<exists>t2' msg'. firmware_update_confirm rf True version t2 = Some t2' \<and>
          sys_queue t2' = sys_queue t2 @ [msg'] \<and> sequence msg' = seq)) \<and>
    (sys_nvs t2 = rebooted (sys_nvs acked) \<longrightarrow>
       (\<exists>t2'. firmware_update_confirm rf True version t2 = Some t2' \<and> sys_queue t2' = sys_queue t2))"
proof -
  from confirm_with_sequence [OF assms(1-3) t(1) assms(4) t(2), of rf] obtain t1' msg where
    c: "firmware_update_confirm rf True version t1 = Some t1'" "sys_queue t1' = sys_queue t1 @ [msg]"
    "says ''ack_ok'' (sys_device t1) (data msg)" "sequence msg = seq"
    "QueueMessage_t.callback msg = Some Remove_Nvs_Sequence_Callback" "healthy (sys_nvs t1')"
    "items (sys_nvs t1') = items (sys_nvs t1)" by blast
  from nvs_save_healthy(1) [OF c(6), of "''fw_upgdare_seq''" 0] obtain n2 where
    n2: "nvs_save_uint32 ''fw_upgdare_seq'' 0 (sys_nvs t1') = Some (True, n2)" "healthy n2"
    "items n2 ''fw_upgdare_seq'' = Some (NvsU32 0)" by auto
  have failed: "\<exists>t2' msg'. firmware_update_confirm rf True version t2 = Some t2' \<and>
      sys_queue t2' = sys_queue t2 @ [msg'] \<and> sequence msg' = seq" if "sys_nvs t2 = rebooted (sys_nvs t1')"
  proof -
    have "healthy (sys_nvs t2)" "items (sys_nvs t2) ''fw_upgdare_seq'' = Some (NvsU32 seq)"
      using that c(6,7) assms(2) by simp_all
    from confirm_with_sequence [OF this assms(3) t(3) assms(4) t(4), of rf] show ?thesis by blast
  qed
  let ?acked = "t1'\<lparr>sys_nvs := n2\<rparr>"
  have acked: "\<exists>t2'. firmware_update_confirm rf True version t2 = Some t2' \<and> sys_queue t2' = sys_queue t2"
    if "sys_nvs t2 = rebooted (sys_nvs ?acked)"
    using that n2(2,3) by (intro confirm_without_sequence) simp_all
  have r: "remove_nvs_sequence_callback False t1' = Some t1'" "remove_nvs_sequence_callback True t1' = Some ?acked"
    using n2(1) by (simp_all add: remove_nvs_sequence_callback_def)
  show ?thesis using c(1-5) r failed acked by blast
qed

text \<open>
  C23: An update is acknowledged until the server has it and not again: after a complete update the
  device restarts, and the next start, which shares only the settings partition with the one before,
  queues \<open>ack_ok\<close> with the sequence of the update command; while its callback reports failure the start
  after that would queue it again, and once it reports success no later start does.
\<close>

theorem update_acknowledged_once:
  assumes "healthy (sys_nvs s)" "fst (ota_start w (sys_ota s))" "seq \<noteq> 0"
    and "\<And>t. t \<in> {t1, t2} \<Longrightarrow> printable_device (sys_device t) \<and> length (sys_queue t) < QUEUE_LENGTH"
    and "c_text version"
  shows "\<exists>s'. firmware_update_start w url seq s = Some (None, s') \<and> sys_restarted s' \<and>
    (sys_nvs t1 = rebooted (sys_nvs s') \<longrightarrow>
      (\<exists>t1' msg failed acked. firmware_update_confirm rf True version t1 = Some t1' \<and>
         sys_queue t1' = sys_queue t1 @ [msg] \<and> says ''ack_ok'' (sys_device t1) (data msg) \<and> sequence msg = seq \<and>
         QueueMessage_t.callback msg = Some Remove_Nvs_Sequence_Callback \<and>
         remove_nvs_sequence_callback False t1' = Some failed \<and>
         remove_nvs_sequence_callback True t1' = Some acked \<and>
         (sys_nvs t2 = rebooted (sys_nvs failed) \<longrightarrow>
            (\<exists>t2' msg'. firmware_update_confirm rf True version t2 = Some t2' \<and>
               sys_queue t2' = sys_queue t2 @ [msg'] \<and> sequence msg' = seq)) \<and>
         (sys_nvs t2 = rebooted (sys_nvs acked) \<longrightarrow>
            (\<exists>t2'. firmware_update_confirm rf True version t2 = Some t2' \<and> sys_queue t2' = sys_queue t2))))"
proof -
  from update_stores_sequence [OF assms(1,2)] obtain s' where
    s': "firmware_update_start w url seq s = Some (None, s')" "sys_restarted s'" "healthy (sys_nvs s')"
    "items (sys_nvs s') ''fw_upgdare_seq'' = Some (NvsU32 seq)" by blast
  have t: "printable_device (sys_device t1)" "length (sys_queue t1) < QUEUE_LENGTH"
    "printable_device (sys_device t2)" "length (sys_queue t2) < QUEUE_LENGTH"
    using assms(4) by blast+
  show ?thesis
    by (rule exI [of _ s'], intro conjI s'(1,2) impI, rule start_after_update [OF _ _ assms(3,5) t]) (simp_all add: s'(3,4))
qed

theorem update_acknowledged_once_witness:
  "\<exists>s'. firmware_update_start complete_update ''u'' 7 sample_system = Some (None, s') \<and> sys_restarted s'"
proof -
  have "printable_device (sys_device t) \<and> length (sys_queue t) < QUEUE_LENGTH"
    if "t \<in> {sample_system, sample_system}" for t
    using that by (simp add: printable_sample QUEUE_LENGTH_def)
  from update_acknowledged_once [of sample_system complete_update 7 sample_system sample_system "''1.0''" "''u''" False,
      OF _ _ _ this]
  show ?thesis using sample_updates(1) healthy_fresh by (auto simp: c_text_ascii)
qed

end
