(* ===== verification/Incoming.thy ===== *)
theory Incoming
  imports FirmwareUpdate Url
begin

text \<open>
  \<open>src/firmware/main/remote/commands/incoming.c\<close> and its six handlers: what the device does with the
  answer of the server. The outcomes of creating files, tasks and event groups, of the update's download,
  and the table of time zones come as a record. A handler is None where the firmware stops; its answer is
  None when the device restarts instead of answering.
\<close>

record surroundings =
  zones :: string
  update_outcomes :: ota_outcomes
  tmp_dir_ok :: bool
  tmp_malloc_ok :: bool
  tmp_open_ok :: bool
  tmp_number :: u32
  dst_open_ok :: bool
  dl_group_ok :: bool
  dl_task_ok :: bool

type_synonym handler_result = "(bool option \<times> system) option"

abbreviation answer :: "bool \<Rightarrow> system option \<Rightarrow> handler_result" where
  "answer ok r \<equiv> map_option (\<lambda>s. (Some ok, s)) r"

section \<open>Settings\<close>

text \<open>The look-ups of the handlers, each a copy of the loop of \<open>JsonKey\<close> with a key of its own.\<close>

definition parse_json_timezone :: "string \<Rightarrow> string option" where
  [simp]: "parse_json_timezone text_of = find_string ''time_zone_tzinfo'' text_of"

definition parse_json_distribution_url :: "string \<Rightarrow> string option" where
  [simp]: "parse_json_distribution_url text_of = find_string ''distribution_url'' text_of"

definition update_setting :: "surroundings \<Rightarrow> string \<Rightarrow> u32 \<Rightarrow> system \<Rightarrow> handler_result" where
  "update_setting env text_of seq s =
     (case parse_json_timezone text_of of
        Some tz' \<Rightarrow>
          if length tz' > 1 then
            (case clock_set_timezone (zones env) tz' (sys_tz s) of
               (True, v) \<Rightarrow>
                 (case config_save_timezone tz' (sys_nvs s) of
                    None \<Rightarrow> None
                  | Some (_, n) \<Rightarrow>
                      answer True (send_ack True seq ''timezone set successfully'' None
                        (s\<lparr>sys_tz := v, sys_nvs := n\<rparr>)))
             | (False, _) \<Rightarrow> answer True (send_ack False seq [] None s))
          else answer True (send_ack True seq [] None s)
      | None \<Rightarrow> answer True (send_ack True seq [] None s))"

section \<open>Playlists\<close>

text \<open>The copy of the text from its second brace on, up to the brace that closes it; \<open>nesting\<close> is an \<open>int8_t\<close>.\<close>

fun extract_from :: "bool \<Rightarrow> bool \<Rightarrow> u8 \<Rightarrow> string \<Rightarrow> string" where
  "extract_from found_first found_second nesting [] = []"
| "extract_from found_first found_second nesting (b # bs) =
     (if found_second then
        (let n = (if b = CHR ''{'' then nesting + 1 else if b = CHR ''}'' then nesting - 1 else nesting)
         in if sint n < 0 then ''}'' else b # extract_from found_first True n bs)
      else if b = CHR ''{'' then
        (if found_first then CHR ''{'' # extract_from found_first True nesting bs
         else extract_from True found_second nesting bs)
      else extract_from found_first found_second nesting bs)"

text \<open>
  A file is read to its end, a string up to its NUL. The source file is opened before the destination is
  removed.
\<close>

definition extract_playlist ::
  "bool \<Rightarrow> string option \<Rightarrow> string option \<Rightarrow> string \<Rightarrow> files \<Rightarrow> bool \<times> files" where
  "extract_playlist can_open src_file_path src_string dst_file_path disk =
     (case (case src_file_path of
              Some p \<Rightarrow> disk p
            | None \<Rightarrow> map_option cstr src_string) of
        None \<Rightarrow> (False, disk)
      | Some text_of \<Rightarrow>
          (let disk1 = snd (remove_file dst_file_path disk)
           in if \<not> can_open then (False, disk1)
              else (True, disk1(dst_file_path \<mapsto> extract_from False False 0 text_of))))"

text \<open>The data is given, or the file, by its path; with neither the empty temporary file is the playlist.\<close>

definition update_playlist ::
  "surroundings \<Rightarrow> string option \<Rightarrow> string option \<Rightarrow> u32 \<Rightarrow> system \<Rightarrow> handler_result" where
  "update_playlist env arg_data arg_file seq s =
     (case tempfile_create (tmp_dir_ok env) (tmp_malloc_ok env) (tmp_open_ok env) (tmp_number env) (sys_files s) of
        None \<Rightarrow> None
      | Some (None, fs1) \<Rightarrow> Some (Some False, s\<lparr>sys_files := fs1\<rparr>)
      | Some (Some playlist, fs1) \<Rightarrow>
          (case (tempfile_close (Some playlist), tf_path playlist) of
             (Some (_, Some closed), Ptr tmp_path) \<Rightarrow>
               (case (case arg_data of
                        Some d \<Rightarrow> extract_playlist (dst_open_ok env) None (Some d) tmp_path fs1
                      | None \<Rightarrow>
                          (case arg_file of
                             Some f \<Rightarrow> extract_playlist (dst_open_ok env) (Some f) None tmp_path fs1
                           | None \<Rightarrow> (True, fs1))) of
                  (False, fs2) \<Rightarrow> Some (Some False, s\<lparr>sys_files := fs2\<rparr>)
                | (True, fs2) \<Rightarrow>
                    (case cloud_downloader_start (dl_group_ok env) (dl_task_ok env) (sys_downloader s) of
                       (True, g) \<Rightarrow>
                         Some (Some True, s\<lparr>sys_files := fs2, sys_downloader := g, sys_job := Some (closed, seq)\<rparr>)
                     | (False, g) \<Rightarrow>
                         answer False (send_ack False seq ''cannot start playlist download'' None
                           (s\<lparr>sys_files := fs2, sys_downloader := g\<rparr>))))
           | _ \<Rightarrow> None))"

section \<open>Software\<close>

definition update_software :: "surroundings \<Rightarrow> string \<Rightarrow> u32 \<Rightarrow> system \<Rightarrow> handler_result" where
  "update_software env text_of seq s =
     (case parse_json_distribution_url text_of of
        None \<Rightarrow> Some (Some False, s)
      | Some distribution_url \<Rightarrow>
          if length distribution_url < 2 then Some (Some False, s)
          else
            (case url_parse distribution_url of
               None \<Rightarrow> Some (Some False, s)
             | Some parsed \<Rightarrow>
                 if length (host parsed) > 1 then
                   firmware_update_start (update_outcomes env) distribution_url seq s
                 else
                   (case config_server_url (sys_nvs s) of
                      None \<Rightarrow> None
                    | Some (server, n) \<Rightarrow>
                        firmware_update_start (update_outcomes env) (server @ distribution_url) seq
                          (s\<lparr>sys_nvs := n\<rparr>))))"

section \<open>Deletions and restart\<close>

text \<open>The directory at a path of the tree; a name that is not there cannot be opened.\<close>

fun remove_at :: "string list \<Rightarrow> dnode \<Rightarrow> bool \<times> dnode" where
  "remove_at [] d = remove_directory d"
| "remove_at (n # ns) (DDir (Some es)) =
     (case map_of es n of
        None \<Rightarrow> (False, DDir (Some es))
      | Some d \<Rightarrow>
          (case remove_at ns d of
             (ok, d') \<Rightarrow> (ok, DDir (Some (map (\<lambda>(m, e). if m = n then (m, d') else (m, e)) es)))))"
| "remove_at (n # ns) d = (False, d)"

definition delete_all_file :: "u32 \<Rightarrow> system \<Rightarrow> handler_result" where
  "delete_all_file seq s0 =
     (let s = cleanup_stopped (cloud_stopped (downloader_stopped (offline_stopped s0)))
      in case remove_at [] (sys_card s) of
           (ok, d) \<Rightarrow> answer True (send_ack ok seq ''delete all files complete'' None (s\<lparr>sys_card := d\<rparr>)))"

definition delete_playlist :: "u32 \<Rightarrow> system \<Rightarrow> handler_result" where
  "delete_playlist seq s0 =
     (let s = cleanup_stopped (cloud_stopped (downloader_stopped s0))
      in case remove_at [''cloud'', ''mediafiles''] (sys_card s) of
           (ok, d) \<Rightarrow> answer True (send_ack ok seq ''delete playlist complete'' None (s\<lparr>sys_card := d\<rparr>)))"

definition reboot :: "u32 \<Rightarrow> system \<Rightarrow> handler_result" where
  "reboot seq s = answer True (send_ack True seq ''rebooting...'' (Some Reboot_Callback) s)"

text \<open>The callback of \<open>reboot.c\<close> waits and restarts, whatever it is told.\<close>

definition sent_callback :: "bool \<Rightarrow> system \<Rightarrow> system" where
  "sent_callback ok s = s\<lparr>sys_restarted := True\<rparr>"

section \<open>Commands\<close>

text \<open>\<open>text\<close> is what the parser reads, and of it \<open>data\<close> or \<open>datafile\<close> are what a handler sees.\<close>

definition execute ::
  "surroundings \<Rightarrow> string \<Rightarrow> string \<Rightarrow> string option \<Rightarrow> string option \<Rightarrow> u32 \<Rightarrow> system \<Rightarrow> handler_result" where
  "execute env command text_of arg_data arg_file seq s =
     (if command = ''update_setting'' then update_setting env text_of seq s
      else if command = ''update_playlist'' then update_playlist env arg_data arg_file seq s
      else if command = ''update_software'' then update_software env text_of seq s
      else if command = ''delete_all_file'' then delete_all_file seq s
      else if command = ''delete_playlist'' then delete_playlist seq s
      else if command = ''reboot'' then reboot seq s
      else Some (Some False, s))"

text \<open>The removal of the temporary file at the end; it does not happen when the device restarts.\<close>

definition and_remove :: "Tempfile_t option \<Rightarrow> handler_result \<Rightarrow> handler_result" where
  "and_remove tf r =
     (case r of
        Some (Some ok, s) \<Rightarrow>
          map_option (\<lambda>(_, fs). (Some ok, s\<lparr>sys_files := fs\<rparr>)) (tempfile_remove tf (sys_files s))
      | _ \<Rightarrow> r)"

text \<open>
  With a file that had been opened once, the data is in it, and None stands for a file that cannot be
  opened again, through whose null stream the parser would read.
\<close>

definition incoming_command ::
  "surroundings \<Rightarrow> string \<Rightarrow> Tempfile_t option \<Rightarrow> u32 \<Rightarrow> system \<Rightarrow> handler_result" where
  "incoming_command env dat datafile seq s =
     (case datafile of
        Some tf \<Rightarrow>
          if tf_file tf \<noteq> NULL then
            (case tempfile_open True ''r'' datafile (sys_files s) of
               Some (True, Some tf', fs1) \<Rightarrow>
                 (case tf_path tf' of
                    Ptr tmp_path \<Rightarrow>
                      (case fs1 tmp_path of
                         None \<Rightarrow> None
                       | Some text_of \<Rightarrow>
                           and_remove (Some tf')
                             (case find_string ''command'' text_of of
                                None \<Rightarrow> Some (Some False, s\<lparr>sys_files := fs1\<rparr>)
                              | Some command \<Rightarrow>
                                  execute env command text_of None (Some tmp_path) seq (s\<lparr>sys_files := fs1\<rparr>)))
                  | _ \<Rightarrow> None)
             | _ \<Rightarrow> None)
          else if dat \<noteq> ''{}'' then
            (case find_string ''command'' dat of
               None \<Rightarrow> Some (Some False, s)
             | Some command \<Rightarrow> execute env command dat (Some dat) None seq s)
          else Some (Some False, s)
      | None \<Rightarrow>
          if dat \<noteq> ''{}'' then
            (case find_string ''command'' dat of
               None \<Rightarrow> Some (Some False, s)
             | Some command \<Rightarrow> execute env command dat (Some dat) None seq s)
          else Some (Some False, s))"

end
