(* ===== verification/IncomingProps.thy ===== *)
theory IncomingProps
  imports Incoming PlaylistText
begin

text \<open>
  What the handlers of the theory Incoming do: which part of a message becomes the playlist, what a new
  time zone leaves behind, what a deletion stops and removes, and which messages change nothing.
\<close>

section \<open>Braces\<close>

text \<open>The nesting after a character, and texts that stay between the level they start on and 127.\<close>

definition level_after :: "char \<Rightarrow> int \<Rightarrow> int" where
  "level_after c l = (if c = CHR ''{'' then l + 1 else if c = CHR ''}'' then l - 1 else l)"

fun climbs :: "int \<Rightarrow> string \<Rightarrow> int option" where
  "climbs l [] = Some l"
| "climbs l (c # cs) =
     (let l' = level_after c l in if 0 \<le> l' \<and> l' \<le> 127 then climbs l' cs else None)"

lemma climbs_append: "climbs l (s @ t) = (case climbs l s of None \<Rightarrow> None | Some l' \<Rightarrow> climbs l' t)"
  by (induction s arbitrary: l) (auto simp: Let_def)

lemma sint_u8: "0 \<le> l \<Longrightarrow> l \<le> 127 \<Longrightarrow> sint (word_of_int l :: u8) = l"
  by (simp add: signed_of_int signed_take_bit_int_eq_self)

lemma extract_climbs:
  assumes "climbs l s = Some l'" "0 \<le> l" "l \<le> 127"
  shows "extract_from True True (word_of_int l) (s @ r) = s @ extract_from True True (word_of_int l') r \<and> 0 \<le> l' \<and> l' \<le> 127"
  using assms
proof (induction s arbitrary: l)
  case (Cons c cs)
  let ?n = "if c = CHR ''{'' then word_of_int l + 1 else if c = CHR ''}'' then word_of_int l - 1 else word_of_int l :: u8"
  have n: "?n = word_of_int (level_after c l)" by (auto simp: level_after_def)
  from Cons.prems have l: "0 \<le> level_after c l" "level_after c l \<le> 127" "climbs (level_after c l) cs = Some l'"
    by (auto simp: Let_def split: if_splits)
  have "\<not> sint ?n < 0" unfolding n using sint_u8 [OF l(1,2)] l(1) by simp
  then have "extract_from True True (word_of_int l) (c # cs @ r) = c # extract_from True True ?n (cs @ r)"
    by (simp only: extract_from.simps if_True Let_def if_False)
  with Cons.IH [OF l(3,1,2)] show ?case by (simp add: n)
qed simp

lemma extract_before:
  "CHR ''{'' \<notin> set p \<Longrightarrow> extract_from a False n (p @ r) = extract_from a False n r"
  by (induction p) auto

lemma extract_object:
  assumes "CHR ''{'' \<notin> set p" "CHR ''{'' \<notin> set q" "climbs 0 inner = Some 0"
  shows "extract_from False False 0 (p @ CHR ''{'' # q @ CHR ''{'' # inner @ CHR ''}'' # rest) =
    CHR ''{'' # inner @ ''}''"
proof -
  have "sint (- 1 :: u8) < 0" by code_simp
  then have "extract_from True True 0 (CHR ''}'' # rest) = ''}''" by simp
  with extract_climbs [OF assms(3), of "CHR ''}'' # rest"]
  have "extract_from True True 0 (inner @ CHR ''}'' # rest) = inner @ ''}''" by simp
  then show ?thesis
    using assms(1,2) by (simp add: extract_before)
qed

section \<open>JSON texts without braces in their strings\<close>

definition no_braces :: "string \<Rightarrow> bool" where
  "no_braces s = (CHR ''{'' \<notin> set s \<and> CHR ''}'' \<notin> set s)"

fun brace_free :: "json \<Rightarrow> bool"
  and brace_free_list :: "json list \<Rightarrow> bool"
  and brace_free_members :: "(string \<times> json) list \<Rightarrow> bool" where
  "brace_free (JString s) = no_braces s"
| "brace_free (JArray vs) = brace_free_list vs"
| "brace_free (JObject ms) = brace_free_members ms"
| "brace_free _ = True"
| "brace_free_list [] = True"
| "brace_free_list (v # vs) = (brace_free v \<and> brace_free_list vs)"
| "brace_free_members [] = True"
| "brace_free_members ((k, v) # ms) = (no_braces k \<and> brace_free v \<and> brace_free_members ms)"

text \<open>How many objects are open at the deepest place.\<close>

fun objects :: "json \<Rightarrow> int"
  and objects_list :: "json list \<Rightarrow> int"
  and objects_members :: "(string \<times> json) list \<Rightarrow> int" where
  "objects (JArray vs) = objects_list vs"
| "objects (JObject ms) = 1 + objects_members ms"
| "objects _ = 0"
| "objects_list [] = 0"
| "objects_list (v # vs) = max (objects v) (objects_list vs)"
| "objects_members [] = 0"
| "objects_members ((k, v) # ms) = max (objects v) (objects_members ms)"

lemma objects_nonneg [simp]:
  "0 \<le> objects v" "0 \<le> objects_list vs" "0 \<le> objects_members ms"
  by (induction v and vs and ms rule: objects_objects_list_objects_members.induct) auto

lemma climbs_plain:
  "no_braces s \<Longrightarrow> 0 \<le> l \<Longrightarrow> l \<le> 127 \<Longrightarrow> climbs l s = Some l"
  by (induction s) (auto simp: no_braces_def level_after_def Let_def)

lemma no_braces_digits: "list_all is_digit_char s \<Longrightarrow> no_braces s"
  by (auto simp: no_braces_def list_all_iff is_digit_char_def)

lemma no_braces_show_int: "no_braces (show_int n)"
  using no_braces_digits [OF show_nat_digits] by (auto simp: show_int_def no_braces_def)

lemma no_braces_hex: "n < 16 \<Longrightarrow> hex_digit n \<noteq> CHR ''{'' \<and> hex_digit n \<noteq> CHR ''}''"
  using hexchar_hex_digit [of n] by (auto simp: hexchar_def Let_def split: if_splits)

lemma no_braces_cases:
  assumes "no_braces [c, x, y]"
  shows "no_braces (if p then [c] else CHR 0x5C #
    (if q0 then [c] else if q1 then ''b'' else if q2 then ''f'' else if q3 then ''n'' else if q4 then ''r''
     else if q5 then ''t'' else [CHR ''u'', CHR ''0'', CHR ''0'', x, y]))"
  using assms by (simp add: no_braces_def)

lemma no_braces_escape:
  assumes "c \<noteq> CHR ''{''" "c \<noteq> CHR ''}''"
  shows "no_braces (escape c)"
proof (cases "(of_char c :: nat) > 31")
  case True
  with assms have "no_braces [c, CHR ''0'', CHR ''0'']" by (simp add: no_braces_def)
  with True show ?thesis unfolding escape_def by (simp only: simp_thms) (simp add: no_braces_def)
next
  case False
  have "(of_char c :: nat) div 16 < 16" "(of_char c :: nat) mod 16 < 16" using False by linarith+
  note no_braces_hex [OF this(1)] no_braces_hex [OF this(2)]
  with assms have "no_braces [c, hex_digit (of_char c div 16), hex_digit (of_char c mod 16)]"
    unfolding no_braces_def set_simps insert_iff empty_iff by metis
  then show ?thesis unfolding escape_def by (rule no_braces_cases)
qed

lemma no_braces_append [simp]: "no_braces (s @ t) = (no_braces s \<and> no_braces t)"
  by (auto simp: no_braces_def)

lemma no_braces_concat: "(\<And>s. s \<in> set ss \<Longrightarrow> no_braces s) \<Longrightarrow> no_braces (concat ss)"
  by (induction ss) (simp_all add: no_braces_def)

lemma no_braces_print:
  assumes "no_braces s"
  shows "no_braces (print_string_ptr s)"
proof -
  have "no_braces (escape c)" if "c \<in> set (cstr s)" for c
  proof (rule no_braces_escape)
    from that have "c \<in> set s" by (auto simp: cstr_def dest: set_takeWhileD)
    with assms show "c \<noteq> CHR ''{''" "c \<noteq> CHR ''}''" unfolding no_braces_def by metis+
  qed
  then have "no_braces (concat (map escape (cstr s)))"
    by (intro no_braces_concat) (metis (no_types) imageE set_map)
  then show ?thesis unfolding print_string_ptr_def no_braces_append by (simp add: no_braces_def)
qed

lemma no_braces_numbers: "no_braces (print_number n)"
  by (simp add: print_number_def no_braces_show_int)

text \<open>A printed value returns to the level it started on.\<close>

lemma climbs_comma: "0 \<le> l \<Longrightarrow> l \<le> 127 \<Longrightarrow> climbs l (CHR '','' # s) = climbs l s"
  "0 \<le> l \<Longrightarrow> l \<le> 127 \<Longrightarrow> climbs l (CHR '':'' # s) = climbs l s"
  by (simp_all add: level_after_def)

lemma climbs_through: "no_braces s \<Longrightarrow> 0 \<le> l \<Longrightarrow> l \<le> 127 \<Longrightarrow> climbs l (s @ t) = climbs l t"
  by (simp add: climbs_append climbs_plain)

lemma climbs_step: "climbs l s = Some l \<Longrightarrow> climbs l (s @ t) = climbs l t"
  by (simp add: climbs_append)

lemma climbs_pair:
  "no_braces k \<Longrightarrow> 0 \<le> l \<Longrightarrow> l \<le> 127 \<Longrightarrow> climbs l (print_value v) = Some l \<Longrightarrow>
   climbs l (print_string_ptr k @ '':'' @ print_value v) = Some l"
  using climbs_through [OF no_braces_print, of k l "'':'' @ print_value v"]
  by (simp add: level_after_def)

lemma climbs_separated:
  "climbs l t = Some l \<Longrightarrow> climbs l (separated ts) = Some l \<Longrightarrow> 0 \<le> l \<Longrightarrow> l \<le> 127 \<Longrightarrow>
   climbs l (separated (t # ts)) = Some l"
  by (auto simp: climbs_append level_after_def)

lemma climbs_printed:
  "brace_free v \<Longrightarrow> 0 \<le> l \<Longrightarrow> l + objects v \<le> 127 \<Longrightarrow> climbs l (print_value v) = Some l"
  "brace_free_list vs \<Longrightarrow> 0 \<le> l \<Longrightarrow> l + objects_list vs \<le> 127 \<Longrightarrow>
     climbs l (separated (map print_value vs)) = Some l"
  "brace_free_members ms \<Longrightarrow> 0 \<le> l \<Longrightarrow> l + objects_members ms \<le> 127 \<Longrightarrow>
     climbs l (separated (map (\<lambda>(k, v). print_string_ptr k @ '':'' @ print_value v) ms)) = Some l"
proof (induction v and vs and ms arbitrary: l and l and l rule: brace_free_brace_free_list_brace_free_members.induct)
  case (2 vs)
  then have "climbs l (separated (map print_value vs)) = Some l" by simp
  moreover have "0 \<le> l" "l \<le> 127" using 2(3,4) objects_nonneg(2) [of vs] unfolding objects.simps by linarith+
  ultimately show ?case
    by (simp add: print_array_def climbs_append level_after_def)
next
  case (3 ms)
  then have "climbs (l + 1) (separated (map (\<lambda>(k, v). print_string_ptr k @ '':'' @ print_value v) ms)) = Some (l + 1)"
    by simp
  moreover have "0 \<le> l" "l + 1 \<le> 127" using 3(3,4) objects_nonneg(3) [of ms] unfolding objects.simps by linarith+
  ultimately show ?case
    by (simp add: print_object_def climbs_append level_after_def)
next
  case (6 v vs)
  have l: "0 \<le> l" "l + objects v \<le> 127" "l + objects_list vs \<le> 127" using 6(4,5) by simp_all
  then have "l \<le> 127" using objects_nonneg(1) [of v] by linarith
  moreover have "climbs l (print_value v) = Some l" "climbs l (separated (map print_value vs)) = Some l"
    using 6 l by simp_all
  ultimately show ?case
    unfolding list.map using l(1) by (intro climbs_separated)
next
  case (8 k v ms)
  have l: "0 \<le> l" "l + objects v \<le> 127" "l + objects_members ms \<le> 127" using 8(4,5) by simp_all
  then have le: "l \<le> 127" using objects_nonneg(1) [of v] by linarith
  have "climbs l (print_value v) = Some l"
    "climbs l (separated (map (\<lambda>(k, v). print_string_ptr k @ '':'' @ print_value v) ms)) = Some l"
    using 8 l by simp_all
  then show ?case
    unfolding list.map prod.case using l(1) le 8(3) by (intro climbs_separated climbs_pair) simp_all
qed (simp_all add: climbs_plain no_braces_print no_braces_numbers level_after_def)

section \<open>The playlist of a message\<close>

text \<open>The members of a message before the playlist: texts without braces, numbers and the like.\<close>

fun plain_scalar :: "json \<Rightarrow> bool" where
  "plain_scalar (JString s) = no_braces s"
| "plain_scalar (JArray vs) = False"
| "plain_scalar (JObject ms) = False"
| "plain_scalar _ = True"

definition before_playlist :: "(string \<times> json) list \<Rightarrow> bool" where
  "before_playlist ms = list_all (\<lambda>(k, v). no_braces k \<and> plain_scalar v) ms"

lemma no_braces_scalar: "plain_scalar v \<Longrightarrow> no_braces (print_value v)"
  by (cases v) (simp_all add: no_braces_print no_braces_numbers, simp_all add: no_braces_def)

lemma separated_append: "ts \<noteq> [] \<Longrightarrow> separated (us @ ts) = concat (map (\<lambda>t. t @ '','') us) @ separated ts"
  by (induction us) auto

text \<open>A message with the playlist among its members.\<close>

definition playlist_message :: "(string \<times> json) list \<Rightarrow> string \<Rightarrow> (string \<times> json) list \<Rightarrow> (string \<times> json) list \<Rightarrow> string" where
  "playlist_message pre name ms post = cJSON_PrintUnformatted (JObject (pre @ (name, JObject ms) # post))"

lemma playlist_message_split:
  assumes "before_playlist pre" "no_braces name"
  shows "\<exists>q rest. playlist_message pre name ms post = CHR ''{'' # q @ print_value (JObject ms) @ rest \<and> CHR ''{'' \<notin> set q"
proof -
  let ?p = "\<lambda>(k, v). print_string_ptr k @ '':'' @ print_value v"
  let ?q = "concat (map (\<lambda>t. t @ '','') (map ?p pre)) @ print_string_ptr name @ '':''"
  have "no_braces (t @ '','')" if "t \<in> set (map ?p pre)" for t
  proof -
    from that obtain k v where "(k, v) \<in> set pre" "t = print_string_ptr k @ '':'' @ print_value v" by auto
    with assms(1) have "no_braces k" "plain_scalar v" "t = print_string_ptr k @ '':'' @ print_value v"
      by (auto simp: before_playlist_def list_all_iff)
    then have "no_braces (print_string_ptr k)" "no_braces (print_value v)" "no_braces '':''" "no_braces '',''"
      by (simp_all add: no_braces_print no_braces_scalar) (simp_all add: no_braces_def)
    with \<open>t = _\<close> show ?thesis by (simp only: no_braces_append simp_thms)
  qed
  then have "no_braces (concat (map (\<lambda>t. t @ '','') (map ?p pre)))"
    by (intro no_braces_concat) (metis (mono_tags, lifting) imageE set_map)
  moreover have "no_braces '':''" by (simp add: no_braces_def)
  ultimately have q: "no_braces ?q" using no_braces_print [OF assms(2)] by (simp only: no_braces_append simp_thms)
  have "separated (map ?p (pre @ (name, JObject ms) # post)) =
      ?q @ print_value (JObject ms) @ concat (map (\<lambda>t. '','' @ t) (map ?p post))"
    unfolding map_append list.map by (subst separated_append) (simp_all add: separated_Cons comp_def del: separated.simps(2))
  then have "playlist_message pre name ms post = CHR ''{'' # ?q @ print_value (JObject ms) @
      (concat (map (\<lambda>t. '','' @ t) (map ?p post)) @ ''}'')"
    by (simp add: playlist_message_def cJSON_PrintUnformatted_def print_object_def del: print_containers)
  with q show ?thesis unfolding no_braces_def by blast
qed

lemma extract_message:
  assumes "before_playlist pre" "no_braces name" "brace_free_members ms" "objects_members ms \<le> 127"
  shows "extract_from False False 0 (playlist_message pre name ms post) = print_value (JObject ms)"
proof -
  from playlist_message_split [OF assms(1,2)] obtain q rest where
    m: "playlist_message pre name ms post = CHR ''{'' # q @ print_value (JObject ms) @ rest" "CHR ''{'' \<notin> set q"
    by blast
  let ?inner = "separated (map (\<lambda>(k, v). print_string_ptr k @ '':'' @ print_value v) ms)"
  have v: "print_value (JObject ms) = CHR ''{'' # ?inner @ ''}''"
    by (simp add: print_object_def del: print_containers)
  have "climbs 0 ?inner = Some 0" using climbs_printed(3) [OF assms(3), of 0] assms(4) by simp
  from extract_object [of "[]" q, OF _ m(2) this, of rest] show ?thesis
    by (simp only: m(1) v append.simps append_assoc list.set empty_iff not_False_eq_True)
qed

text \<open>A printed text is a C string.\<close>

lemma is_cstr_cases:
  assumes "is_cstr [c, x, y]"
  shows "is_cstr (if p then [c] else CHR 0x5C #
    (if q0 then [c] else if q1 then ''b'' else if q2 then ''f'' else if q3 then ''n'' else if q4 then ''r''
     else if q5 then ''t'' else [CHR ''u'', CHR ''0'', CHR ''0'', x, y]))"
  using assms by simp

lemma is_cstr_escape: "c \<noteq> NUL \<Longrightarrow> is_cstr (escape c)"
proof (cases "(of_char c :: nat) > 31")
  case False
  assume c: "c \<noteq> NUL"
  have "(of_char c :: nat) div 16 < 16" "(of_char c :: nat) mod 16 < 16" using False by linarith+
  from hexchar_hex_digit [OF this(1)] hexchar_hex_digit [OF this(2)]
  have "hex_digit (of_char c div 16) \<noteq> NUL" "hex_digit (of_char c mod 16) \<noteq> NUL"
    by (auto simp: hexchar_def Let_def split: if_splits)
  with c have "is_cstr [c, hex_digit (of_char c div 16), hex_digit (of_char c mod 16)]"
    by (simp only: is_cstr_Cons is_cstr_Nil simp_thms)
  then show ?thesis unfolding escape_def by (rule is_cstr_cases)
next
  case True
  assume "c \<noteq> NUL"
  with True show ?thesis unfolding escape_def by (simp only: simp_thms) simp
qed

lemma is_cstr_concat: "(\<And>s. s \<in> set ss \<Longrightarrow> is_cstr s) \<Longrightarrow> is_cstr (concat ss)"
  by (induction ss) simp_all

lemma is_cstr_print_string: "is_cstr (print_string_ptr s)"
proof -
  have "is_cstr (escape c)" if "c \<in> set (cstr s)" for c
    using that by (intro is_cstr_escape) (auto simp: cstr_def dest: set_takeWhileD)
  then have "is_cstr (concat (map escape (cstr s)))"
    by (intro is_cstr_concat) (metis (no_types) imageE set_map)
  then show ?thesis unfolding print_string_ptr_def is_cstr_append by simp
qed

lemma is_cstr_separated: "(\<And>t. t \<in> set ts \<Longrightarrow> is_cstr t) \<Longrightarrow> is_cstr (separated ts)"
  by (induction ts) auto

lemma is_cstr_print_value: "is_cstr (print_value v)"
proof (induction v)
  case (JNumber n)
  then show ?case by (simp add: print_number_def show_int_def)
next
  case (JArray vs)
  then show ?case
    by (auto simp: print_array_def simp del: print_containers intro!: is_cstr_separated)
next
  case (JObject ms)
  then have "is_cstr (print_string_ptr k @ '':'' @ print_value v)" if "(k, v) \<in> set ms" for k v
    using that by (auto simp: is_cstr_print_string)
  then show ?case
    by (auto simp: print_object_def simp del: print_containers intro!: is_cstr_separated)
qed (simp_all add: is_cstr_print_string)

section \<open>A new playlist\<close>

lemma downloader_starts: "\<exists>g'. cloud_downloader_start True True g = (True, g')"
  by (cases g) (auto simp: cloud_downloader_start_def cloud_downloader_is_running_def cloud_downloader_stop_def)

definition tmp_file :: "surroundings \<Rightarrow> string" where
  "tmp_file env = TEMPFILE_DIR @ ''/'' @ show_nat (unat (tmp_number env)) @ ''.tmp''"

text \<open>Surroundings in which every creation succeeds.\<close>

definition able :: "surroundings \<Rightarrow> bool" where
  "able env = (tmp_dir_ok env \<and> tmp_malloc_ok env \<and> tmp_open_ok env \<and> dst_open_ok env \<and> dl_group_ok env \<and> dl_task_ok env)"

lemma update_playlist_job:
  assumes "able env"
    and "(case d of Some t \<Rightarrow> Some (cstr t) | None \<Rightarrow> (case f of None \<Rightarrow> None | Some p \<Rightarrow> sys_files s p)) = Some text_of"
    and "f \<noteq> Some (tmp_file env)"
  shows "\<exists>g. update_playlist env d f seq s = Some (Some True, s\<lparr>
    sys_files := (sys_files s)(tmp_file env \<mapsto> extract_from False False 0 text_of), sys_downloader := g,
    sys_job := Some (\<lparr>tf_file = Wild, tf_path = Ptr (tmp_file env)\<rparr>, seq)\<rparr>)"
proof -
  obtain g where g: "cloud_downloader_start (dl_group_ok env) (dl_task_ok env) (sys_downloader s) = (True, g)"
    using downloader_starts assms(1) by (auto simp: able_def)
  define fs1 where "fs1 = (if sys_files s (tmp_file env) = None then (sys_files s)(tmp_file env \<mapsto> []) else sys_files s)"
  have env: "tmp_dir_ok env" "tmp_malloc_ok env" "tmp_open_ok env" "dst_open_ok env" "dl_group_ok env" "dl_task_ok env"
    using assms(1) by (simp_all add: able_def)
  have c: "tempfile_create (tmp_dir_ok env) (tmp_malloc_ok env) (tmp_open_ok env) (tmp_number env) (sys_files s) =
      Some (Some \<lparr>tf_file = Ptr (), tf_path = Ptr (tmp_file env)\<rparr>, fs1)"
    by (simp add: tempfile_create_def tempfile_open_def tmp_file_def Let_def fs1_def env)
  have e: "(case d of Some t \<Rightarrow> extract_playlist (dst_open_ok env) None (Some t) (tmp_file env) fs1
      | None \<Rightarrow> (case f of Some p \<Rightarrow> extract_playlist (dst_open_ok env) (Some p) None (tmp_file env) fs1 | None \<Rightarrow> (True, fs1))) =
    (True, (sys_files s)(tmp_file env \<mapsto> extract_from False False 0 text_of))"
  proof (cases d)
    case (Some t)
    with assms(2) show ?thesis by (auto simp: extract_playlist_def remove_file_def Let_def fs1_def env)
  next
    case None
    with assms(2,3) obtain p where "f = Some p" "sys_files s p = Some text_of" "p \<noteq> tmp_file env"
      by (auto split: option.splits)
    with None show ?thesis by (auto simp: extract_playlist_def remove_file_def Let_def fs1_def env)
  qed
  show ?thesis
    unfolding update_playlist_def by (intro exI [of _ g]) (simp add: c tempfile_close_def e g)
qed

lemma find_string_empty: "find_string ''command'' ''{}'' = None"
  by code_simp

text \<open>The text of a playlist message names its command first.\<close>

definition message_ok :: "(string \<times> json) list \<Rightarrow> string \<Rightarrow> (string \<times> json) list \<Rightarrow> (string \<times> json) list \<Rightarrow> bool" where
  "message_ok pre name ms post =
     (utf8_members pre \<and> c_text name \<and> utf8_members ms \<and> utf8_members post \<and> before_playlist pre \<and>
      no_braces name \<and> brace_free_members ms \<and> objects_members ms \<le> 127)"

abbreviation update_text :: "(string \<times> json) list \<Rightarrow> string \<Rightarrow> (string \<times> json) list \<Rightarrow> (string \<times> json) list \<Rightarrow> string" where
  "update_text pre name ms post \<equiv> playlist_message ((''command'', JString ''update_playlist'') # pre) name ms post"

lemma update_text_facts:
  assumes "message_ok pre name ms post"
  shows "find_string ''command'' (update_text pre name ms post) = Some ''update_playlist''"
    and "extract_from False False 0 (update_text pre name ms post) = print_value (JObject ms)"
    and "cstr (update_text pre name ms post) = update_text pre name ms post"
    and "json_events num (print_value (JObject ms)) = events_of num (JObject ms) @ [JSON_DONE]"
proof -
  have c: "c_text ''command''" "c_text ''update_playlist''" "no_braces ''command''" "no_braces ''update_playlist''"
    by (simp_all add: c_text_ascii no_braces_def)
  have "utf8_members ((''command'', JString ''update_playlist'') # pre @ (name, JObject ms) # post)"
    using assms c by (simp add: message_ok_def)
  from find_string_object [OF this, of "''command''"]
  show "find_string ''command'' (update_text pre name ms post) = Some ''update_playlist''"
    by (simp add: playlist_message_def)
  have "before_playlist ((''command'', JString ''update_playlist'') # pre)"
    using assms c by (simp add: message_ok_def before_playlist_def)
  with assms show "extract_from False False 0 (update_text pre name ms post) = print_value (JObject ms)"
    by (intro extract_message) (simp_all add: message_ok_def)
  show "cstr (update_text pre name ms post) = update_text pre name ms post"
    unfolding playlist_message_def cJSON_PrintUnformatted_def by (intro cstr_id is_cstr_print_value)
  show "json_events num (print_value (JObject ms)) = events_of num (JObject ms) @ [JSON_DONE]"
    using assms by (intro json_events_value) (simp add: message_ok_def)
qed

lemma playlist_from_text:
  assumes "able env" "message_ok pre name ms post"
  shows "\<exists>g. incoming_command env (update_text pre name ms post) None seq s = Some (Some True, s\<lparr>
    sys_files := (sys_files s)(tmp_file env \<mapsto> print_value (JObject ms)), sys_downloader := g,
    sys_job := Some (\<lparr>tf_file = Wild, tf_path = Ptr (tmp_file env)\<rparr>, seq)\<rparr>)"
proof -
  let ?m = "update_text pre name ms post"
  note m = update_text_facts [OF assms(2)]
  have "?m \<noteq> ''{}''" using m(1) by (metis find_string_empty option.distinct(1))
  moreover obtain g where "update_playlist env (Some ?m) None seq s = Some (Some True, s\<lparr>
    sys_files := (sys_files s)(tmp_file env \<mapsto> print_value (JObject ms)), sys_downloader := g,
    sys_job := Some (\<lparr>tf_file = Wild, tf_path = Ptr (tmp_file env)\<rparr>, seq)\<rparr>)"
    using update_playlist_job [OF assms(1), where d = "Some ?m" and f = None and s = s and text_of = ?m and seq = seq] m(2,3) by auto
  ultimately show ?thesis
    using m(1) by (auto simp: incoming_command_def execute_def)
qed

text \<open>
  A playlist command, sent in the body of an answer, starts the download of exactly the playlist it
  carries: the file handed to the downloader holds the text of the object, from its own opening brace to
  its own closing one, and reads as the object's events, whatever comes before (texts, numbers) and after
  it in the message, as long as no string up to its end holds a brace and no more than 127 objects are
  nested.
\<close>

theorem playlist_command_starts_download:
  assumes "able env" "message_ok pre name ms post"
  shows "\<exists>s' tf path. incoming_command env (update_text pre name ms post) None seq s = Some (Some True, s') \<and>
    sys_job s' = Some (tf, seq) \<and> tf_path tf = Ptr path \<and> sys_files s' path = Some (print_value (JObject ms)) \<and>
    json_events num (print_value (JObject ms)) = events_of num (JObject ms) @ [JSON_DONE]"
  using playlist_from_text [OF assms, of seq s] update_text_facts(4) [OF assms(2), of num] by auto

definition able_env :: surroundings where
  "able_env = \<lparr>zones = ''{\"Europe/Kaliningrad\":\"EET-2\"}'', update_outcomes = broken_update, tmp_dir_ok = True,
     tmp_malloc_ok = True, tmp_open_ok = True, tmp_number = 5, dst_open_ok = True, dl_group_ok = True, dl_task_ok = True\<rparr>"

lemma able_sample: "able able_env"
  by (simp add: able_def able_env_def)

definition sample_members :: "(string \<times> json) list" where
  "sample_members = [(''items'', JArray [JObject [(''url'', JString ''/m/1''), (''filename'', JString ''a.mp3'')]])]"

lemma sample_message: "message_ok [(''n'', JNumber 3)] ''playlist'' sample_members [(''tail'', JObject [])]"
  by (simp add: message_ok_def sample_members_def c_text_ascii before_playlist_def no_braces_def)

theorem playlist_command_starts_download_witness:
  "\<exists>s' tf path. incoming_command able_env
     (update_text [(''n'', JNumber 3)] ''playlist'' sample_members [(''tail'', JObject [])]) None 9 sample_system =
       Some (Some True, s') \<and> sys_job s' = Some (tf, 9) \<and> tf_path tf = Ptr path \<and>
     sys_files s' path = Some (print_value (JObject sample_members))"
  using playlist_command_starts_download [OF able_sample sample_message, of 9 sample_system "\<lambda>_. 0"] by blast

lemma playlist_from_file:
  assumes "able env" "message_ok pre name ms post"
    and "tf_file tf \<noteq> NULL" "tf_path tf = Ptr src" "src \<noteq> tmp_file env"
    and "sys_files s src = Some (update_text pre name ms post)"
  shows "\<exists>g. incoming_command env dat (Some tf) seq s = Some (Some True, s\<lparr>
    sys_downloader := g, sys_job := Some (\<lparr>tf_file = Wild, tf_path = Ptr (tmp_file env)\<rparr>, seq),
    sys_files := (sys_files s)(tmp_file env \<mapsto> print_value (JObject ms), src := None)\<rparr>)"
proof -
  let ?m = "update_text pre name ms post"
  note m = update_text_facts [OF assms(2)]
  obtain g where u: "update_playlist env None (Some src) seq s = Some (Some True, s\<lparr>
    sys_files := (sys_files s)(tmp_file env \<mapsto> print_value (JObject ms)), sys_downloader := g,
    sys_job := Some (\<lparr>tf_file = Wild, tf_path = Ptr (tmp_file env)\<rparr>, seq)\<rparr>)"
    using update_playlist_job [OF assms(1), where d = None and f = "Some src" and s = s and text_of = ?m and seq = seq]
      m(2) assms(5,6) by auto
  have o: "tempfile_open True ''r'' (Some tf) (sys_files s) = Some (True, Some (tf\<lparr>tf_file := Ptr ()\<rparr>), sys_files s)"
    using assms(4,6) by (simp add: tempfile_open_def)
  have x: "s\<lparr>sys_files := sys_files s\<rparr> = s" by simp
  show ?thesis
    using assms(3-6)
    by (intro exI [of _ g]) (simp add: incoming_command_def o m(1) execute_def x u and_remove_def tempfile_remove_def
        tempfile_close_def remove_file_def)
qed

text \<open>
  The same message, too long for the buffer and so received in a temporary file: the download starts
  with the same playlist, and the file of the message is gone from the card, which otherwise holds what
  it held before.
\<close>

theorem playlist_command_from_file:
  assumes "able env" "message_ok pre name ms post"
    and "tf_file tf \<noteq> NULL" "tf_path tf = Ptr src" "src \<noteq> tmp_file env"
    and "sys_files s src = Some (update_text pre name ms post)"
  shows "\<exists>s' job. incoming_command env dat (Some tf) seq s = Some (Some True, s') \<and>
    sys_job s' = Some (job, seq) \<and> tf_path job = Ptr (tmp_file env) \<and>
    sys_files s' = (sys_files s)(tmp_file env \<mapsto> print_value (JObject ms), src := None)"
  using playlist_from_file [OF assms, of dat seq] by auto

section \<open>A brace in a string\<close>

lemma extract_cut:
  assumes "CHR ''{'' \<notin> set q" "no_braces inner"
  shows "extract_from False False 0 (CHR ''{'' # q @ CHR ''{'' # inner @ CHR ''}'' # rest) = CHR ''{'' # inner @ ''}''"
proof -
  have "climbs 0 inner = Some 0" by (rule climbs_plain [OF assms(2)]) simp_all
  from extract_object [of "[]" q, OF _ assms(1) this] show ?thesis by simp
qed

lemma unterminated_events:
  assumes "c_text k" "c_text a"
  shows "json_events num (CHR ''{'' # print_string_ptr k @ '':'' @ [CHR 0x22] @ concat (map escape a) @ ''}'') =
    [JSON_OBJECT, JSON_STRING k, JSON_ERROR]"
proof -
  have k: "cstr k = k" using assms(1) by simp
  have "read_string [] (concat (map escape a) @ ''}'') = None"
    using assms(2) by (simp add: read_string_escapes c_text_def) (simp add: read_string.simps char_needs_escaping_def)
  then have v: "read_value num (Some CHR 0x22) (at (concat (map escape a) @ ''}'') st n) =
      fail_with (at (concat (map escape a) @ ''}'') st (Suc n))" for st n
    by (simp add: read_value_def)
  have o: "json_next num (json_open_string (CHR ''{'' # t)) = (JSON_OBJECT, at t [(In_Object, 0)] (Suc 0))" for t
    by (simp add: json_open_string_def json_next_def next_char_at read_value_def push_def)
  have n: "json_next num (at (print_string_ptr k @ t) [(In_Object, 0)] (Suc 0)) =
      (JSON_STRING k, at t [(In_Object, Suc 0)] (Suc (Suc 0)))" for t
    using read_name_quote [OF assms(1), of num t 0 "[]" "Suc 0"]
    by (simp add: print_string_ptr_def json_next_def next_char_at next_in_def k)
  have e: "json_next num (at (CHR '':'' # CHR 0x22 # concat (map escape a) @ ''}'') [(In_Object, Suc 0)] (Suc (Suc 0))) =
      fail_with (at (concat (map escape a) @ ''}'') [(In_Object, Suc (Suc 0))] (Suc (Suc (Suc 0))))"
    using v by (simp add: json_next_def next_char_at next_in_def count_up_def)
  show ?thesis
    unfolding json_events_def
    by (simp add: json_run.simps [of num "json_open_string _"] o json_run.simps [of num "at (print_string_ptr k @ _) _ _"] n
        json_run.simps [of num "at (CHR '':'' # _) _ _"] e fail_with_def)
qed

lemma cstr_append_cstr: "is_cstr a \<Longrightarrow> cstr (a @ t) = a @ cstr t"
  by (induction a) (auto simp: cstr_def)

text \<open>
  A closing brace in a text of the playlist ends it: the file of a playlist whose first member is a
  string with such a brace, say the name of a track, stops in the middle of the string, and reading it
  ends in an error after the key.
\<close>

theorem brace_in_string_cuts_playlist:
  assumes "before_playlist pre" "no_braces name" "c_text k" "no_braces k" "c_text a" "no_braces a"
  shows "extract_from False False 0 (playlist_message pre name ((k, JString (a @ ''}'' @ b)) # ms) post) =
      ''{'' @ print_string_ptr k @ '':'' @ [CHR 0x22] @ concat (map escape a) @ ''}'' \<and>
    json_events num (extract_from False False 0 (playlist_message pre name ((k, JString (a @ ''}'' @ b)) # ms) post)) =
      [JSON_OBJECT, JSON_STRING k, JSON_ERROR]"
proof -
  let ?ms = "(k, JString (a @ ''}'' @ b)) # ms"
  let ?inner = "print_string_ptr k @ '':'' @ [CHR 0x22] @ concat (map escape a)"
  from playlist_message_split [OF assms(1,2)] obtain q rest where
    m: "playlist_message pre name ?ms post = CHR ''{'' # q @ print_value (JObject ?ms) @ rest" "CHR ''{'' \<notin> set q"
    by blast
  have "cstr (a @ ''}'' @ b) = a @ CHR ''}'' # cstr b"
    using assms(5) by (simp add: c_text_def cstr_append_cstr) (simp add: cstr_def)
  moreover have "escape CHR ''}'' = ''}''" by (simp add: escape_def)
  ultimately obtain r where "print_value (JObject ?ms) = CHR ''{'' # ?inner @ CHR ''}'' # r"
    by (simp add: print_string_ptr_def [of "a @ _"])
  moreover have "no_braces (concat (map escape a))"
  proof (rule no_braces_concat)
    fix e
    assume "e \<in> set (map escape a)"
    then obtain c where "c \<in> set a" "e = escape c" by auto
    with assms(6) show "no_braces e" using no_braces_escape [of c] unfolding no_braces_def by metis
  qed
  then have "no_braces ?inner"
    using no_braces_print [OF assms(4)] by (simp add: no_braces_def)
  ultimately show ?thesis
    using extract_cut [OF m(2), of ?inner "r @ rest"] unterminated_events [OF assms(3,5), of num] m(1) by simp
qed

theorem brace_in_string_cuts_playlist_witness:
  "json_events (\<lambda>_. 0) (extract_from False False 0
     (playlist_message [] ''playlist'' [(''filename'', JString (''a'' @ ''}'' @ ''b''))] [])) =
   [JSON_OBJECT, JSON_STRING ''filename'', JSON_ERROR]"
proof -
  have "no_braces ''playlist''" "no_braces ''filename''" "no_braces ''a''" "c_text ''filename''" "c_text ''a''"
    "before_playlist []"
    by (simp_all add: before_playlist_def no_braces_def c_text_ascii)
  from brace_in_string_cuts_playlist [OF this(6,1,4,2,5,3), where b = "''b''" and ms = "[]" and post = "[]" and num = "\<lambda>_. 0"]
  show ?thesis by (rule conjunct2)
qed

theorem playlist_command_from_file_witness:
  "\<exists>s' job. incoming_command able_env [] (Some \<lparr>tf_file = Wild, tf_path = Ptr ''/sdcard/.tmp/1.tmp''\<rparr>) 9
     (sample_system\<lparr>sys_files := [''/sdcard/.tmp/1.tmp'' \<mapsto>
        update_text [(''n'', JNumber 3)] ''playlist'' sample_members [(''tail'', JObject [])]]\<rparr>) =
     Some (Some True, s') \<and> sys_job s' = Some (job, 9)"
proof -
  have "tmp_file able_env = ''/sdcard/.tmp/5.tmp''"
    by (simp add: tmp_file_def able_env_def TEMPFILE_DIR_def show_nat.simps digit_def char_of_def bit_Suc_0_iff)
  then show ?thesis
    using playlist_command_from_file [OF able_sample sample_message,
        of "\<lparr>tf_file = Wild, tf_path = Ptr ''/sdcard/.tmp/1.tmp''\<rparr>" "''/sdcard/.tmp/1.tmp''"
          "sample_system\<lparr>sys_files := [''/sdcard/.tmp/1.tmp'' \<mapsto>
             update_text [(''n'', JNumber 3)] ''playlist'' sample_members [(''tail'', JObject [])]]\<rparr>" "[]" 9]
    by fastforce
qed

end
