(* ===== verification/Commands.thy ===== *)
theory Commands
  imports IncomingProps
begin

text \<open>
  The other commands of the server, from the text of the answer to the state they leave: a time zone that
  lasts beyond a restart, a card that is emptied, an answer that names no command.
\<close>

section \<open>Messages with a command\<close>

definition command_text :: "string \<Rightarrow> (string \<times> json) list \<Rightarrow> string" where
  "command_text command ms = cJSON_PrintUnformatted (JObject ((''command'', JString command) # ms))"

lemma find_command:
  assumes "c_text command" "utf8_members ms"
  shows "find_string ''command'' (command_text command ms) = Some command"
proof -
  have "utf8_members ((''command'', JString command) # ms)" using assms by (simp add: c_text_ascii)
  from find_string_object [OF this] show ?thesis by (simp add: command_text_def)
qed

lemma find_after_command:
  assumes "c_text command" "utf8_members ms" "name \<noteq> ''command''" "name \<noteq> command"
  shows "find_string name (command_text command ms) = next_string name False ms"
proof -
  have "utf8_members ((''command'', JString command) # ms)" using assms by (simp add: c_text_ascii)
  from find_string_object [OF this, of name] assms(3,4) show ?thesis by (simp add: command_text_def)
qed

lemma incoming_text:
  assumes "find_string ''command'' text_of = Some command"
  shows "incoming_command env text_of None seq s = execute env command text_of (Some text_of) None seq s"
  using assms find_string_empty by (auto simp: incoming_command_def)

section \<open>Refusals\<close>

definition known_commands :: "string list" where
  "known_commands = [''update_setting'', ''update_playlist'', ''update_software'', ''delete_all_file'',
     ''delete_playlist'', ''reboot'']"



section \<open>Settings\<close>

lemma setting_text:
  assumes "c_text tz'" "utf8_members ms"
  shows "find_string ''command'' (command_text ''update_setting'' ((''time_zone_tzinfo'', JString tz') # ms)) =
      Some ''update_setting''"
    and "find_string ''time_zone_tzinfo'' (command_text ''update_setting'' ((''time_zone_tzinfo'', JString tz') # ms)) =
      Some tz'"
proof -
  have c: "c_text ''update_setting''" "utf8_members ((''time_zone_tzinfo'', JString tz') # ms)"
    using assms by (simp_all add: c_text_ascii)
  from find_command [OF c] find_after_command [OF c, of "''time_zone_tzinfo''"]
  show "find_string ''command'' (command_text ''update_setting'' ((''time_zone_tzinfo'', JString tz') # ms)) =
      Some ''update_setting''"
    and "find_string ''time_zone_tzinfo'' (command_text ''update_setting'' ((''time_zone_tzinfo'', JString tz') # ms)) =
      Some tz'"
    by simp_all
qed

text \<open>
  A new time zone from the server is set, acknowledged and lasts: the command with the name of a zone
  of the table sets its rule, queues \<open>ack_ok\<close> with the command's sequence, and after a restart that keeps
  nothing but the settings partition the start sets the same rule again. Names of up to 31 characters fit.
\<close>

theorem timezone_command_lasts:
  assumes "healthy (sys_nvs s)" "printable_device (sys_device s)" "length (sys_queue s) < QUEUE_LENGTH"
    and "c_text zone" "2 \<le> length zone" "length zone < 32" "utf8_members ms"
    and "find_string zone (zones env) = Some rule"
  shows "\<exists>s' msg. incoming_command env
      (command_text ''update_setting'' ((''time_zone_tzinfo'', JString zone) # ms)) None seq s = Some (Some True, s') \<and>
    sys_tz s' = Some rule \<and> sys_queue s' = sys_queue s @ [msg] \<and>
    says ''ack_ok'' (sys_device s) (data msg) \<and> sequence msg = seq \<and>
    (\<exists>n. clock_set_timezone_from_config (zones env) None (rebooted (sys_nvs s')) = Some (True, Some rule, n))"
proof -
  obtain n where n: "config_save_timezone zone (sys_nvs s) = Some (True, n)" "healthy n"
    "items n ''timezone'' = Some (NvsStr zone)"
    using nvs_save_string_healthy [OF assms(1), of "''timezone''" zone] by (auto simp: config_save_timezone_def)
  let ?s = "s\<lparr>sys_tz := Some rule, sys_nvs := n\<rparr>"
  have "c_text ''timezone set successfully''" by (simp add: c_text_ascii)
  with send_ack_queued [of ?s "''timezone set successfully''" True seq None] assms(2,3) obtain msg where
    m: "send_ack True seq ''timezone set successfully'' None ?s = Some (?s\<lparr>sys_queue := sys_queue s @ [msg]\<rparr>)"
    "says ''ack_ok'' (sys_device s) (data msg)" "sequence msg = seq" by auto
  have u: "update_setting env (command_text ''update_setting'' ((''time_zone_tzinfo'', JString zone) # ms)) seq s =
      Some (Some True, ?s\<lparr>sys_queue := sys_queue s @ [msg]\<rparr>)"
    using assms(5,8) by (simp add: update_setting_def setting_text(2) [OF assms(4,7)] clock_set_timezone_def n(1) m(1))
  obtain n' where "nvs_read_string ''timezone'' 32 (rebooted n) = Some (Some zone, n')"
    using nvs_read_string_healthy [of "rebooted n" "''timezone''" 32] n(2,3) assms(6) by auto
  then have "clock_set_timezone_from_config (zones env) None (rebooted n) = Some (True, Some rule, n')"
    by (simp add: clock_set_timezone_from_config_def config_timezone_def clock_set_timezone_def assms(8))
  with u m(2,3) show ?thesis
    unfolding incoming_text [OF setting_text(1) [OF assms(4,7)]]
    by (intro exI [of _ "?s\<lparr>sys_queue := sys_queue s @ [msg]\<rparr>"] exI [of _ msg]) (auto simp: execute_def)
qed

theorem timezone_command_lasts_witness:
  "\<exists>s'. incoming_command able_env
      (command_text ''update_setting'' [(''time_zone_tzinfo'', JString ''Europe/Kaliningrad'')]) None 4 sample_system =
      Some (Some True, s') \<and> sys_tz s' = Some ''EET-2''"
proof -
  have "find_string ''Europe/Kaliningrad'' (zones able_env) = Some ''EET-2''"
    unfolding able_env_def by code_simp
  then show ?thesis
    using timezone_command_lasts [of sample_system "''Europe/Kaliningrad''" "[]" able_env "''EET-2''" 4]
    by (auto simp: healthy_fresh printable_sample QUEUE_LENGTH_def c_text_ascii)
qed

section \<open>Deletions\<close>

text \<open>The states of the other tasks that their own operations keep.\<close>

definition tasks_ok :: "system \<Rightarrow> bool" where
  "tasks_ok s = ((cleanup_ctl.thread_handle (sys_cleanup s) \<longrightarrow> cleanup_ctl.event_group (sys_cleanup s) \<noteq> None) \<and>
     (cloud.thread_handle (sys_cloud s) \<longrightarrow> cloud.event_group (sys_cloud s) \<noteq> None))"

definition silent :: "system \<Rightarrow> bool" where
  "silent s = ((offline.thread_handle (sys_offline s) \<longrightarrow> stop_flag (sys_offline s)) \<and>
     \<not> cloud.thread_handle (sys_cloud s) \<and> \<not> cloud_downloader_is_running (sys_downloader s) \<and>
     \<not> cloud_cleanup_files_is_running (sys_cleanup s))"

lemma all_stopped:
  "tasks_ok s \<Longrightarrow> silent (cleanup_stopped (cloud_stopped (downloader_stopped (offline_stopped s))))"
  by (auto simp: silent_def tasks_ok_def cleanup_stopped_def cloud_stopped_def downloader_stopped_def offline_stopped_def
      offline_scheduler_deinit_def emit_def cloud_scheduler_deinit_def cloud_emit_def cloud_downloader_stop_def
      cloud_downloader_is_running_def stop_stops Let_def split: option.splits)

lemma silent_frame [simp]:
  "silent (s\<lparr>sys_card := d\<rparr>) = silent s" "silent (s\<lparr>sys_queue := q\<rparr>) = silent s"
  by (simp_all add: silent_def)

lemma simple_text:
  "c_text c \<Longrightarrow> find_string ''command'' (command_text c []) = Some c"
  by (rule find_command) simp_all



end
