(* ===== verification/Http.thy ===== *)
theory Http
  imports Commands
begin

text \<open>
  \<open>src/firmware/main/remote/http.c\<close> and \<open>sysinfo_useragent\<close> of \<open>system/sysinfo.c\<close>: the request that
  carries a message to the server, and the collection of the answer in a buffer of 1024 bytes or, when it
  is longer, in a temporary file. The HTTP client is a parameter that maps the request to the events of
  its answer and to the status, or no status when the request fails.
\<close>

definition REMOTE_HTTP_MAX_RECEIVE_DATA_LENGTH :: nat where
  "REMOTE_HTTP_MAX_RECEIVE_DATA_LENGTH = 1024"

text \<open>The buffer is zeroed before each request and holds \<open>rsp_data\<close>, whose length is the field \<open>length\<close>.\<close>

record http_response_t =
  rsp_sequence :: u32
  rsp_data :: string
  rsp_datafile :: "Tempfile_t option"

definition http_response_zero :: http_response_t where
  "http_response_zero = \<lparr>rsp_sequence = 0, rsp_data = [], rsp_datafile = None\<rparr>"

datatype http_event =
    HTTP_EVENT_ON_HEADER string string
  | HTTP_EVENT_ON_DATA string
  | HTTP_EVENT_OTHER

text \<open>\<open>atoi\<close>, and its conversion to \<open>uint32_t\<close>.\<close>

definition atoi :: "string \<Rightarrow> int" where
  "atoi s =
     (case dropWhile (\<lambda>c. c = CHR '' '' \<or> (9 \<le> (of_char c :: nat) \<and> (of_char c :: nat) \<le> 13)) s of
        [] \<Rightarrow> 0
      | c # r \<Rightarrow>
          if c = CHR ''-'' then - int (dec_val 0 (takeWhile is_digit_char r))
          else if c = CHR ''+'' then int (dec_val 0 (takeWhile is_digit_char r))
          else int (dec_val 0 (takeWhile is_digit_char (c # r))))"

text \<open>
  One event. A temporary file may fail to be created or, later, to be opened again, through whose null
  stream the code would write: None.
\<close>

record tmp_outcomes =
  can_create :: bool
  rsp_number :: u32
  can_reopen :: bool

definition http_event_handle ::
  "tmp_outcomes \<Rightarrow> http_event \<Rightarrow> http_response_t \<times> files \<Rightarrow> (http_response_t \<times> files) option" where
  "http_event_handle w evt rf =
     (case rf of (r, disk) \<Rightarrow>
        (case evt of
           HTTP_EVENT_ON_HEADER name v \<Rightarrow>
             if name = ''X-Sequence-Number'' then Some (r\<lparr>rsp_sequence := of_int (atoi v)\<rparr>, disk) else Some (r, disk)
         | HTTP_EVENT_ON_DATA chunk \<Rightarrow>
             (case rsp_datafile r of
                None \<Rightarrow>
                  if length (rsp_data r) + length chunk \<ge> REMOTE_HTTP_MAX_RECEIVE_DATA_LENGTH then
                    (case tempfile_create True True (can_create w) (rsp_number w) disk of
                       Some (Some tf, disk1) \<Rightarrow>
                         (case (tf_path tf, tempfile_close (Some tf)) of
                            (Ptr p, Some (_, tf')) \<Rightarrow>
                              Some (r\<lparr>rsp_datafile := tf'\<rparr>, append_to p (rsp_data r @ chunk) disk1)
                          | _ \<Rightarrow> None)
                     | Some (None, disk1) \<Rightarrow> Some (r, disk1)
                     | None \<Rightarrow> None)
                  else Some (r\<lparr>rsp_data := rsp_data r @ chunk\<rparr>, disk)
              | Some tf \<Rightarrow>
                  (case tempfile_open (can_reopen w) ''ab+'' (Some tf) disk of
                     Some (True, Some tf1, disk1) \<Rightarrow>
                       (case (tf_path tf1, tempfile_close (Some tf1)) of
                          (Ptr p, Some (_, tf')) \<Rightarrow> Some (r\<lparr>rsp_datafile := tf'\<rparr>, append_to p chunk disk1)
                        | _ \<Rightarrow> None)
                   | _ \<Rightarrow> None))
         | HTTP_EVENT_OTHER \<Rightarrow> Some (r, disk)))"

fun handle_all ::
  "tmp_outcomes \<Rightarrow> http_event list \<Rightarrow> http_response_t \<times> files \<Rightarrow> (http_response_t \<times> files) option" where
  "handle_all w [] rf = Some rf"
| "handle_all w (e # es) rf =
     (case http_event_handle w e rf of None \<Rightarrow> None | Some rf' \<Rightarrow> handle_all w es rf')"

section \<open>The request\<close>

record app_desc =
  app_version :: string
  app_project_name :: string
  app_idf_ver :: string
  chip_revision :: nat
  app_date :: string
  app_time :: string

definition sysinfo_useragent :: "app_desc \<Rightarrow> nat \<Rightarrow> string" where
  "sysinfo_useragent d n =
     take (n - 1) (''rmpd-esp32 '' @ app_version d @ '' ('' @ app_project_name d @ '' '' @ app_idf_ver d @
       '', chip rev '' @ show_nat (chip_revision d) @ '', build '' @ app_date d @ '' '' @ app_time d @ '')'')"

record http_request_t =
  req_url :: string
  req_post_field :: string
  req_headers :: "(string \<times> string) list"

type_synonym http_client = "http_request_t \<Rightarrow> http_event list \<times> int option"

definition status_url :: "url_t \<Rightarrow> string \<Rightarrow> string \<Rightarrow> string" where
  "status_url u deviceid pass =
     take 127 (protocol u @ ''://'' @ deviceid @ '':'' @ pass @ ''@'' @ host u @ '':'' @ url_t.port u @
       ''/deviceapi/status'')"

definition http_post_cmd ::
  "http_client \<Rightarrow> app_desc \<Rightarrow> tmp_outcomes \<Rightarrow> string \<Rightarrow> u32 \<Rightarrow> system \<Rightarrow> (int \<times> http_response_t \<times> system) option" where
  "http_post_cmd client app w send_data send_seq s =
     (case config_server_url (sys_nvs s) of
        None \<Rightarrow> None
      | Some (server, n1) \<Rightarrow>
          (case url_parse (take 63 server) of
             None \<Rightarrow> Some (- 1, http_response_zero, s\<lparr>sys_nvs := n1\<rparr>)
           | Some u \<Rightarrow>
               (case config_deviceid n1 of
                  None \<Rightarrow> None
                | Some (deviceid, n2) \<Rightarrow>
                    (case config_server_password n2 of
                       None \<Rightarrow> None
                     | Some (pass, n3) \<Rightarrow>
                         (case client \<lparr>req_url = status_url u deviceid pass, req_post_field = send_data,
                              req_headers = [(''Content-Type'', ''application/json''), (''Accept'', ''application/json''),
                                (''User-Agent'', sysinfo_useragent app 128),
                                (''X-Sequence-Number'', show_int (sint send_seq))]\<rparr> of
                            (events, outcome) \<Rightarrow>
                              (case handle_all w events (http_response_zero, sys_files s) of
                                 None \<Rightarrow> None
                               | Some (r, disk) \<Rightarrow>
                                   Some (case outcome of Some status \<Rightarrow> status | None \<Rightarrow> - 1, r,
                                     s\<lparr>sys_nvs := n3, sys_files := disk\<rparr>)))))))"

section \<open>The body\<close>

text \<open>The pieces of the body among the events.\<close>

fun chunks :: "http_event list \<Rightarrow> string list" where
  "chunks [] = []"
| "chunks (HTTP_EVENT_ON_DATA c # es) = c # chunks es"
| "chunks (_ # es) = chunks es"

definition rsp_file :: "tmp_outcomes \<Rightarrow> string" where
  "rsp_file w = TEMPFILE_DIR @ ''/'' @ show_nat (unat (rsp_number w)) @ ''.tmp''"

text \<open>Where the body is: in the buffer while it fits with a terminating NUL, in the file from then on.\<close>

definition collected :: "tmp_outcomes \<Rightarrow> files \<Rightarrow> string \<Rightarrow> http_response_t \<times> files \<Rightarrow> bool" where
  "collected w disk0 body_text rf =
     (case rf of (r, disk) \<Rightarrow>
        case rsp_datafile r of
          None \<Rightarrow> rsp_data r = body_text \<and> length body_text < REMOTE_HTTP_MAX_RECEIVE_DATA_LENGTH \<and> disk = disk0
        | Some tf \<Rightarrow> tf = \<lparr>tf_file = Wild, tf_path = Ptr (rsp_file w)\<rparr> \<and>
            disk = disk0(rsp_file w \<mapsto> body_text) \<and> length (rsp_data r) < REMOTE_HTTP_MAX_RECEIVE_DATA_LENGTH)"

definition writable :: "tmp_outcomes \<Rightarrow> files \<Rightarrow> bool" where
  "writable w disk = (can_create w \<and> can_reopen w \<and> disk (rsp_file w) = None)"

lemma collect_step:
  assumes "writable w disk0" "collected w disk0 b rf"
  shows "\<exists>rf'. http_event_handle w e rf = Some rf' \<and> collected w disk0 (b @ concat (chunks [e])) rf'"
proof (cases e)
  case (HTTP_EVENT_ON_HEADER n v)
  obtain r disk where "rf = (r, disk)" by fastforce
  with HTTP_EVENT_ON_HEADER assms(2) show ?thesis
    by (auto simp: http_event_handle_def collected_def split: option.splits)
next
  case HTTP_EVENT_OTHER
  with assms(2) show ?thesis by (auto simp: http_event_handle_def split: prod.split)
next
  case (HTTP_EVENT_ON_DATA c)
  obtain r disk where rf: "rf = (r, disk)" by fastforce
  show ?thesis
  proof (cases "rsp_datafile r")
    case None
    with assms(2) rf have b: "rsp_data r = b" "length b < REMOTE_HTTP_MAX_RECEIVE_DATA_LENGTH" "disk = disk0"
      by (auto simp: collected_def)
    show ?thesis
    proof (cases "length b + length c \<ge> REMOTE_HTTP_MAX_RECEIVE_DATA_LENGTH")
      case True
      have "tempfile_create True True (can_create w) (rsp_number w) disk =
          Some (Some \<lparr>tf_file = Ptr (), tf_path = Ptr (rsp_file w)\<rparr>, disk0(rsp_file w \<mapsto> []))"
        using assms(1) b(3) by (simp add: writable_def tempfile_create_def tempfile_open_def rsp_file_def Let_def)
      then have "http_event_handle w e rf = Some (r\<lparr>rsp_datafile := Some \<lparr>tf_file = Wild, tf_path = Ptr (rsp_file w)\<rparr>\<rparr>,
          disk0(rsp_file w \<mapsto> b @ c))"
        using True b None
        by (simp add: http_event_handle_def rf HTTP_EVENT_ON_DATA tempfile_close_def append_to_def)
      then show ?thesis using b(1,2) by (auto simp: collected_def HTTP_EVENT_ON_DATA)
    next
      case False
      with None b rf show ?thesis
        by (auto simp: http_event_handle_def HTTP_EVENT_ON_DATA collected_def)
    qed
  next
    case (Some tf)
    with assms(2) rf have t: "tf = \<lparr>tf_file = Wild, tf_path = Ptr (rsp_file w)\<rparr>" "disk = disk0(rsp_file w \<mapsto> b)"
      "length (rsp_data r) < REMOTE_HTTP_MAX_RECEIVE_DATA_LENGTH"
      by (auto simp: collected_def)
    have "tempfile_open (can_reopen w) ''ab+'' (Some tf) disk =
        Some (True, Some \<lparr>tf_file = Ptr (), tf_path = Ptr (rsp_file w)\<rparr>, disk)"
      using assms(1) t by (simp add: writable_def tempfile_open_def)
    then have "http_event_handle w e rf = Some (r\<lparr>rsp_datafile := Some \<lparr>tf_file = Wild, tf_path = Ptr (rsp_file w)\<rparr>\<rparr>,
        disk0(rsp_file w \<mapsto> b @ c))"
      using Some t by (simp add: http_event_handle_def rf HTTP_EVENT_ON_DATA tempfile_close_def append_to_def)
    then show ?thesis using t(3) by (auto simp: collected_def HTTP_EVENT_ON_DATA)
  qed
qed

lemma chunks_Cons: "chunks (e # es) = chunks [e] @ chunks es"
  by (cases e) auto

lemma collect_all:
  assumes "writable w disk0" "collected w disk0 b rf"
  shows "\<exists>rf'. handle_all w es rf = Some rf' \<and> collected w disk0 (b @ concat (chunks es)) rf'"
  using assms(2)
proof (induction es arbitrary: b rf)
  case (Cons e es)
  from collect_step [OF assms(1) Cons.prems, of e] obtain rf1 where
    "http_event_handle w e rf = Some rf1" "collected w disk0 (b @ concat (chunks [e])) rf1" by blast
  with Cons.IH [of "b @ concat (chunks [e])" rf1] show ?case
    by (subst chunks_Cons) simp
qed simp

lemma body_collected:
  assumes "writable w disk"
  shows "\<exists>rf. handle_all w es (http_response_zero, disk) = Some rf \<and> collected w disk (concat (chunks es)) rf"
proof -
  have "collected w disk [] (http_response_zero, disk)"
    by (simp add: collected_def http_response_zero_def REMOTE_HTTP_MAX_RECEIVE_DATA_LENGTH_def)
  from collect_all [OF assms this, of es] show ?thesis by simp
qed



text \<open>
  When no temporary file can be made, the piece that no longer fits is lost and later ones are still
  appended, so what the device then reads is the body with pieces missing from its middle.
\<close>

theorem http_piece_lost:
  assumes "\<not> can_create w" "disk (rsp_file w) = None"
    and "length a < REMOTE_HTTP_MAX_RECEIVE_DATA_LENGTH" "REMOTE_HTTP_MAX_RECEIVE_DATA_LENGTH \<le> length a + length b"
    and "length a + length c < REMOTE_HTTP_MAX_RECEIVE_DATA_LENGTH"
  shows "handle_all w [HTTP_EVENT_ON_DATA a, HTTP_EVENT_ON_DATA b, HTTP_EVENT_ON_DATA c] (http_response_zero, disk) =
    Some (http_response_zero\<lparr>rsp_data := a @ c\<rparr>, disk)"
proof -
  have "tempfile_create True True (can_create w) (rsp_number w) disk = Some (None, disk)"
    using assms(1) by (simp add: tempfile_create_def tempfile_open_def Let_def)
  with assms(3-5) show ?thesis
    by (simp add: http_event_handle_def http_response_zero_def)
qed

theorem http_piece_lost_witness:
  "handle_all \<lparr>can_create = False, rsp_number = 3, can_reopen = True\<rparr>
     [HTTP_EVENT_ON_DATA ''ab'', HTTP_EVENT_ON_DATA (replicate 1022 CHR ''x''), HTTP_EVENT_ON_DATA ''c'']
     (http_response_zero, Map.empty) = Some (http_response_zero\<lparr>rsp_data := ''ab'' @ ''c''\<rparr>, Map.empty)"
  by (rule http_piece_lost) (simp_all add: REMOTE_HTTP_MAX_RECEIVE_DATA_LENGTH_def)

end
