(* ===== verification/Gate.thy ===== *)
theory Gate
  imports Http
begin

text \<open>
  \<open>src/firmware/main/remote/gate.c\<close> and \<open>remote/control.c\<close>: the task that takes the messages of the
  device one by one from the queue, posts each to the server until it is accepted or its retries are used
  up, and executes the command that an answer carries; and the one that asks for a report now and then.
  Attempts are numbered from the first; the HTTP client, the temporary file and the surroundings of a
  command may differ from one to the next.
\<close>

record world =
  client :: "nat \<Rightarrow> http_client"
  app :: app_desc
  tmp :: "nat \<Rightarrow> tmp_outcomes"
  around :: "nat \<Rightarrow> surroundings"

definition run_callback :: "sent_callback option \<Rightarrow> bool \<Rightarrow> system \<Rightarrow> system option" where
  "run_callback cb ok s =
     (case cb of
        None \<Rightarrow> Some s
      | Some Reboot_Callback \<Rightarrow> Some (sent_callback ok s)
      | Some Remove_Nvs_Sequence_Callback \<Rightarrow> remove_nvs_sequence_callback ok s)"

definition good_status :: "int \<Rightarrow> bool" where
  "good_status status = (200 \<le> status \<and> status < 300)"

text \<open>One round of the inner loop: whether the server accepted the message.\<close>

definition gate_attempt :: "world \<Rightarrow> nat \<Rightarrow> QueueMessage_t \<Rightarrow> system \<Rightarrow> (bool \<times> system) option" where
  "gate_attempt w k msg s =
     (case http_post_cmd (client w k) (app w) (tmp w k) (data msg) (sequence msg) s of
        None \<Rightarrow> None
      | Some (status, recv, s1) \<Rightarrow>
          if good_status status then
            (case incoming_command (around w k) (cstr (rsp_data recv)) (rsp_datafile recv) (rsp_sequence recv) s1 of
               None \<Rightarrow> None
             | Some (answered, s2) \<Rightarrow>
                 if sys_restarted s2 then Some (True, s2)
                 else map_option (Pair True)
                        (run_callback (QueueMessage_t.callback msg) True (status_set_online True s2)))
          else map_option (Pair False)
                 (run_callback (QueueMessage_t.callback msg) False (status_set_online False s1)))"

text \<open>
  The inner loop, from attempt \<open>k\<close> with \<open>retries\<close> left: the number of attempts made so far, whether the
  message was accepted, and the state. A device that restarts makes no more.
\<close>

fun send_loop :: "world \<Rightarrow> nat \<Rightarrow> nat \<Rightarrow> QueueMessage_t \<Rightarrow> system \<Rightarrow> (nat \<times> bool \<times> system) option" where
  "send_loop w k 0 msg s = map_option (\<lambda>(ok, s1). (Suc k, ok, s1)) (gate_attempt w k msg s)"
| "send_loop w k (Suc retries) msg s =
     (case gate_attempt w k msg s of
        None \<Rightarrow> None
      | Some (ok, s1) \<Rightarrow>
          if ok \<or> sys_restarted s1 then Some (Suc k, ok, s1) else send_loop w (Suc k) retries msg s1)"

text \<open>One round of the task: None while it waits for a message.\<close>

definition gate_round :: "world \<Rightarrow> system \<Rightarrow> (nat \<times> bool \<times> system) option option" where
  "gate_round w s =
     (case queue_receive (sys_queue s) of
        None \<Rightarrow> None
      | Some (msg, q) \<Rightarrow> Some (send_loop w 0 (unat (max_retries msg)) msg (s\<lparr>sys_queue := q\<rparr>)))"

text \<open>\<open>control.c\<close>: the report at power-on, the semaphore and the round of its task.\<close>

definition remote_control_init :: "bool \<Rightarrow> bool \<Rightarrow> system \<Rightarrow> (bool \<times> system) option" where
  "remote_control_init gate_ok task_ok s =
     map_option (\<lambda>s1. (gate_ok \<and> task_ok, s1)) (send POWER_ON None s)"

definition control_round :: "system \<Rightarrow> system option" where
  "control_round s = send NOW_PLAYING None s"

section \<open>Properties\<close>

lemma run_callback_online: "run_callback cb ok s = Some s' \<Longrightarrow> sys_online s' = sys_online s"
  by (auto simp: run_callback_def sent_callback_def remove_nvs_sequence_callback_def
      split: option.splits sent_callback.splits if_splits)

lemma gate_attempt_online:
  assumes "gate_attempt w k msg s = Some (ok, s')" "\<not> sys_restarted s'"
  shows "sys_online s' = ok"
  using assms
  by (auto simp: gate_attempt_def status_set_online_def split: option.splits if_splits dest!: run_callback_online)

lemma send_loop_attempts:
  assumes "send_loop w k retries msg s = Some (n, ok, s')"
  shows "k < n \<and> n \<le> k + retries + 1 \<and>
    (\<not> sys_restarted s' \<longrightarrow> sys_online s' = ok \<and> (\<not> ok \<longrightarrow> n = k + retries + 1))"
  using assms
proof (induction w k retries msg s rule: send_loop.induct)
  case (1 w k msg s)
  then show ?case by (auto dest: gate_attempt_online)
next
  case (2 w k retries msg s)
  from 2(2) obtain ok1 s1 where a: "gate_attempt w k msg s = Some (ok1, s1)"
    by (auto split: option.splits)
  show ?case
  proof (cases "ok1 \<or> sys_restarted s1")
    case True
    with 2(2) a show ?thesis by (auto dest: gate_attempt_online)
  next
    case False
    with 2(1) [OF a refl False] 2(2) a show ?thesis by auto
  qed
qed

text \<open>
  C32: A message is posted at most once more than its retries, the task never stops at a message that the
  server does not accept, and what the device says of itself afterwards is right: unless it is about to
  restart, it is online exactly when the last message was accepted, and gives up only when all attempts
  were used.
\<close>

theorem gate_bounded:
  assumes "send_loop w k retries msg s = Some (n, ok, s')"
  shows "k < n \<and> n \<le> k + retries + 1 \<and>
    (\<not> sys_restarted s' \<longrightarrow> sys_online s' = ok \<and> (\<not> ok \<longrightarrow> n = k + retries + 1))"
  by (rule send_loop_attempts [OF assms])

section \<open>Delivery\<close>

lemma str_setting_healthy:
  assumes "healthy n"
  shows "\<exists>v n'. str_setting name m d n = Some (v, n') \<and> healthy n' \<and>
    v = (case items n name of Some (NvsStr t) \<Rightarrow> if length t < m then t else d | _ \<Rightarrow> d) \<and>
    (\<forall>k. k \<noteq> name \<longrightarrow> items n' k = items n k) \<and>
    (length d < m \<longrightarrow> (case items n' name of Some (NvsStr t) \<Rightarrow> if length t < m then t else d | _ \<Rightarrow> d) = v)"
proof -
  obtain n1 where n1: "nvs_read_string name m n =
      Some (case items n name of Some (NvsStr v) \<Rightarrow> if length v < m then Some v else None | _ \<Rightarrow> None, n1)"
    "healthy n1" "items n1 = items n"
    using nvs_read_string_healthy [OF assms] by blast
  obtain n2 where n2: "nvs_save_string name d n1 = Some (True, n2)" "healthy n2"
    "items n2 = (items n1)(name \<mapsto> NvsStr d)"
    using nvs_save_string_healthy [OF n1(2)] by blast
  show ?thesis
    using n1 n2 by (auto simp: str_setting_def split: option.splits nvs_item.splits)
qed

text \<open>The server's address in the settings, and a partition from which a request can be made.\<close>

definition server_of :: "nvs_state \<Rightarrow> string" where
  "server_of n = (case items n ''server_url'' of
     Some (NvsStr t) \<Rightarrow> if length t < 32 then t else ''https://cloud.slon-ds.ru/''
   | _ \<Rightarrow> ''https://cloud.slon-ds.ru/'')"

definition can_post :: "nvs_state \<Rightarrow> bool" where
  "can_post n = (healthy n \<and> url_parse (take 63 (server_of n)) \<noteq> None)"

lemma http_post_cmd_healthy:
  assumes "can_post (sys_nvs s)"
  shows "\<exists>n req. can_post n \<and> req_post_field req = send_data \<and>
    http_post_cmd cl a t send_data send_seq s =
      (case cl req of (events, outcome) \<Rightarrow>
         (case handle_all t events (http_response_zero, sys_files s) of
            None \<Rightarrow> None
          | Some (r, disk) \<Rightarrow> Some (case outcome of Some st \<Rightarrow> st | None \<Rightarrow> - 1, r, s\<lparr>sys_nvs := n, sys_files := disk\<rparr>)))"
proof -
  from assms have h: "healthy (sys_nvs s)" by (simp add: can_post_def)
  from str_setting_healthy [OF h, of "''server_url''" 32 "''https://cloud.slon-ds.ru/''"] obtain n1 where
    n1: "config_server_url (sys_nvs s) = Some (server_of (sys_nvs s), n1)" "healthy n1" "server_of n1 = server_of (sys_nvs s)"
    by (auto simp: config_server_url_def server_of_def)
  from str_setting_healthy [OF n1(2), of "''deviceid''" 10 "''vanillaesp''"] obtain i n2 where
    n2: "config_deviceid n1 = Some (i, n2)" "healthy n2" "server_of n2 = server_of n1"
    by (auto simp: config_deviceid_def server_of_def)
  from str_setting_healthy [OF n2(2), of "''server_pass''" 16 "''vanillaesppass''"] obtain p n3 where
    n3: "config_server_password n2 = Some (p, n3)" "healthy n3" "server_of n3 = server_of n2"
    by (auto simp: config_server_password_def server_of_def)
  from assms obtain u where u: "url_parse (take 63 (server_of (sys_nvs s))) = Some u"
    by (auto simp: can_post_def)
  let ?req = "\<lparr>req_url = status_url u i p, req_post_field = send_data,
     req_headers = [(''Content-Type'', ''application/json''), (''Accept'', ''application/json''),
       (''User-Agent'', sysinfo_useragent a 128), (''X-Sequence-Number'', show_int (sint send_seq))]\<rparr>"
  have "can_post n3" using n1 n2 n3 u by (simp add: can_post_def)
  then show ?thesis
    using n1(1) n2(1) n3(1) u
    by (intro exI [of _ n3] exI [of _ ?req]) (simp add: http_post_cmd_def)
qed

text \<open>A server that does not answer an attempt, or answers it with an error and no body.\<close>

definition silent_at :: "world \<Rightarrow> nat \<Rightarrow> bool" where
  "silent_at w k = (\<exists>out. client w k = (\<lambda>_. ([], out)) \<and> (case out of None \<Rightarrow> True | Some st \<Rightarrow> \<not> good_status st))"

lemma silent_atI: "client w k = (\<lambda>_. ([], None)) \<Longrightarrow> silent_at w k"
  unfolding silent_at_def by (rule exI [of _ None]) simp

lemma silent_attempt_callback:
  assumes "can_post (sys_nvs s)" "silent_at w k"
  shows "\<exists>n. can_post n \<and> gate_attempt w k msg s =
    map_option (Pair False) (run_callback (QueueMessage_t.callback msg) False (s\<lparr>sys_nvs := n, sys_online := False\<rparr>))"
proof -
  obtain out where o: "client w k = (\<lambda>_. ([], out))" "case out of None \<Rightarrow> True | Some st \<Rightarrow> \<not> good_status st"
    using assms(2) by (auto simp: silent_at_def)
  from http_post_cmd_healthy [OF assms(1), of "data msg" "client w k" "app w" "tmp w k" "sequence msg"] obtain n where
    "can_post n" "http_post_cmd (client w k) (app w) (tmp w k) (data msg) (sequence msg) s =
      Some (case out of Some st \<Rightarrow> st | None \<Rightarrow> - 1, http_response_zero, s\<lparr>sys_nvs := n\<rparr>)"
    by (auto simp: o(1))
  moreover have "\<not> good_status (case out of Some st \<Rightarrow> st | None \<Rightarrow> - 1)"
    using o(2) by (cases out) (simp_all add: good_status_def)
  ultimately show ?thesis
    by (intro exI [of _ n]) (simp add: gate_attempt_def status_set_online_def)
qed

lemma silent_attempt:
  assumes "can_post (sys_nvs s)" "silent_at w k" "QueueMessage_t.callback msg = None"
  shows "\<exists>n. can_post n \<and> gate_attempt w k msg s = Some (False, s\<lparr>sys_nvs := n, sys_online := False\<rparr>)"
  using silent_attempt_callback [OF assms(1,2), of msg] assms(3) by (simp add: run_callback_def)

lemma silent_attempts:
  assumes "can_post (sys_nvs s)" "\<And>i. i < j \<Longrightarrow> silent_at w (k + i)" "QueueMessage_t.callback msg = None"
    and "j \<le> retries" "\<not> sys_restarted s"
  shows "\<exists>n on. can_post n \<and>
    send_loop w k retries msg s = send_loop w (k + j) (retries - j) msg (s\<lparr>sys_nvs := n, sys_online := on\<rparr>)"
  using assms
proof (induction j arbitrary: s k retries)
  case 0
  then show ?case by (intro exI [of _ "sys_nvs s"] exI [of _ "sys_online s"]) simp
next
  case (Suc j)
  have "silent_at w k" using Suc.prems(2) [of 0] by simp
  from silent_attempt [OF Suc.prems(1) this Suc.prems(3)] obtain n where n: "can_post n"
    "gate_attempt w k msg s = Some (False, s\<lparr>sys_nvs := n, sys_online := False\<rparr>)" by blast
  obtain r where r: "retries = Suc r" "j \<le> r" using Suc.prems(4) by (cases retries) auto
  have "silent_at w (Suc k + i)" if "i < j" for i using Suc.prems(2) [of "Suc i"] that by simp
  from Suc.IH [of "s\<lparr>sys_nvs := n, sys_online := False\<rparr>" "Suc k" r] this n(1) Suc.prems(3,5) r(2)
  obtain n' on where "can_post n'"
    "send_loop w (Suc k) r msg (s\<lparr>sys_nvs := n, sys_online := False\<rparr>) =
     send_loop w (Suc k + j) (r - j) msg (s\<lparr>sys_nvs := n', sys_online := on\<rparr>)" by auto
  with n(2) r(1) Suc.prems(5) show ?case by auto
qed

text \<open>The sequence that an answer carries, 0 without the header.\<close>

fun sequence_of :: "u32 \<Rightarrow> http_event list \<Rightarrow> u32" where
  "sequence_of q [] = q"
| "sequence_of q (HTTP_EVENT_ON_HEADER n v # es) =
     sequence_of (if n = ''X-Sequence-Number'' then of_int (atoi v) else q) es"
| "sequence_of q (_ # es) = sequence_of q es"

lemma handle_sequence:
  "http_event_handle t e (r, d) = Some (r', d') \<Longrightarrow> rsp_sequence r' = sequence_of (rsp_sequence r) [e]"
  by (cases e) (auto simp: http_event_handle_def split: if_splits option.splits cptr.splits prod.splits bool.splits)

lemma handle_all_sequence:
  "handle_all t es (r, d) = Some (r', d') \<Longrightarrow> rsp_sequence r' = sequence_of (rsp_sequence r) es"
proof (induction es arbitrary: r d)
  case (Cons e es)
  from Cons.prems obtain r1 d1 where h: "http_event_handle t e (r, d) = Some (r1, d1)"
    "handle_all t es (r1, d1) = Some (r', d')"
    by (auto split: option.splits)
  from Cons.IH [OF h(2)] handle_sequence [OF h(1)] show ?case by (cases e) auto
qed simp

lemma good_attempt:
  assumes "can_post (sys_nvs s)" "writable (tmp w k) (sys_files s)"
    and "client w k = (\<lambda>_. (es, Some st))" "good_status st" "QueueMessage_t.callback msg = None"
    and "\<And>n. \<exists>g. incoming_command (around w k) body_text None (sequence_of 0 es) (s\<lparr>sys_nvs := n\<rparr>) =
      Some (Some True, f n (sys_files s) g)"
    and "\<And>n dat. \<exists>g. incoming_command (around w k) dat (Some \<lparr>tf_file = Wild, tf_path = Ptr (rsp_file (tmp w k))\<rparr>)
        (sequence_of 0 es) (s\<lparr>sys_nvs := n, sys_files := (sys_files s)(rsp_file (tmp w k) \<mapsto> body_text)\<rparr>) =
      Some (Some True, f n (sys_files s) g)"
    and "body_text = concat (chunks es)" "cstr body_text = body_text"
    and "\<And>n g. \<not> sys_restarted (f n (sys_files s) g)"
  shows "\<exists>n g. gate_attempt w k msg s = Some (True, status_set_online True (f n (sys_files s) g))"
proof -
  from body_collected [OF assms(2), of es] obtain r disk where
    r: "handle_all (tmp w k) es (http_response_zero, sys_files s) = Some (r, disk)"
    "collected (tmp w k) (sys_files s) body_text (r, disk)"
    unfolding assms(8) by (metis surj_pair)
  have q: "rsp_sequence r = sequence_of 0 es"
    using handle_all_sequence [OF r(1)] by (simp add: http_response_zero_def)
  from http_post_cmd_healthy [OF assms(1), of "data msg" "client w k" "app w" "tmp w k" "sequence msg"] obtain n where
    n: "http_post_cmd (client w k) (app w) (tmp w k) (data msg) (sequence msg) s =
      Some (st, r, s\<lparr>sys_nvs := n, sys_files := disk\<rparr>)"
    by (auto simp: assms(3) r(1))
  have "\<exists>g. incoming_command (around w k) (cstr (rsp_data r)) (rsp_datafile r) (rsp_sequence r)
      (s\<lparr>sys_nvs := n, sys_files := disk\<rparr>) = Some (Some True, f n (sys_files s) g)"
  proof (cases "rsp_datafile r")
    case None
    with r(2) have "rsp_data r = body_text" "disk = sys_files s" by (auto simp: collected_def)
    with None q assms(6) [of n] assms(9) show ?thesis by auto
  next
    case (Some tf)
    with r(2) have "tf = \<lparr>tf_file = Wild, tf_path = Ptr (rsp_file (tmp w k))\<rparr>"
      "disk = (sys_files s)(rsp_file (tmp w k) \<mapsto> body_text)" by (auto simp: collected_def)
    with Some q assms(7) [of "cstr (rsp_data r)" n] show ?thesis by auto
  qed
  then obtain g where "incoming_command (around w k) (cstr (rsp_data r)) (rsp_datafile r) (rsp_sequence r)
      (s\<lparr>sys_nvs := n, sys_files := disk\<rparr>) = Some (Some True, f n (sys_files s) g)" by blast
  then show ?thesis
    using n assms(4,5,10) by (auto simp: gate_attempt_def run_callback_def)
qed

definition with_job :: "surroundings \<Rightarrow> string \<Rightarrow> u32 \<Rightarrow> system \<Rightarrow> nvs_state \<Rightarrow> files \<Rightarrow> dl_ctl option \<Rightarrow> system" where
  "with_job env playlist seq s n disk g = s\<lparr>sys_nvs := n, sys_files := disk(tmp_file env \<mapsto> playlist), sys_downloader := g,
     sys_job := Some (\<lparr>tf_file = Wild, tf_path = Ptr (tmp_file env)\<rparr>, seq)\<rparr>"

lemma job_order:
  "t\<lparr>sys_files := disk, sys_downloader := g, sys_job := x\<rparr> = t\<lparr>sys_downloader := g, sys_job := x, sys_files := disk\<rparr>"
  by (cases t) simp

lemma playlist_attempt:
  assumes "can_post (sys_nvs s)" "writable (tmp w k) (sys_files s)" "rsp_file (tmp w k) \<noteq> tmp_file (around w k)"
    and "client w k = (\<lambda>_. (es, Some st))" "good_status st" "QueueMessage_t.callback msg = None"
    and "able (around w k)" "message_ok pre name ms post" "concat (chunks es) = update_text pre name ms post"
    and "\<not> sys_restarted s"
  shows "\<exists>n g. gate_attempt w k msg s = Some (True, status_set_online True
    (with_job (around w k) (print_value (JObject ms)) (sequence_of 0 es) s n (sys_files s) g))"
proof (rule good_attempt [where f = "with_job (around w k) (print_value (JObject ms)) (sequence_of 0 es) s"
      and body_text = "update_text pre name ms post", OF assms(1,2,4,5,6)])
  let ?f = "with_job (around w k) (print_value (JObject ms)) (sequence_of 0 es) s"
  let ?p = "rsp_file (tmp w k)"
  show "\<exists>g. incoming_command (around w k) (update_text pre name ms post) None (sequence_of 0 es) (s\<lparr>sys_nvs := n\<rparr>) =
      Some (Some True, ?f n (sys_files s) g)" for n
    using playlist_from_text [OF assms(7,8), of "sequence_of 0 es" "s\<lparr>sys_nvs := n\<rparr>"] by (simp add: with_job_def job_order)
  show "\<exists>g. incoming_command (around w k) dat (Some \<lparr>tf_file = Wild, tf_path = Ptr ?p\<rparr>) (sequence_of 0 es)
      (s\<lparr>sys_nvs := n, sys_files := (sys_files s)(?p \<mapsto> update_text pre name ms post)\<rparr>) =
      Some (Some True, ?f n (sys_files s) g)" for n dat
  proof -
    have "(sys_files s)(?p \<mapsto> update_text pre name ms post, tmp_file (around w k) \<mapsto> print_value (JObject ms), ?p := None) =
        (sys_files s)(tmp_file (around w k) \<mapsto> print_value (JObject ms))"
      using assms(2,3) by (auto simp: writable_def fun_upd_def)
    then show ?thesis
      using playlist_from_file [OF assms(7,8), of "\<lparr>tf_file = Wild, tf_path = Ptr ?p\<rparr>" ?p
          "s\<lparr>sys_nvs := n, sys_files := (sys_files s)(?p \<mapsto> update_text pre name ms post)\<rparr>" dat "sequence_of 0 es"] assms(3)
      by (simp add: with_job_def job_order)
  qed
  show "update_text pre name ms post = concat (chunks es)" using assms(9) by simp
  show "cstr (update_text pre name ms post) = update_text pre name ms post"
    by (rule update_text_facts(3) [OF assms(8)])
  show "\<not> sys_restarted (?f n (sys_files s) g)" for n g using assms(10) by (simp add: with_job_def)
qed

lemma playlist_round:
  assumes "can_post (sys_nvs s)" "sys_queue s = msg # q" "QueueMessage_t.callback msg = None" "\<not> sys_restarted s"
    and "j \<le> unat (max_retries msg)" "\<And>i. i < j \<Longrightarrow> silent_at w i"
    and "client w j = (\<lambda>_. (es, Some st))" "good_status st" "concat (chunks es) = update_text pre name ms post"
    and "message_ok pre name ms post" "able (around w j)"
    and "writable (tmp w j) (sys_files s)" "rsp_file (tmp w j) \<noteq> tmp_file (around w j)"
  shows "\<exists>s'. gate_round w s = Some (Some (Suc j, True, s')) \<and> sys_online s' \<and> sys_queue s' = q \<and>
    sys_job s' = Some (\<lparr>tf_file = Wild, tf_path = Ptr (tmp_file (around w j))\<rparr>, sequence_of 0 es) \<and>
    sys_files s' = (sys_files s)(tmp_file (around w j) \<mapsto> print_value (JObject ms))"
proof -
  let ?s = "s\<lparr>sys_queue := q\<rparr>"
  have "can_post (sys_nvs ?s)" "\<not> sys_restarted ?s" "\<And>i. i < j \<Longrightarrow> silent_at w (0 + i)"
    using assms(1,4,6) by simp_all
  from silent_attempts [where s = ?s and w = w and k = 0 and j = j and msg = msg, OF this(1) this(3) assms(3,5) this(2)]
  obtain n on where l: "can_post n" "send_loop w 0 (unat (max_retries msg)) msg ?s =
      send_loop w j (unat (max_retries msg) - j) msg (?s\<lparr>sys_nvs := n, sys_online := on\<rparr>)" by auto
  let ?t = "?s\<lparr>sys_nvs := n, sys_online := on\<rparr>"
  from playlist_attempt [where s = ?t and w = w and k = j and msg = msg, OF _ _ assms(13,7,8,3,11,10,9)] l(1) assms(4,12)
  obtain n' g where a: "gate_attempt w j msg ?t = Some (True, status_set_online True
      (with_job (around w j) (print_value (JObject ms)) (sequence_of 0 es) ?t n' (sys_files ?t) g))"
    by auto
  let ?u = "status_set_online True (with_job (around w j) (print_value (JObject ms)) (sequence_of 0 es) ?t n' (sys_files ?t) g)"
  have "send_loop w j r msg ?t = Some (Suc j, True, ?u)" for r
    using a by (cases r) simp_all
  with l(2) have "gate_round w s = Some (Some (Suc j, True, ?u))"
    by (simp add: gate_round_def queue_receive_def assms(2))
  moreover have "sys_online ?u" "sys_queue ?u = q"
    "sys_job ?u = Some (\<lparr>tf_file = Wild, tf_path = Ptr (tmp_file (around w j))\<rparr>, sequence_of 0 es)"
    "sys_files ?u = (sys_files s)(tmp_file (around w j) \<mapsto> print_value (JObject ms))"
    by (simp_all add: status_set_online_def with_job_def)
  ultimately show ?thesis by (intro exI [of _ ?u]) simp
qed

text \<open>
  A playlist that the server holds reaches a device that has anything to say: the message at the
  front of the queue is posted until, within its retries, the server answers with the playlist command,
  in pieces of any size; then the message is gone from the queue, the device is online and the download
  of exactly that playlist is started under the sequence of the answer, while the other files of the
  card and the messages behind stay as they were.
\<close>

theorem playlist_reaches_device:
  assumes "can_post (sys_nvs s)" "sys_queue s = msg # q" "QueueMessage_t.callback msg = None" "\<not> sys_restarted s"
    and "j \<le> unat (max_retries msg)" "\<And>i. i < j \<Longrightarrow> silent_at w i"
    and "client w j = (\<lambda>_. (es, Some st))" "good_status st" "concat (chunks es) = update_text pre name ms post"
    and "message_ok pre name ms post" "able (around w j)"
    and "writable (tmp w j) (sys_files s)" "rsp_file (tmp w j) \<noteq> tmp_file (around w j)"
  shows "\<exists>s' tf path. gate_round w s = Some (Some (Suc j, True, s')) \<and> sys_online s' \<and> sys_queue s' = q \<and>
    sys_job s' = Some (tf, sequence_of 0 es) \<and> tf_path tf = Ptr path \<and>
    sys_files s' = (sys_files s)(path \<mapsto> print_value (JObject ms))"
  using playlist_round [OF assms] by auto

definition sample_world :: world where
  "sample_world = \<lparr>client = (\<lambda>k _. if k = 0 then ([], None)
       else ([HTTP_EVENT_ON_HEADER ''X-Sequence-Number'' ''12'', HTTP_EVENT_ON_DATA
          (update_text [(''n'', JNumber 3)] ''playlist'' sample_members [(''tail'', JObject [])])], Some 200)),
     app = \<lparr>app_version = ''1'', app_project_name = ''rmpd'', app_idf_ver = ''v4'', chip_revision = 1, app_date = [],
       app_time = []\<rparr>,
     tmp = (\<lambda>_. \<lparr>can_create = True, rsp_number = 3, can_reopen = True\<rparr>), around = (\<lambda>_. able_env)\<rparr>"

definition power_on_message :: QueueMessage_t where
  "power_on_message = \<lparr>data = ''{}'', sequence = 0, max_retries = 15, callback = None\<rparr>"

lemma power_on_message_fields:
  "data power_on_message = ''{}''" "max_retries power_on_message = 15" "QueueMessage_t.callback power_on_message = None"
  by (simp_all add: power_on_message_def)

lemma server_of_fresh: "server_of fresh_nvs = ''https://cloud.slon-ds.ru/''"
  by (simp add: server_of_def fresh_nvs_def)

lemma can_post_fresh: "can_post fresh_nvs"
proof -
  have "url_parse ''https://cloud.slon-ds.ru/'' \<noteq> None" by code_simp
  then show ?thesis by (simp add: can_post_def healthy_fresh server_of_fresh)
qed

lemma sample_paths:
  "rsp_file (tmp sample_world k) = ''/sdcard/.tmp/3.tmp''" "tmp_file (around sample_world k) = ''/sdcard/.tmp/5.tmp''"
  by (simp_all add: rsp_file_def tmp_file_def sample_world_def able_env_def TEMPFILE_DIR_def show_nat.simps digit_def
      char_of_def bit_Suc_0_iff)

theorem playlist_reaches_device_witness:
  "\<exists>s' tf. gate_round sample_world (sample_system\<lparr>sys_queue := [power_on_message]\<rparr>) = Some (Some (2, True, s')) \<and>
     sys_online s' \<and> sys_queue s' = [] \<and> sys_job s' = Some (tf, 12)"
proof -
  let ?es = "[HTTP_EVENT_ON_HEADER ''X-Sequence-Number'' ''12'', HTTP_EVENT_ON_DATA
    (update_text [(''n'', JNumber 3)] ''playlist'' sample_members [(''tail'', JObject [])])]"
  have c: "client sample_world 1 = (\<lambda>_. (?es, Some 200))" by (simp add: sample_world_def)
  have s: "silent_at sample_world i" if "i < 1" for i
    using that by (simp add: silent_atI sample_world_def)
  have w: "writable (tmp sample_world (Suc 0)) (\<lambda>x. None)" by (simp add: writable_def sample_world_def)
  have a: "able (around sample_world 1)" using able_sample by (simp add: sample_world_def)
  have "atoi ''12'' = 12" by code_simp
  then have q: "sequence_of 0 ?es = 12" by simp
  have "\<exists>s' tf path. gate_round sample_world (sample_system\<lparr>sys_queue := [power_on_message]\<rparr>) = Some (Some (Suc 1, True, s')) \<and>
    sys_online s' \<and> sys_queue s' = [] \<and> sys_job s' = Some (tf, sequence_of 0 ?es) \<and> tf_path tf = Ptr path \<and>
    sys_files s' = (sys_files (sample_system\<lparr>sys_queue := [power_on_message]\<rparr>))
      (path \<mapsto> print_value (JObject sample_members))"
    by (rule playlist_reaches_device [where msg = power_on_message, OF _ _ _ _ _ s c _ _ sample_message a])
       (simp_all add: can_post_fresh power_on_message_fields good_status_def w sample_paths)
  then show ?thesis unfolding q by auto
qed

theorem gate_bounded_witness:
  "\<exists>n ok s'. send_loop sample_world 0 0 power_on_message sample_system = Some (n, ok, s') \<and> 0 < n \<and> n \<le> 1"
proof -
  have "silent_at sample_world 0" by (simp add: silent_atI sample_world_def)
  from silent_attempt [of sample_system sample_world 0 power_on_message] this can_post_fresh obtain n where
    "gate_attempt sample_world 0 power_on_message sample_system =
      Some (False, sample_system\<lparr>sys_nvs := n, sys_online := False\<rparr>)"
    by (auto simp: power_on_message_fields)
  then have "send_loop sample_world 0 0 power_on_message sample_system =
      Some (1, False, sample_system\<lparr>sys_nvs := n, sys_online := False\<rparr>)" by simp
  with gate_bounded [OF this] show ?thesis by auto
qed

section \<open>The restart command\<close>

text \<open>
  The device restarts on command without the server having its acknowledgement: with an empty
  queue, one attempt that fails is enough, since the acknowledgement asks for no retries and the callback
  of the restart does not look at what it is told.
\<close>

theorem reboot_unacknowledged:
  assumes "can_post (sys_nvs s)" "printable_device (sys_device s)" "sys_queue s = []" "silent_at w 0"
  shows "\<exists>s' s''. incoming_command env (command_text ''reboot'' []) None seq s = Some (Some True, s') \<and>
    gate_round w s' = Some (Some (1, False, s'')) \<and> sys_restarted s'' \<and> sys_queue s'' = []"
proof -
  have c: "find_string ''command'' (command_text ''reboot'' []) = Some ''reboot''"
    by (rule simple_text) (simp add: c_text_ascii)
  have "c_text ''rebooting...''" by (simp add: c_text_ascii)
  with send_ack_queued [OF assms(2) this, of True seq "Some Reboot_Callback"] assms(3) obtain msg where
    m: "send_ack True seq ''rebooting...'' (Some Reboot_Callback) s = Some (s\<lparr>sys_queue := [msg]\<rparr>)"
    "max_retries msg = 0" "QueueMessage_t.callback msg = Some Reboot_Callback"
    by (auto simp: QUEUE_LENGTH_def)
  have i: "incoming_command env (command_text ''reboot'' []) None seq s = Some (Some True, s\<lparr>sys_queue := [msg]\<rparr>)"
    unfolding incoming_text [OF c] by (simp add: execute_def reboot_def m(1))
  from silent_attempt_callback [of "s\<lparr>sys_queue := []\<rparr>" w 0 msg] assms(1,4) obtain n where
    "gate_attempt w 0 msg (s\<lparr>sys_queue := []\<rparr>) = map_option (Pair False)
      (run_callback (Some Reboot_Callback) False (s\<lparr>sys_queue := [], sys_nvs := n, sys_online := False\<rparr>))"
    by (auto simp: m(3))
  then have "gate_round w (s\<lparr>sys_queue := [msg]\<rparr>) =
      Some (Some (1, False, sent_callback False (s\<lparr>sys_queue := [], sys_nvs := n, sys_online := False\<rparr>)))"
    by (simp add: gate_round_def queue_receive_def m(2) run_callback_def)
  with i show ?thesis by (auto simp: sent_callback_def)
qed

theorem reboot_unacknowledged_witness:
  "\<exists>s' s''. incoming_command able_env (command_text ''reboot'' []) None 5 sample_system = Some (Some True, s') \<and>
    gate_round sample_world s' = Some (Some (1, False, s'')) \<and> sys_restarted s''"
proof -
  have "silent_at sample_world 0" by (simp add: silent_atI sample_world_def)
  with reboot_unacknowledged [of sample_system sample_world able_env 5] show ?thesis
    using can_post_fresh printable_sample by auto
qed

end
