(* ===== verification/HttpdUri.thy ===== *)
theory HttpdUri
  imports Prelude
begin

text \<open>
  The routing of requests of \<open>src/esp-idf/components/esp_http_server/src/httpd_uri.c\<close>: how a URI is
  matched with the template of a handler, how handlers are registered and found. The table of handlers
  is the list of the entries before the first free one.
\<close>

section \<open>Matching\<close>

definition httpd_uri_match_simple :: "string \<Rightarrow> string \<Rightarrow> bool" where
  "httpd_uri_match_simple uri1 uri2 = (length uri1 = length uri2 \<and> take (length uri2) uri1 = take (length uri2) uri2)"

text \<open>The character \<open>k\<close> places before the end, NUL in a shorter template.\<close>

definition from_end :: "nat \<Rightarrow> string \<Rightarrow> char" where
  "from_end k t = (if length t > k then t ! (length t - 1 - k) else NUL)"

definition httpd_uri_match_wildcard :: "string \<Rightarrow> string \<Rightarrow> bool" where
  "httpd_uri_match_wildcard template uri =
     (let tpl_len = length template; len = length uri;
          last = from_end 0 template; prevlast = from_end 1 template;
          asterisk = (last = CHR ''*'' \<or> (prevlast = CHR ''*'' \<and> last = CHR ''?''));
          quest = (last = CHR ''?'' \<or> (prevlast = CHR ''?'' \<and> last = CHR ''*''));
          special = of_bool asterisk + of_bool quest * 2
      in if tpl_len < special then False
         else
           let exact_match_chars = tpl_len - special
           in if len < exact_match_chars then False
              else if \<not> quest then
                (if \<not> asterisk \<and> len \<noteq> exact_match_chars then False
                 else take exact_match_chars template = take exact_match_chars uri)
              else if len > exact_match_chars \<and> template ! exact_match_chars \<noteq> uri ! exact_match_chars then False
              else if take exact_match_chars template \<noteq> take exact_match_chars uri then False
              else asterisk \<or> len \<le> exact_match_chars + 1)"

section \<open>Handlers\<close>

datatype httpd_method = HTTP_GET | HTTP_POST

record 'h httpd_uri =
  uri :: string
  uri_method :: httpd_method
  handler :: 'h

datatype httpd_err = HTTPD_404_NOT_FOUND | HTTPD_405_METHOD_NOT_ALLOWED

text \<open>With the template matching that the firmware configures.\<close>

fun find_from :: "httpd_err \<Rightarrow> 'h httpd_uri list \<Rightarrow> string \<Rightarrow> httpd_method \<Rightarrow> httpd_err + 'h httpd_uri" where
  "find_from err [] u m = Inl err"
| "find_from err (h # hs) u m =
     (if httpd_uri_match_wildcard (uri h) u then
        (if uri_method h = m then Inr h else find_from HTTPD_405_METHOD_NOT_ALLOWED hs u m)
      else find_from err hs u m)"

definition httpd_find_uri_handler :: "'h httpd_uri list \<Rightarrow> string \<Rightarrow> httpd_method \<Rightarrow> httpd_err + 'h httpd_uri" where
  "httpd_find_uri_handler hd_calls u m = find_from HTTPD_404_NOT_FOUND hd_calls u m"

text \<open>The answer says whether the handler found a place; \<open>memory\<close> is the outcome of the
  allocation of the entry; the copy of its URI is taken to succeed.\<close>

definition httpd_register_uri_handler ::
  "nat \<Rightarrow> bool \<Rightarrow> 'h httpd_uri list \<Rightarrow> 'h httpd_uri \<Rightarrow> bool \<times> 'h httpd_uri list" where
  "httpd_register_uri_handler max_uri_handlers memory hd_calls h =
     (case httpd_find_uri_handler hd_calls (uri h) (uri_method h) of
        Inr _ \<Rightarrow> (False, hd_calls)
      | Inl _ \<Rightarrow>
          if length hd_calls < max_uri_handlers \<and> memory then (True, hd_calls @ [h]) else (False, hd_calls))"

section \<open>What the templates mean\<close>

text \<open>
  The meaning of a template by its ending: a star allows any rest, a question mark makes the character
  before it optional, both do both, and any other template stands for itself. A question mark without a
  character before it makes the template void.
\<close>

definition template_means :: "string \<Rightarrow> string \<Rightarrow> bool" where
  "template_means t u =
     (if t = ''?'' \<or> t = ''?*'' \<or> t = ''*?'' then False
      else if drop (length t - 2) t = ''?*'' \<or> drop (length t - 2) t = ''*?'' then
        u = take (length t - 3) t \<or> starts_with (take (length t - 2) t) u
      else if drop (length t - 1) t = ''*'' then starts_with (butlast t) u
      else if drop (length t - 1) t = ''?'' then u = take (length t - 2) t \<or> u = butlast t
      else u = t)"

lemma from_end_snoc:
  "from_end 0 (p @ [x]) = x" "from_end (Suc 0) (p @ [y, x]) = y" "from_end (Suc 0) [x] = NUL"
  "from_end k [] = NUL"
  by (simp_all add: from_end_def nth_append)

lemma wildcard_short:
  "length t < 3 \<Longrightarrow> httpd_uri_match_wildcard t u \<longleftrightarrow> template_means t u"
proof -
  assume "length t < 3"
  then consider "t = []" | x where "t = [x]" | y x where "t = [y, x]"
    by (cases t; cases "tl t") (auto simp: length_Suc_conv less_Suc_eq)
  then show ?thesis
  proof cases
    case 1
    then show ?thesis by (simp add: httpd_uri_match_wildcard_def template_means_def Let_def from_end_snoc)
  next
    case 2
    then show ?thesis
      using from_end_snoc(1) [of "[]" x]
      by (auto simp: httpd_uri_match_wildcard_def template_means_def Let_def from_end_snoc starts_with_def length_Suc_conv)
  next
    case 3
    then show ?thesis
      using from_end_snoc(1) [of "[y]" x] from_end_snoc(2) [of "[]" y x]
      by (cases u; cases "tl u") (auto simp: httpd_uri_match_wildcard_def template_means_def Let_def starts_with_def)
  qed
qed

lemma optional_char:
  "\<not> length u < length q \<and> \<not> (length q < length u \<and> y \<noteq> u ! length q) \<and> q = take (length q) u \<and>
     length u \<le> Suc (length q) \<longleftrightarrow> u = q \<or> u = q @ [y]"
proof
  assume a: "\<not> length u < length q \<and> \<not> (length q < length u \<and> y \<noteq> u ! length q) \<and> q = take (length q) u \<and>
     length u \<le> Suc (length q)"
  show "u = q \<or> u = q @ [y]"
  proof (cases "length q < length u")
    case True
    then have "take (Suc (length q)) u = take (length q) u @ [u ! length q]" by (rule take_Suc_conv_app_nth)
    moreover have "take (Suc (length q)) u = u" using a by simp
    moreover have "u ! length q = y" "take (length q) u = q" using a True by auto
    ultimately show ?thesis by simp
  next
    case False
    have "q = take (length q) u" using a by blast
    also have "\<dots> = u" using False by simp
    finally show ?thesis by simp
  qed
qed auto

lemma prefix_char:
  "\<not> length u < length p \<and> \<not> (length p < length u \<and> c \<noteq> u ! length p) \<and> p = take (length p) u \<longleftrightarrow>
     u = p \<or> starts_with (p @ [c]) u"
proof (cases "length p < length u")
  case True
  then have "take (Suc (length p)) u = take (length p) u @ [u ! length p]" by (rule take_Suc_conv_app_nth)
  with True show ?thesis by (auto simp: starts_with_def)
next
  case False
  then show ?thesis by (auto simp: starts_with_def)
qed

lemma from_end_three: "from_end 0 (p @ [c, y, x]) = x" "from_end 1 (p @ [c, y, x]) = y"
  using from_end_snoc(1) [of "p @ [c, y]" x] from_end_snoc(2) [of "p @ [c]" y x] by simp_all

lemma wildcard_three:
  "httpd_uri_match_wildcard (p @ [c, y, x]) u \<longleftrightarrow>
     (if x = CHR ''*'' \<and> y = CHR ''?'' \<or> x = CHR ''?'' \<and> y = CHR ''*'' then
        \<not> length u < length p \<and> \<not> (length p < length u \<and> c \<noteq> u ! length p) \<and> p = take (length p) u
      else if x = CHR ''*'' then p @ [c, y] = take (Suc (Suc (length p))) u
      else if x = CHR ''?'' then
        \<not> length u < length (p @ [c]) \<and> \<not> (length (p @ [c]) < length u \<and> y \<noteq> u ! length (p @ [c])) \<and>
        p @ [c] = take (length (p @ [c])) u \<and> length u \<le> Suc (length (p @ [c]))
      else u = p @ [c, y, x])"
  (is "?l = ?r")
proof -
  have n: "(p @ [c, y, x]) ! length p = c" "(p @ [c, y, x]) ! Suc (length p) = y"
    "take (length p) (p @ [c, y, x]) = p" "take (Suc (length p)) (p @ [c, y, x]) = p @ [c]"
    "take (Suc (Suc (length p))) (p @ [c, y, x]) = p @ [c, y]" for x by (simp_all add: nth_append)
  consider "x = CHR ''*''" "y = CHR ''?''" | "x = CHR ''?''" "y = CHR ''*''" | "x = CHR ''*''" "y \<noteq> CHR ''?''"
    | "x = CHR ''?''" "y \<noteq> CHR ''*''" | "x \<noteq> CHR ''*''" "x \<noteq> CHR ''?''" by blast
  then show ?thesis
  proof cases
    case 1
    then show ?thesis unfolding httpd_uri_match_wildcard_def from_end_three Let_def by (simp add: n)
  next
    case 2
    then show ?thesis unfolding httpd_uri_match_wildcard_def from_end_three Let_def by (simp add: n)
  next
    case 3
    then have "?l \<longleftrightarrow> \<not> length u < Suc (Suc (length p)) \<and> p @ [c, y] = take (Suc (Suc (length p))) u"
      unfolding httpd_uri_match_wildcard_def from_end_three Let_def by (simp add: n)
    moreover have "p @ [c, y] = take (Suc (Suc (length p))) u \<Longrightarrow> \<not> length u < Suc (Suc (length p))"
      by (drule arg_cong [where f = length]) simp
    ultimately show ?thesis using 3 by auto
  next
    case 4
    then have "?l \<longleftrightarrow> \<not> length u < Suc (length p) \<and> \<not> (Suc (length p) < length u \<and> y \<noteq> u ! Suc (length p)) \<and>
        p @ [c] = take (Suc (length p)) u \<and> length u \<le> Suc (Suc (length p))"
      unfolding httpd_uri_match_wildcard_def from_end_three Let_def by (simp add: n)
    with 4 show ?thesis by simp
  next
    case 5
    then have "?l \<longleftrightarrow> length u = length (p @ [c, y, x]) \<and> p @ [c, y, x] = take (length (p @ [c, y, x])) u"
      unfolding httpd_uri_match_wildcard_def from_end_three Let_def by auto
    with 5 show ?thesis by auto
  qed
qed

lemma wildcard_long:
  "httpd_uri_match_wildcard (p @ [c, y, x]) u \<longleftrightarrow> template_means (p @ [c, y, x]) u"
proof -
  have "take (length p) (p @ [c, y, x]) = p" "take (Suc (length p)) (p @ [c, y, x]) = p @ [c]"
    "drop (Suc (length p)) (p @ [c, y, x]) = [y, x]" "drop (Suc (Suc (length p))) (p @ [c, y, x]) = [x]"
    "butlast (p @ [c, y, x]) = p @ [c, y]" by (simp_all add: butlast_append)
  then have "template_means (p @ [c, y, x]) u \<longleftrightarrow>
     (if x = CHR ''*'' \<and> y = CHR ''?'' \<or> x = CHR ''?'' \<and> y = CHR ''*'' then u = p \<or> starts_with (p @ [c]) u
      else if x = CHR ''*'' then starts_with (p @ [c, y]) u
      else if x = CHR ''?'' then u = p @ [c] \<or> u = p @ [c, y]
      else u = p @ [c, y, x])"
    by (simp add: template_means_def) auto
  then show ?thesis
    unfolding wildcard_three prefix_char optional_char by (simp add: starts_with_def eq_commute)
qed

lemma wildcard_meaning: "httpd_uri_match_wildcard t u \<longleftrightarrow> template_means t u"
proof (cases "length t < 3")
  case True
  then show ?thesis by (rule wildcard_short)
next
  case False
  then obtain p c y x where "t = p @ [c, y, x]"
    by (metis append.assoc append_Cons append_Nil length_0_conv length_append_singleton less_Suc_eq
        numeral_3_eq_3 rev_exhaust zero_less_Suc)
  then show ?thesis by (simp add: wildcard_long)
qed

text \<open>
  The matching of the server is what its templates mean, for every template and every URI.
\<close>

theorem uri_match_meaning: "httpd_uri_match_wildcard t u \<longleftrightarrow> template_means t u"
  by (rule wildcard_meaning)

end
