(* ===== verification/CJsonParse.thy ===== *)
theory CJsonParse
  imports CJson
begin

unbundle bit_operations_syntax

text \<open>
  The parser of \<open>src/esp-idf/components/json/cJSON/cJSON.c\<close>, with which the web interface reads its
  requests. The buffer is what is left of the text; its end stands for the terminating NUL, which
  \<open>buffer_skip_whitespace\<close> never leaves behind. The nesting that is still allowed goes down where
  the field \<open>depth\<close> goes up. The value of a number is what \<open>strtod\<close> makes of its digits, rounded towards
  zero: the parameter \<open>num\<close>, with any integer out of the range of an \<open>int\<close> for a number that is. Memory is
  never short.
\<close>

section \<open>Strings\<close>

text \<open>The value of a digit, None for another character.\<close>

definition hex_value :: "char \<Rightarrow> nat option" where
  "hex_value c =
     (let n = of_char c :: nat
      in if 48 \<le> n \<and> n \<le> 57 then Some (n - 48)
         else if 65 \<le> n \<and> n \<le> 70 then Some (10 + n - 65)
         else if 97 \<le> n \<and> n \<le> 102 then Some (10 + n - 97)
         else None)"

text \<open>Of the first four characters; 0 when one of them is not a digit.\<close>

fun parse_hex :: "nat \<Rightarrow> nat \<Rightarrow> string \<Rightarrow> nat" where
  "parse_hex 0 h input = h"
| "parse_hex (Suc n) h [] = 0"
| "parse_hex (Suc n) h (c # input) =
     (case hex_value c of
        None \<Rightarrow> 0
      | Some d \<Rightarrow> parse_hex n (if n > 0 then push_bit 4 (h + d) else h + d) input)"

definition parse_hex4 :: "string \<Rightarrow> nat" where
  "parse_hex4 input = parse_hex 4 0 input"

text \<open>The bytes of a code point, the last first; \<open>mark\<close> is the mark of the first byte.\<close>

definition utf8_tail :: "nat \<Rightarrow> char" where
  "utf8_tail codepoint = char_of ((codepoint OR 0x80) AND 0xBF)"

definition utf8_bytes :: "nat \<Rightarrow> string option" where
  "utf8_bytes cp =
     (if cp < 0x80 then Some [char_of (cp AND 0x7F)]
      else if cp < 0x800 then Some [char_of ((drop_bit 6 cp OR 0xC0) AND 0xFF), utf8_tail cp]
      else if cp < 0x10000 then
        Some [char_of ((drop_bit 12 cp OR 0xE0) AND 0xFF), utf8_tail (drop_bit 6 cp), utf8_tail cp]
      else if cp \<le> 0x10FFFF then
        Some [char_of ((drop_bit 18 cp OR 0xF0) AND 0xFF), utf8_tail (drop_bit 12 cp), utf8_tail (drop_bit 6 cp),
              utf8_tail cp]
      else None)"

text \<open>
  \<open>input\<close> runs from the backslash to the end of the literal. The bytes written and the length of the
  sequence, None where the code answers 0.
\<close>

definition utf16_literal_to_utf8 :: "string \<Rightarrow> (string \<times> nat) option" where
  "utf16_literal_to_utf8 input =
     (if length input < 6 then None
      else
        (let first_code = parse_hex4 (drop 2 input)
         in if first_code \<ge> 0xDC00 \<and> first_code \<le> 0xDFFF then None
            else if first_code \<ge> 0xD800 \<and> first_code \<le> 0xDBFF then
              (let second_sequence = drop 6 input
               in if length second_sequence < 6 then None
                  else if second_sequence ! 0 \<noteq> CHR 0x5C \<or> second_sequence ! 1 \<noteq> CHR ''u'' then None
                  else
                    (let second_code = parse_hex4 (drop 2 second_sequence)
                     in if second_code < 0xDC00 \<or> second_code > 0xDFFF then None
                        else map_option (\<lambda>t. (t, 12))
                          (utf8_bytes (0x10000 + (push_bit 10 (first_code AND 0x3FF) OR (second_code AND 0x3FF))))))
            else map_option (\<lambda>t. (t, 6)) (utf8_bytes first_code)))"

text \<open>The literal up to its closing quote, and what follows the quote; a backslash hides the next character.\<close>

fun string_literal :: "string \<Rightarrow> (string \<times> string) option" where
  "string_literal [] = None"
| "string_literal (c # cs) =
     (if c = CHR 0x22 then Some ([], cs)
      else if c = CHR 0x5C then
        (case cs of [] \<Rightarrow> None | d # ds \<Rightarrow> map_option (\<lambda>(l, r). (c # d # l, r)) (string_literal ds))
      else map_option (\<lambda>(l, r). (c # l, r)) (string_literal cs))"

definition simple_escape :: "char \<Rightarrow> char option" where
  "simple_escape c =
     (if c = CHR ''b'' then Some (CHR 0x08)
      else if c = CHR ''f'' then Some (CHR 0x0C)
      else if c = CHR ''n'' then Some (CHR 0x0A)
      else if c = CHR ''r'' then Some (CHR 0x0D)
      else if c = CHR ''t'' then Some (CHR 0x09)
      else if c = CHR 0x22 \<or> c = CHR 0x5C \<or> c = CHR ''/'' then Some c
      else None)"

text \<open>
  The loop over the literal. A code sequence takes six or twelve characters whatever they are, so it can
  leave a backslash as the last one; the character after it is then the closing quote.
\<close>

function unescape :: "string \<Rightarrow> string option" where
  "unescape [] = Some []"
| "unescape (c # cs) =
     (if c \<noteq> CHR 0x5C then map_option (Cons c) (unescape cs)
      else
        (case cs of
           [] \<Rightarrow> Some [CHR 0x22]
         | d # ds \<Rightarrow>
             (case simple_escape d of
                Some e \<Rightarrow> map_option (Cons e) (unescape ds)
              | None \<Rightarrow>
                  if d = CHR ''u'' then
                    (case utf16_literal_to_utf8 (c # cs) of
                       None \<Rightarrow> None
                     | Some (t, n) \<Rightarrow> map_option (append t) (unescape (drop (n - 1) cs)))
                  else None)))"
  by pat_completeness auto
termination
  by (relation "measure length") auto

declare unescape.simps [simp del]

definition parse_string :: "string \<Rightarrow> (string \<times> string) option" where
  "parse_string t =
     (case t of
        [] \<Rightarrow> None
      | c # cs \<Rightarrow>
          if c \<noteq> CHR 0x22 then None
          else
            (case string_literal cs of
               None \<Rightarrow> None
             | Some (lit, r) \<Rightarrow> map_option (\<lambda>s. (s, r)) (unescape lit)))"

section \<open>Numbers\<close>

definition number_char :: "char \<Rightarrow> bool" where
  "number_char c = (is_digit_char c \<or> c = CHR ''+'' \<or> c = CHR ''-'' \<or> c = CHR ''e'' \<or> c = CHR ''E'' \<or> c = CHR ''.'')"

text \<open>How many characters \<open>strtod\<close> takes of a text of such characters.\<close>

definition sign_length :: "string \<Rightarrow> nat" where
  "sign_length s = (case s of c # _ \<Rightarrow> of_bool (c = CHR ''+'' \<or> c = CHR ''-'') | [] \<Rightarrow> 0)"

definition digits_length :: "string \<Rightarrow> nat" where
  "digits_length s = length (takeWhile is_digit_char s)"

definition exponent_length :: "string \<Rightarrow> nat" where
  "exponent_length s =
     (case s of
        c # s' \<Rightarrow>
          if c = CHR ''e'' \<or> c = CHR ''E'' then
            (let g = sign_length s'; d = digits_length (drop g s') in if d = 0 then 0 else 1 + g + d)
          else 0
      | [] \<Rightarrow> 0)"

definition fraction_length :: "string \<Rightarrow> nat" where
  "fraction_length s = (case s of c # s' \<Rightarrow> if c = CHR ''.'' then 1 + digits_length s' else 0 | [] \<Rightarrow> 0)"

definition strtod_length :: "string \<Rightarrow> nat" where
  "strtod_length s =
     (let g = sign_length s; d = digits_length (drop g s); f = fraction_length (drop (g + d) s)
      in if d = 0 \<and> f \<le> 1 then 0 else g + d + f + exponent_length (drop (g + d + f) s))"

definition parse_number :: "(string \<Rightarrow> int) \<Rightarrow> string \<Rightarrow> (json \<times> string) option" where
  "parse_number num t =
     (let number_c_string = take 63 (takeWhile number_char t); n = strtod_length number_c_string
      in if n = 0 then None else Some (JNumber (num (take n number_c_string)), drop n t))"

text \<open>The member \<open>valueint\<close> of a number.\<close>

definition valueint :: "int \<Rightarrow> int" where
  "valueint number =
     (if number \<ge> 2147483647 then 2147483647 else if number \<le> - 2147483648 then - 2147483648 else number)"

section \<open>Values\<close>

definition buffer_skip_whitespace :: "string \<Rightarrow> string" where
  "buffer_skip_whitespace = dropWhile (\<lambda>c. (of_char c :: nat) \<le> 32)"

definition skip_utf8_bom :: "string \<Rightarrow> string" where
  "skip_utf8_bom t = (if length t \<ge> 4 \<and> starts_with [CHR 0xEF, CHR 0xBB, CHR 0xBF] t then drop 3 t else t)"

text \<open>
  The elements after the opening bracket or a comma, by the parser of a value; \<open>fuel\<close> bounds their number.
\<close>

fun parse_elements :: "nat \<Rightarrow> (string \<Rightarrow> (json \<times> string) option) \<Rightarrow> string \<Rightarrow> (json list \<times> string) option" where
  "parse_elements 0 pv t = None"
| "parse_elements (Suc fuel) pv t =
     (case pv (buffer_skip_whitespace t) of
        None \<Rightarrow> None
      | Some (v, r) \<Rightarrow>
          (case buffer_skip_whitespace r of
             [] \<Rightarrow> None
           | c # r' \<Rightarrow>
               if c = CHR '','' then map_option (\<lambda>(vs, r''). (v # vs, r'')) (parse_elements fuel pv r')
               else if c = CHR '']'' then Some ([v], r')
               else None))"

definition parse_array :: "(string \<Rightarrow> (json \<times> string) option) \<Rightarrow> string \<Rightarrow> (json \<times> string) option" where
  "parse_array pv t =
     (let r = buffer_skip_whitespace (tl t)
      in if starts_with '']'' r then Some (JArray [], tl r)
         else map_option (\<lambda>(vs, r'). (JArray vs, r')) (parse_elements (Suc (length r)) pv r))"

fun parse_members ::
  "nat \<Rightarrow> (string \<Rightarrow> (json \<times> string) option) \<Rightarrow> string \<Rightarrow> ((string \<times> json) list \<times> string) option" where
  "parse_members 0 pv t = None"
| "parse_members (Suc fuel) pv t =
     (case parse_string (buffer_skip_whitespace t) of
        None \<Rightarrow> None
      | Some (k, r0) \<Rightarrow>
          (case buffer_skip_whitespace r0 of
             [] \<Rightarrow> None
           | c0 # r1 \<Rightarrow>
               if c0 \<noteq> CHR '':'' then None
               else
                 (case pv (buffer_skip_whitespace r1) of
                    None \<Rightarrow> None
                  | Some (v, r) \<Rightarrow>
                      (case buffer_skip_whitespace r of
                         [] \<Rightarrow> None
                       | c # r' \<Rightarrow>
                           if c = CHR '','' then map_option (\<lambda>(ms, r''). ((k, v) # ms, r'')) (parse_members fuel pv r')
                           else if c = CHR ''}'' then Some ([(k, v)], r')
                           else None))))"

definition parse_object :: "(string \<Rightarrow> (json \<times> string) option) \<Rightarrow> string \<Rightarrow> (json \<times> string) option" where
  "parse_object pv t =
     (let r = buffer_skip_whitespace (tl t)
      in if starts_with ''}'' r then Some (JObject [], tl r)
         else map_option (\<lambda>(ms, r'). (JObject ms, r')) (parse_members (Suc (length r)) pv r))"

fun parse_value :: "(string \<Rightarrow> int) \<Rightarrow> nat \<Rightarrow> string \<Rightarrow> (json \<times> string) option" where
  "parse_value num left t =
     (if starts_with ''null'' t then Some (JNull, drop 4 t)
      else if starts_with ''false'' t then Some (JBool False, drop 5 t)
      else if starts_with ''true'' t then Some (JBool True, drop 4 t)
      else
        (case t of
           [] \<Rightarrow> None
         | c # _ \<Rightarrow>
             if c = CHR 0x22 then map_option (\<lambda>(s, r). (JString s, r)) (parse_string t)
             else if c = CHR ''-'' \<or> is_digit_char c then parse_number num t
             else if c = CHR ''['' then
               (case left of 0 \<Rightarrow> None | Suc n \<Rightarrow> parse_array (\<lambda>t. parse_value num n t) t)
             else if c = CHR ''{'' then
               (case left of 0 \<Rightarrow> None | Suc n \<Rightarrow> parse_object (\<lambda>t. parse_value num n t) t)
             else None))"

declare parse_value.simps [simp del]

definition CJSON_NESTING_LIMIT :: nat where
  "CJSON_NESTING_LIMIT = 1000"

definition cJSON_ParseWithOpts :: "(string \<Rightarrow> int) \<Rightarrow> string \<Rightarrow> bool \<Rightarrow> json option" where
  "cJSON_ParseWithOpts num value require_null_terminated =
     (case parse_value num CJSON_NESTING_LIMIT (buffer_skip_whitespace (skip_utf8_bom (cstr value))) of
        None \<Rightarrow> None
      | Some (item, r) \<Rightarrow>
          if require_null_terminated \<and> buffer_skip_whitespace r \<noteq> [] then None else Some item)"

definition cJSON_Parse :: "(string \<Rightarrow> int) \<Rightarrow> string \<Rightarrow> json option" where
  "cJSON_Parse num value = cJSON_ParseWithOpts num value False"

text \<open>
  The member of an object with a name, by the first that has it. Items of an array have no name, and other
  items no children.
\<close>

fun find_member :: "string \<Rightarrow> (string \<times> json) list \<Rightarrow> json option" where
  "find_member name [] = None"
| "find_member name ((k, v) # ms) = (if cstr k = cstr name then Some v else find_member name ms)"

definition cJSON_GetObjectItemCaseSensitive :: "json \<Rightarrow> string \<Rightarrow> json option" where
  "cJSON_GetObjectItemCaseSensitive v name = (case v of JObject ms \<Rightarrow> find_member name ms | _ \<Rightarrow> None)"

text \<open>
  Into a buffer of \<open>len\<close> bytes. Every step asks \<open>ensure\<close> for its characters and two bytes more, at most,
  and the last step does, so the value is printed when the whole text and two bytes fit.
\<close>

definition cJSON_PrintPreallocated :: "json \<Rightarrow> nat \<Rightarrow> string option" where
  "cJSON_PrintPreallocated item len =
     (let s = print_value item in if length s + 2 \<le> len then Some s else None)"

section \<open>The bound on the number of elements\<close>

text \<open>Every value takes a character at least, so a bound above the length of the text is never met.\<close>

definition shortens :: "(string \<Rightarrow> (json \<times> string) option) \<Rightarrow> bool" where
  "shortens pv = (\<forall>t v r. pv t = Some (v, r) \<longrightarrow> length r < length t)"

lemma skip_not_longer: "length (buffer_skip_whitespace t) \<le> length t"
  unfolding buffer_skip_whitespace_def by (rule length_dropWhile_le)

lemma skip_Cons: "buffer_skip_whitespace r = c # r' \<Longrightarrow> length r' < length r"
  using skip_not_longer [of r] by simp

lemma string_literal_shorter: "string_literal t = Some (l, r) \<Longrightarrow> length r < length t"
proof (induction t arbitrary: l rule: string_literal.induct)
  case (2 c cs)
  then show ?case by (auto split: if_splits list.splits) force+
qed simp

lemma parse_string_shorter: "parse_string t = Some (s, r) \<Longrightarrow> length r < length t"
  by (auto simp: parse_string_def split: list.splits if_splits option.splits dest!: string_literal_shorter)

lemma parse_elements_shorter:
  "shortens pv \<Longrightarrow> parse_elements fuel pv t = Some (vs, r) \<Longrightarrow> length r < length t"
proof (induction fuel pv t arbitrary: vs rule: parse_elements.induct)
  case (2 fuel pv t)
  from 2(3) obtain v r1 c r2 where s: "pv (buffer_skip_whitespace t) = Some (v, r1)"
    "buffer_skip_whitespace r1 = c # r2"
    "c = CHR '','' \<and> (\<exists>vs. parse_elements fuel pv r2 = Some (vs, r)) \<or> r = r2"
    by (auto split: option.splits list.splits if_splits)
  have "length r1 < length t"
    using 2(2) s(1) skip_not_longer [of t] by (fastforce simp: shortens_def)
  moreover have "length r2 < length r1" using s(2) by (rule skip_Cons)
  moreover have "length r \<le> length r2" using s(3) 2(1) [OF s(1) refl s(2) _ 2(2)] by fastforce
  ultimately show ?case by simp
qed simp

lemma parse_members_shorter:
  "shortens pv \<Longrightarrow> parse_members fuel pv t = Some (ms, r) \<Longrightarrow> length r < length t"
proof (induction fuel pv t arbitrary: ms rule: parse_members.induct)
  case (2 fuel pv t)
  from 2(3) obtain k r0 c0 r1 v r2 c r3 where s: "parse_string (buffer_skip_whitespace t) = Some (k, r0)"
    "buffer_skip_whitespace r0 = c0 # r1" "c0 = CHR '':''" "pv (buffer_skip_whitespace r1) = Some (v, r2)"
    "buffer_skip_whitespace r2 = c # r3"
    "c = CHR '','' \<and> (\<exists>ms. parse_members fuel pv r3 = Some (ms, r)) \<or> r = r3"
    by (auto split: option.splits list.splits if_splits)
  have "length r0 < length t" using parse_string_shorter [OF s(1)] skip_not_longer [of t] by simp
  moreover have "length r1 < length r0" using s(2) by (rule skip_Cons)
  moreover have "length r2 < length r1"
    using 2(2) s(4) skip_not_longer [of r1] by (fastforce simp: shortens_def)
  moreover have "length r3 < length r2" using s(5) by (rule skip_Cons)
  moreover have "length r \<le> length r3"
    using s(6) 2(1) [OF s(1) refl s(2) _ s(4) refl s(5) _ 2(2)] s(3) by fastforce
  ultimately show ?case by simp
qed simp

lemma parse_array_shorter:
  assumes "shortens pv" "t \<noteq> []" "parse_array pv t = Some (v, r)"
  shows "length r < length t"
proof -
  let ?r = "buffer_skip_whitespace (tl t)"
  have l: "length ?r < length t" using skip_not_longer [of "tl t"] assms(2) by (cases t) auto
  show ?thesis
  proof (cases "starts_with '']'' ?r")
    case True
    with assms(3) l show ?thesis by (auto simp: parse_array_def Let_def)
  next
    case False
    with assms(3) obtain vs where "parse_elements (Suc (length ?r)) pv ?r = Some (vs, r)"
      by (auto simp: parse_array_def Let_def simp del: parse_elements.simps)
    from parse_elements_shorter [OF assms(1) this] l show ?thesis by simp
  qed
qed

lemma parse_object_shorter:
  assumes "shortens pv" "t \<noteq> []" "parse_object pv t = Some (v, r)"
  shows "length r < length t"
proof -
  let ?r = "buffer_skip_whitespace (tl t)"
  have l: "length ?r < length t" using skip_not_longer [of "tl t"] assms(2) by (cases t) auto
  show ?thesis
  proof (cases "starts_with ''}'' ?r")
    case True
    with assms(3) l show ?thesis by (auto simp: parse_object_def Let_def)
  next
    case False
    with assms(3) obtain ms where "parse_members (Suc (length ?r)) pv ?r = Some (ms, r)"
      by (auto simp: parse_object_def Let_def simp del: parse_members.simps)
    from parse_members_shorter [OF assms(1) this] l show ?thesis by simp
  qed
qed

lemma parse_number_shorter: "parse_number num (c # t) = Some (v, r) \<Longrightarrow> length r < length (c # t)"
  by (auto simp: parse_number_def Let_def split: if_splits)

lemma starts_with_shorter: "starts_with (c # p) t \<Longrightarrow> length (drop (Suc n) t) < length t"
  by (cases t) (auto simp: starts_with_def)

lemma parse_value_other:
  assumes "\<not> starts_with ''null'' t" "\<not> starts_with ''false'' t" "\<not> starts_with ''true'' t"
    and "parse_value num left t = Some (v, r)"
  shows "(\<exists>s. parse_string t = Some (s, r)) \<or> t \<noteq> [] \<and> parse_number num t = Some (v, r) \<or>
    (\<exists>n. left = Suc n \<and> t \<noteq> [] \<and> (parse_array (parse_value num n) t = Some (v, r) \<or> parse_object (parse_value num n) t = Some (v, r)))"
  using assms(4) unfolding parse_value.simps [of num left t] if_not_P [OF assms(1)] if_not_P [OF assms(2)] if_not_P [OF assms(3)]
  by (auto split: list.splits if_splits nat.splits)

lemma parse_value_shortens: "shortens (parse_value num left)"
proof (induction left rule: nat_less_induct)
  case (1 left)
  have "length r < length t" if p: "parse_value num left t = Some (v, r)" for t v r
  proof -
    consider "starts_with ''null'' t \<and> r = drop 4 t" | "starts_with ''false'' t \<and> r = drop 5 t"
      | "starts_with ''true'' t \<and> r = drop 4 t"
      | "\<not> starts_with ''null'' t" "\<not> starts_with ''false'' t" "\<not> starts_with ''true'' t"
      using p unfolding parse_value.simps [of num left t] by (auto split: if_splits)
    then show ?thesis
    proof cases
      case 4
      from parse_value_other [OF this p] 1 show ?thesis
        by (cases t) (auto dest!: parse_string_shorter parse_number_shorter parse_array_shorter [rotated 2]
            parse_object_shorter [rotated 2])
    qed (auto dest: starts_with_shorter [of _ _ _ 3] starts_with_shorter [of _ _ _ 4] simp: numeral_eq_Suc)
  qed
  then show ?case by (simp add: shortens_def)
qed

lemma parse_elements_fuel:
  "shortens pv \<Longrightarrow> length t < m \<Longrightarrow> length t < n \<Longrightarrow> parse_elements m pv t = parse_elements n pv t"
proof (induction m pv t arbitrary: n rule: parse_elements.induct)
  case (2 m pv t)
  then obtain k where k: "n = Suc k" by (cases n) auto
  have e: "parse_elements m pv r' = parse_elements k pv r'"
    if r: "pv (buffer_skip_whitespace t) = Some (v, r)" "buffer_skip_whitespace r = CHR '','' # r'" for v r r'
  proof (rule 2(1) [OF r(1) refl r(2) refl 2(2)])
    have "length r < length t" using 2(2) r(1) skip_not_longer [of t] by (fastforce simp: shortens_def)
    with skip_Cons [OF r(2)] 2(3,4) k show "length r' < m" "length r' < k" by simp_all
  qed
  then show ?case by (auto simp: k split: option.splits list.splits)
qed simp

text \<open>The equation of the loop of the source, without a bound.\<close>

lemma parse_elements_loop:
  assumes "shortens pv" "length t < fuel"
  shows "parse_elements fuel pv t =
    (case pv (buffer_skip_whitespace t) of
       None \<Rightarrow> None
     | Some (v, r) \<Rightarrow>
         (case buffer_skip_whitespace r of
            [] \<Rightarrow> None
          | c # r' \<Rightarrow>
              if c = CHR '','' then map_option (\<lambda>(vs, r''). (v # vs, r'')) (parse_elements (Suc (length r')) pv r')
              else if c = CHR '']'' then Some ([v], r')
              else None))"
proof -
  obtain k where k: "fuel = Suc k" using assms(2) by (cases fuel) auto
  have "parse_elements k pv r' = parse_elements (Suc (length r')) pv r'"
    if "pv (buffer_skip_whitespace t) = Some (v, r)" "buffer_skip_whitespace r = c # r'" for v r c r'
  proof (rule parse_elements_fuel [OF assms(1)])
    have "length r < length t" using assms(1) that(1) skip_not_longer [of t] by (fastforce simp: shortens_def)
    with skip_Cons [OF that(2)] assms(2) k show "length r' < k" by simp
  qed simp
  then show ?thesis by (auto simp: k split: option.splits list.splits)
qed

lemma parse_members_fuel:
  "shortens pv \<Longrightarrow> length t < m \<Longrightarrow> length t < n \<Longrightarrow> parse_members m pv t = parse_members n pv t"
proof (induction m pv t arbitrary: n rule: parse_members.induct)
  case (2 m pv t)
  then obtain k where k: "n = Suc k" by (cases n) auto
  have e: "parse_members m pv r' = parse_members k pv r'"
    if r: "parse_string (buffer_skip_whitespace t) = Some (key, r0)" "buffer_skip_whitespace r0 = CHR '':'' # r1"
      "pv (buffer_skip_whitespace r1) = Some (v, r)" "buffer_skip_whitespace r = CHR '','' # r'" for key r0 r1 v r r'
  proof (rule 2(1) [OF r(1) refl r(2) _ r(3) refl r(4) refl 2(2)])
    have "length r0 < length t" using parse_string_shorter [OF r(1)] skip_not_longer [of t] by simp
    moreover have "length r < length r1" using 2(2) r(3) skip_not_longer [of r1] by (fastforce simp: shortens_def)
    ultimately show "length r' < m" "length r' < k"
      using skip_Cons [OF r(2)] skip_Cons [OF r(4)] 2(3,4) k by simp_all
  qed simp
  then show ?case by (auto simp: k split: option.splits list.splits)
qed simp

section \<open>Reading what was printed\<close>

text \<open>Strings without NUL and numbers that the printer writes and \<open>num\<close> reads exactly.\<close>

fun readable :: "(string \<Rightarrow> int) \<Rightarrow> json \<Rightarrow> bool"
  and readable_list :: "(string \<Rightarrow> int) \<Rightarrow> json list \<Rightarrow> bool"
  and readable_members :: "(string \<Rightarrow> int) \<Rightarrow> (string \<times> json) list \<Rightarrow> bool" where
  "readable num (JString s) = is_cstr s"
| "readable num (JArray vs) = readable_list num vs"
| "readable num (JObject ms) = readable_members num ms"
| "readable num (JNumber n) = (abs n < 10 ^ 15 \<and> num (show_int n) = n)"
| "readable num _ = True"
| "readable_list num [] = True"
| "readable_list num (v # vs) = (readable num v \<and> readable_list num vs)"
| "readable_members num [] = True"
| "readable_members num ((k, v) # ms) = (is_cstr k \<and> readable num v \<and> readable_members num ms)"

fun nesting :: "json \<Rightarrow> nat"
  and nesting_list :: "json list \<Rightarrow> nat"
  and nesting_members :: "(string \<times> json) list \<Rightarrow> nat" where
  "nesting (JArray vs) = Suc (nesting_list vs)"
| "nesting (JObject ms) = Suc (nesting_members ms)"
| "nesting _ = 0"
| "nesting_list [] = 0"
| "nesting_list (v # vs) = max (nesting v) (nesting_list vs)"
| "nesting_members [] = 0"
| "nesting_members ((k, v) # ms) = max (nesting v) (nesting_members ms)"

lemma string_literal_escape:
  "string_literal (escape c @ t) = map_option (\<lambda>(l, r). (escape c @ l, r)) (string_literal t)"
proof -
  have "hex_digit n \<noteq> CHR 0x22 \<and> hex_digit n \<noteq> CHR 0x5C" if "n < 16" for n
  proof -
    have "list_all (\<lambda>n. hex_digit n \<noteq> CHR 0x22 \<and> hex_digit n \<noteq> CHR 0x5C) [0..<16]" by code_simp
    with that show ?thesis by (simp add: list_all_iff)
  qed
  moreover have "(of_char c :: nat) div 16 < 16" "(of_char c :: nat) mod 16 < 16"
    using nat_of_char_less_256 [of c] by (simp_all add: less_mult_imp_div_less)
  ultimately have h: "hex_digit (of_char c div 16) \<noteq> CHR 0x22" "hex_digit (of_char c div 16) \<noteq> CHR 0x5C"
    "hex_digit (of_char c mod 16) \<noteq> CHR 0x22" "hex_digit (of_char c mod 16) \<noteq> CHR 0x5C" by blast+
  obtain a b where ab: "a = hex_digit (of_char c div 16)" "b = hex_digit (of_char c mod 16)" by blast
  have e: "escape c = (if (of_char c :: nat) > 31 \<and> c \<noteq> CHR 0x22 \<and> c \<noteq> CHR 0x5C then [c]
      else CHR 0x5C # (if c = CHR 0x5C \<or> c = CHR 0x22 then [c]
         else if c = CHR 0x08 then ''b'' else if c = CHR 0x0C then ''f'' else if c = CHR 0x0A then ''n''
         else if c = CHR 0x0D then ''r'' else if c = CHR 0x09 then ''t''
         else [CHR ''u'', CHR ''0'', CHR ''0'', a, b]))"
    unfolding escape_def ab ..
  show ?thesis
    unfolding e using h [folded ab] by (cases "string_literal t") (simp_all split: prod.splits)
qed

lemma string_literal_escapes:
  "string_literal (concat (map escape s) @ CHR 0x22 # r) = Some (concat (map escape s), r)"
  by (induction s) (simp_all add: string_literal_escape)

lemma parse_hex4_digits:
  assumes "hex_value a = Some w" "hex_value b = Some x" "hex_value c = Some y" "hex_value d = Some z"
  shows "parse_hex4 (a # b # c # d # r) = ((w * 16 + x) * 16 + y) * 16 + z"
proof -
  have step: "parse_hex (Suc n) h (e # t) = parse_hex n (if n > 0 then (h + v) * 16 else h + v) t"
    if "hex_value e = Some v" for n h e t v
    using that by (simp add: push_bit_eq_mult)
  have "parse_hex4 (a # b # c # d # r) = parse_hex (Suc (Suc (Suc (Suc 0)))) 0 (a # b # c # d # r)"
    unfolding parse_hex4_def by (rule arg_cong [where f = "\<lambda>n. parse_hex n 0 _"]) simp
  also have "\<dots> = ((w * 16 + x) * 16 + y) * 16 + z"
    by (simp only: step [OF assms(1)] step [OF assms(2)] step [OF assms(3)] step [OF assms(4)] parse_hex.simps(1)
        zero_less_Suc less_irrefl if_True if_False add_0)
  finally show ?thesis .
qed

lemma parse_hex4_control:
  assumes "n < 256"
  shows "parse_hex4 (CHR ''0'' # CHR ''0'' # hex_digit (n div 16) # hex_digit (n mod 16) # r) = n"
proof -
  have "hex_value (hex_digit k) = Some k" if "k < 16" for k
    using that by (auto simp: hex_value_def hex_digit_def Let_def)
  moreover have "n div 16 < 16" "n mod 16 < 16" using assms by auto
  ultimately have "hex_value (hex_digit (n div 16)) = Some (n div 16)" "hex_value (hex_digit (n mod 16)) = Some (n mod 16)"
    by blast+
  moreover have "hex_value CHR ''0'' = Some 0" by (simp add: hex_value_def)
  ultimately have "parse_hex4 (CHR ''0'' # CHR ''0'' # hex_digit (n div 16) # hex_digit (n mod 16) # r) =
      ((0 * 16 + 0) * 16 + n div 16) * 16 + n mod 16"
    by (intro parse_hex4_digits)
  then show ?thesis by simp
qed

lemma unescape_control:
  assumes "(of_char c :: nat) \<le> 31"
  shows "unescape (CHR 0x5C # CHR ''u'' # CHR ''0'' # CHR ''0'' # hex_digit (of_char c div 16) #
      hex_digit (of_char c mod 16) # t) = map_option (Cons c) (unescape t)"
proof -
  obtain a b where ab: "a = hex_digit (of_char c div 16)" "b = hex_digit (of_char c mod 16)" by blast
  have h: "parse_hex4 (CHR ''0'' # CHR ''0'' # a # b # t) = of_char c"
    unfolding ab by (rule parse_hex4_control) (rule nat_of_char_less_256)
  have "(of_char c :: nat) AND 0x7F = of_char c"
  proof -
    have "(of_char c :: nat) AND mask 7 = of_char c mod 2 ^ 7" by (rule take_bit_eq_mask [symmetric, unfolded take_bit_eq_mod])
    with assms show ?thesis by (simp add: mask_eq_exp_minus_1)
  qed
  then have "utf8_bytes (of_char c) = Some [c]" using assms by (simp add: utf8_bytes_def)
  with h assms have "utf16_literal_to_utf8 (CHR 0x5C # CHR ''u'' # CHR ''0'' # CHR ''0'' # a # b # t) = Some ([c], 6)"
    by (simp add: utf16_literal_to_utf8_def Let_def)
  then have "unescape (CHR 0x5C # CHR ''u'' # CHR ''0'' # CHR ''0'' # a # b # t) = map_option (Cons c) (unescape t)"
    by (subst unescape.simps) (simp add: simple_escape_def append_def)
  then show ?thesis by (simp only: ab)
qed

lemma unescape_escape: "unescape (escape c @ t) = map_option (Cons c) (unescape t)"
proof -
  consider (plain) "(of_char c :: nat) > 31" "c \<noteq> CHR 0x22" "c \<noteq> CHR 0x5C"
    | (short) "c \<in> {CHR 0x22, CHR 0x5C, CHR 0x08, CHR 0x0C, CHR 0x0A, CHR 0x0D, CHR 0x09}"
    | (code) "\<not> (of_char c :: nat) > 31" "c \<notin> {CHR 0x22, CHR 0x5C, CHR 0x08, CHR 0x0C, CHR 0x0A, CHR 0x0D, CHR 0x09}"
    by blast
  then show ?thesis
  proof cases
    case plain
    then have "escape c = [c]" by (simp add: escape_def)
    with plain show ?thesis by (simp add: unescape.simps)
  next
    case short
    then have "\<exists>d. escape c = [CHR 0x5C, d] \<and> simple_escape d = Some c"
      by (auto simp: escape_def simple_escape_def)
    then show ?thesis by (auto simp: unescape.simps)
  next
    case code
    then have e: "escape c = CHR 0x5C # CHR ''u'' # CHR ''0'' # CHR ''0'' # hex_digit (of_char c div 16) #
        hex_digit (of_char c mod 16) # []"
      unfolding escape_def by (simp only: insert_iff empty_iff de_Morgan_disj simp_thms if_False)
    from code(1) have "(of_char c :: nat) \<le> 31" by simp
    then show ?thesis unfolding e append_Cons append_Nil by (rule unescape_control)
  qed
qed

lemma unescape_escapes: "unescape (concat (map escape s)) = Some s"
proof (induction s)
  case Nil
  then show ?case by (simp add: unescape.simps)
next
  case (Cons c s)
  then show ?case by (simp add: unescape_escape)
qed

lemma parse_string_print:
  "is_cstr s \<Longrightarrow> parse_string (print_string_ptr s @ r) = Some (s, r)"
  by (simp add: parse_string_def print_string_ptr_def string_literal_escapes unescape_escapes)

lemma parse_number_print:
  assumes "abs n < 10 ^ 15" "num (show_int n) = n" "delim r"
  shows "parse_number num (show_int n @ r) = Some (JNumber n, r)"
proof -
  obtain k where k: "show_int n = (if n < 0 then ''-'' else []) @ show_nat k" "k < 10 ^ 15"
    using assms(1) by (cases "n < 0") (auto simp: show_int_def)
  have d: "list_all is_digit_char (show_nat k)" by (rule show_nat_digits)
  obtain c t where ct: "show_nat k = c # t" by (metis show_nat_nonempty neq_Nil_conv)
  with d have c: "is_digit_char c" "c \<noteq> CHR ''+''" "c \<noteq> CHR ''-''" by (auto simp: is_digit_char_def)
  have tw: "takeWhile is_digit_char t = t" using d ct by (simp add: list_all_iff takeWhile_eq_all_conv)
  have len: "length (show_nat k) \<le> 15" by (rule length_show_nat_le) (use k(2) in auto)
  have l: "strtod_length (show_int n) = length (show_int n)"
    using c ct unfolding k(1)
    by (simp add: tw strtod_length_def sign_length_def digits_length_def fraction_length_def exponent_length_def)
  have "list_all number_char (show_int n)"
    using d unfolding k(1) by (auto simp: number_char_def list_all_iff)
  moreover have "takeWhile number_char r = []"
    using assms(3) by (auto simp: delim_def number_char_def is_digit_char_def split: list.splits)
  ultimately have "takeWhile number_char (show_int n @ r) = show_int n"
    by (simp add: takeWhile_append2 list_all_iff)
  moreover have "length (show_int n) \<le> 16" using len by (simp add: k(1))
  ultimately show ?thesis using assms(2) l ct by (simp add: parse_number_def k(1))
qed

lemma skip_solid [simp]: "(of_char c :: nat) > 32 \<Longrightarrow> buffer_skip_whitespace (c # t) = c # t"
  by (simp add: buffer_skip_whitespace_def)

text \<open>How the text of a value starts, which decides how it is read.\<close>

definition solid :: "string \<Rightarrow> bool" where
  "solid t = (\<exists>c t'. t = c # t' \<and> (of_char c :: nat) > 32 \<and> (of_char c :: nat) < 128 \<and> c \<noteq> CHR '']'' \<and> c \<noteq> CHR ''}'')"

lemma solid_print [simp]: "solid (print_value v @ r)"
proof (cases v)
  case (JNumber n)
  with show_int_start [of n] show ?thesis
    by (auto simp: solid_def print_number_def is_digit_char_def)
next
  case (JArray vs)
  then show ?thesis by (cases vs) (simp_all add: solid_def)
next
  case (JObject ms)
  then show ?thesis by (cases ms; cases "hd ms") (simp_all add: solid_def)
qed (simp_all add: solid_def print_string_ptr_def)

lemma solid_skip: "solid t \<Longrightarrow> buffer_skip_whitespace t = t \<and> t \<noteq> [] \<and> \<not> starts_with '']'' t \<and> \<not> starts_with ''}'' t"
  by (auto simp: solid_def starts_with_def)

lemma solid_bom: "solid t \<Longrightarrow> skip_utf8_bom t = t"
  by (auto simp: solid_def skip_utf8_bom_def starts_with_def)

lemma parse_value_array:
  "parse_value num (Suc n) (CHR ''['' # t) = parse_array (parse_value num n) (CHR ''['' # t)"
  by (simp add: parse_value.simps [of num "Suc n"] starts_with_def is_digit_char_def)

lemma parse_value_object:
  "parse_value num (Suc n) (CHR ''{'' # t) = parse_object (parse_value num n) (CHR ''{'' # t)"
  by (simp add: parse_value.simps [of num "Suc n"] starts_with_def is_digit_char_def)

text \<open>What it takes of the parser of a value to read the elements and members of a container.\<close>

definition reads :: "(string \<Rightarrow> (json \<times> string) option) \<Rightarrow> json \<Rightarrow> bool" where
  "reads pv v = (\<forall>r. delim r \<longrightarrow> pv (print_value v @ r) = Some (v, r))"

lemma parsesD: "reads pv v \<Longrightarrow> delim r \<Longrightarrow> pv (print_value v @ r) = Some (v, r)"
  by (simp add: reads_def)

lemma parse_elements_print:
  assumes "reads pv v" "list_all (reads pv) vs" "length vs < fuel"
  shows "parse_elements fuel pv (print_value v @ print_more vs @ CHR '']'' # r) = Some (v # vs, r)"
  using assms
proof (induction vs arbitrary: v fuel)
  case Nil
  then obtain k where k: "fuel = Suc k" by (cases fuel) auto
  from parsesD [OF Nil(1), of "CHR '']'' # r"] show ?case
    using solid_skip [OF solid_print, of v "CHR '']'' # r"] by (simp add: k)
next
  case (Cons w ws)
  then obtain k where k: "fuel = Suc k" "length ws < k" by (cases fuel) auto
  from parsesD [OF Cons.prems(1), of "CHR '','' # print_value w @ print_more ws @ CHR '']'' # r"]
  show ?case
    using solid_skip [OF solid_print, of v "CHR '','' # print_value w @ print_more ws @ CHR '']'' # r"]
      Cons.IH [of w k] Cons.prems(2) k(2)
    by (simp add: k(1))
qed

lemma parse_members_print:
  assumes "is_cstr key" "reads pv v" "list_all (\<lambda>(k, v). is_cstr k \<and> reads pv v) ms" "length ms < fuel"
  shows "parse_members fuel pv (print_string_ptr key @ CHR '':'' # print_value v @ print_more_members ms @ CHR ''}'' # r) =
    Some ((key, v) # ms, r)"
  using assms
proof (induction ms arbitrary: key v fuel)
  case Nil
  then obtain n where n: "fuel = Suc n" by (cases fuel) auto
  have q: "buffer_skip_whitespace (print_string_ptr key @ t) = print_string_ptr key @ t" for t
    by (simp add: print_string_ptr_def)
  from parsesD [OF Nil(2), of "CHR ''}'' # r"] show ?case
    using solid_skip [OF solid_print, of v "CHR ''}'' # r"]
    by (simp add: n q parse_string_print [OF Nil(1)])
next
  case (Cons m ms)
  obtain k' w where m: "m = (k', w)" by fastforce
  obtain n where n: "fuel = Suc n" "length ms < n" using Cons.prems(4) by (cases fuel) auto
  have q: "buffer_skip_whitespace (print_string_ptr key @ t) = print_string_ptr key @ t" for t
    by (simp add: print_string_ptr_def)
  let ?t = "CHR '','' # print_string_ptr k' @ CHR '':'' # print_value w @ print_more_members ms @ CHR ''}'' # r"
  from parsesD [OF Cons.prems(2), of ?t] show ?case
    using solid_skip [OF solid_print, of v ?t] Cons.IH [of k' w n] Cons.prems(3) n(2)
    by (simp add: n(1) q m parse_string_print [OF Cons.prems(1)])
qed

lemma length_print_more: "length vs \<le> length (print_more vs)"
  by (induction vs) auto

lemma length_print_more_members: "length ms \<le> length (print_more_members ms)"
  by (induction ms) auto

lemma parse_array_print:
  assumes "list_all (reads pv) vs"
  shows "parse_array pv (print_array print_value vs @ r) = Some (JArray vs, r)"
proof (cases vs)
  case Nil
  then show ?thesis by (simp add: parse_array_def starts_with_def)
next
  case (Cons v ws)
  let ?t = "print_value v @ print_more ws @ CHR '']'' # r"
  have "length ws < Suc (length ?t)" using length_print_more [of ws] by simp
  with assms have "parse_elements (Suc (length ?t)) pv ?t = Some (v # ws, r)"
    unfolding Cons by (intro parse_elements_print) auto
  moreover have "buffer_skip_whitespace ?t = ?t" "\<not> starts_with '']'' ?t"
    using solid_skip [OF solid_print, of v "print_more ws @ CHR '']'' # r"] by auto
  ultimately show ?thesis by (simp add: Cons parse_array_def)
qed

lemma parse_object_print:
  assumes "list_all (\<lambda>(k, v). is_cstr k \<and> reads pv v) ms"
  shows "parse_object pv (print_object print_value ms @ r) = Some (JObject ms, r)"
proof (cases ms)
  case Nil
  then show ?thesis by (simp add: parse_object_def starts_with_def)
next
  case (Cons m ns)
  obtain k v where m: "m = (k, v)" by fastforce
  let ?t = "print_string_ptr k @ CHR '':'' # print_value v @ print_more_members ns @ CHR ''}'' # r"
  have "length ns < Suc (length ?t)" using length_print_more_members [of ns] by simp
  with assms have "parse_members (Suc (length ?t)) pv ?t = Some ((k, v) # ns, r)"
    unfolding Cons m by (intro parse_members_print) auto
  moreover have "buffer_skip_whitespace ?t = ?t" "\<not> starts_with ''}'' ?t"
    by (simp_all add: print_string_ptr_def starts_with_def)
  ultimately show ?thesis by (simp add: Cons m parse_object_def)
qed

lemma parse_scalar:
  "parse_value num left (print_string_ptr s @ r) = map_option (\<lambda>(s, r). (JString s, r)) (parse_string (print_string_ptr s @ r))"
  "delim r \<Longrightarrow> parse_value num left (show_int n @ r) = parse_number num (show_int n @ r)"
proof -
  show "parse_value num left (print_string_ptr s @ r) = map_option (\<lambda>(s, r). (JString s, r)) (parse_string (print_string_ptr s @ r))"
    by (simp add: parse_value.simps print_string_ptr_def starts_with_def)
  from show_int_start [of n] show "parse_value num left (show_int n @ r) = parse_number num (show_int n @ r)"
    by (auto simp: parse_value.simps starts_with_def is_digit_char_def)
qed

lemma reads_print:
  "readable num v \<Longrightarrow> nesting v \<le> left \<Longrightarrow> reads (parse_value num left) v"
  "readable_list num vs \<Longrightarrow> nesting_list vs \<le> left \<Longrightarrow> list_all (reads (parse_value num left)) vs"
  "readable_members num ms \<Longrightarrow> nesting_members ms \<le> left \<Longrightarrow>
     list_all (\<lambda>(k, v). is_cstr k \<and> reads (parse_value num left) v) ms"
proof (induction num v and num vs and num ms arbitrary: left and left and left
    rule: readable_readable_list_readable_members.induct)
  case (1 num s)
  then show ?case by (simp add: reads_def parse_scalar parse_string_print)
next
  case (2 num vs)
  then obtain n where n: "left = Suc n" "nesting_list vs \<le> n" by (cases left) auto
  have "print_value (JArray vs) = CHR ''['' # tl (print_value (JArray vs))" by (cases vs) simp_all
  then have "parse_value num left (print_value (JArray vs) @ r) = parse_array (parse_value num n) (print_value (JArray vs) @ r)" for r
    using parse_value_array [of num n "tl (print_value (JArray vs)) @ r"] unfolding n(1) by (metis append_Cons)
  with parse_array_print [OF 2(1)] 2(2) n(2) show ?case by (simp add: reads_def)
next
  case (3 num ms)
  then obtain n where n: "left = Suc n" "nesting_members ms \<le> n" by (cases left) auto
  have "print_value (JObject ms) = CHR ''{'' # tl (print_value (JObject ms))" by (cases ms; cases "hd ms") simp_all
  then have "parse_value num left (print_value (JObject ms) @ r) = parse_object (parse_value num n) (print_value (JObject ms) @ r)" for r
    using parse_value_object [of num n "tl (print_value (JObject ms)) @ r"] unfolding n(1) by (metis append_Cons)
  with parse_object_print [OF 3(1)] 3(2) n(2) show ?case by (simp add: reads_def)
next
  case (4 num n)
  then show ?case by (simp add: reads_def print_number_def parse_scalar parse_number_print)
next
  case "5_1"
  then show ?case by (simp add: reads_def parse_value.simps starts_with_def)
next
  case "5_2"
  then show ?case by (simp add: reads_def parse_value.simps starts_with_def)
qed auto

lemma cstr_escapes: "is_cstr (concat (map escape s))"
proof -
  have "list_all (\<lambda>n. hex_digit n \<noteq> NUL) [0..<16]" by code_simp
  then have h: "hex_digit n \<noteq> NUL" if "n < 16" for n using that by (simp add: list_all_iff)
  have "is_cstr (escape c)" for c
  proof -
    have "hex_digit (of_char c div 16) \<noteq> NUL" "hex_digit (of_char c mod 16) \<noteq> NUL"
      using nat_of_char_less_256 [of c] by (auto intro!: h simp: less_mult_imp_div_less)
    moreover have "(of_char c :: nat) > 31 \<Longrightarrow> c \<noteq> NUL" by auto
    ultimately show ?thesis unfolding escape_def by simp
  qed
  then show ?thesis by (induction s) simp_all
qed

lemma cstr_print_string: "is_cstr (print_string_ptr s)"
  by (simp add: print_string_ptr_def cstr_escapes)

lemma is_cstr_print:
  "readable num v \<Longrightarrow> is_cstr (print_value v)"
  "readable_list num vs \<Longrightarrow> is_cstr (print_more vs) \<and> is_cstr (print_array print_value vs)"
  "readable_members num ms \<Longrightarrow> is_cstr (print_more_members ms) \<and> is_cstr (print_object print_value ms)"
proof (induction num v and num vs and num ms rule: readable_readable_list_readable_members.induct)
  case (4 num n)
  then show ?case by (simp add: print_number_def show_int_def)
qed (simp_all add: cstr_print_string)

lemma parse_printed:
  assumes "readable num v" "nesting v \<le> CJSON_NESTING_LIMIT"
  shows "cJSON_Parse num (cJSON_PrintUnformatted v) = Some v"
proof -
  from parsesD [OF reads_print(1) [OF assms(1,2)], of "[]"]
  have "parse_value num CJSON_NESTING_LIMIT (print_value v) = Some (v, [])" by simp
  moreover have "buffer_skip_whitespace (print_value v) = print_value v"
    using solid_skip [OF solid_print, of v "[]"] by simp
  moreover have "skip_utf8_bom (print_value v) = print_value v"
    using solid_bom [OF solid_print, of v "[]"] by simp
  ultimately show ?thesis
    using is_cstr_print(1) [OF assms(1)] by (simp add: cJSON_Parse_def cJSON_ParseWithOpts_def cJSON_PrintUnformatted_def)
qed

text \<open>
  C15: What the library prints it reads back: a value whose strings hold no NUL, whose numbers have at most
  15 digits and which is nested at most a thousand deep is printed, quotes, backslashes and control
  characters escaped, as a text that \<open>cJSON_Parse\<close> takes for that very value, whatever the bytes of its
  strings are.
\<close>

theorem cjson_roundtrip:
  assumes "readable num v" "nesting v \<le> CJSON_NESTING_LIMIT"
  shows "cJSON_Parse num (cJSON_PrintUnformatted v) = Some v"
  by (rule parse_printed [OF assms])

theorem cjson_roundtrip_witness:
  "cJSON_Parse (\<lambda>_. - 12) ''{\"a\":[true,-12,\"x\"],\"b\":{}}'' =
     Some (JObject [(''a'', JArray [JBool True, JNumber (- 12), JString ''x'']), (''b'', JObject [])])"
proof -
  let ?v = "JObject [(''a'', JArray [JBool True, JNumber (- 12), JString ''x'']), (''b'', JObject [])]"
  have "cJSON_PrintUnformatted ?v = ''{\"a\":[true,-12,\"x\"],\"b\":{}}''"
    by (simp add: cJSON_PrintUnformatted_def print_string_ptr_def print_number_def escape_def show_int_def
        show_nat.simps digit_def char_of_def bit_Suc_0_iff cstr_def)
  with cjson_roundtrip [of "\<lambda>_. - 12" ?v] show ?thesis by (simp add: CJSON_NESTING_LIMIT_def)
qed

text \<open>
  The parser does not look past the value: any text may follow a printed object, so a request with
  rubbish behind its value is served as if it were not there.
\<close>

theorem cjson_ignores_rest:
  assumes "readable_members num ms" "nesting (JObject ms) \<le> CJSON_NESTING_LIMIT" "is_cstr rest"
  shows "cJSON_Parse num (cJSON_PrintUnformatted (JObject ms) @ rest) = Some (JObject ms)"
proof -
  obtain n where n: "CJSON_NESTING_LIMIT = Suc n" "nesting_members ms \<le> n"
    using assms(2) by (cases CJSON_NESTING_LIMIT) (auto simp: CJSON_NESTING_LIMIT_def)
  let ?t = "print_value (JObject ms) @ rest"
  have start: "print_value (JObject ms) = CHR ''{'' # tl (print_value (JObject ms))" by (cases ms; cases "hd ms") simp_all
  then have "parse_value num CJSON_NESTING_LIMIT ?t = parse_object (parse_value num n) ?t"
    using parse_value_object [of num n "tl (print_value (JObject ms)) @ rest"] unfolding n(1) by (metis append_Cons)
  also have "\<dots> = Some (JObject ms, rest)"
    using parse_object_print [OF reads_print(3) [OF assms(1) n(2)]] by simp
  finally have "parse_value num CJSON_NESTING_LIMIT ?t = Some (JObject ms, rest)" .
  moreover have "buffer_skip_whitespace ?t = ?t" "skip_utf8_bom ?t = ?t"
    using solid_skip [OF solid_print] solid_bom [OF solid_print] by blast+
  moreover have "is_cstr ?t" using is_cstr_print(3) [OF assms(1)] assms(3) by simp
  ultimately show ?thesis
    by (simp add: cJSON_Parse_def cJSON_ParseWithOpts_def cJSON_PrintUnformatted_def del: print_value.simps)
qed

theorem cjson_ignores_rest_witness:
  "cJSON_Parse (\<lambda>_. 7) ''{\"volume\":7}}garbage'' = Some (JObject [(''volume'', JNumber 7)])"
proof -
  have "cJSON_PrintUnformatted (JObject [(''volume'', JNumber 7)]) = ''{\"volume\":7}''"
    by (simp add: cJSON_PrintUnformatted_def print_string_ptr_def print_number_def escape_def show_int_def
        show_nat.simps digit_def char_of_def bit_Suc_0_iff cstr_def)
  with cjson_ignores_rest [of "\<lambda>_. 7" "[(''volume'', JNumber 7)]" "''}garbage''"] show ?thesis
    by (simp add: CJSON_NESTING_LIMIT_def show_int_def show_nat.simps digit_def char_of_def bit_Suc_0_iff is_cstr_def)
qed

end
