(* ===== verification/Wifi.thy ===== *)
theory Wifi
  imports Config
begin

text \<open>
  \<open>src/firmware/main/wifi/wifi.c\<close>: the station that connects to the network and the access point of the
  device itself. The driver is seen through what it was told: the two configurations, the host names, the
  address of the access point and the number of requests to connect. Its calls are taken to succeed, since
  \<open>ESP_ERROR_CHECK\<close> stops the firmware otherwise. A task that will reconnect counts as pending until it
  runs.
\<close>

record sta_config =
  sta_ssid :: string
  sta_password :: string

datatype wifi_auth_mode = WIFI_AUTH_OPEN | WIFI_AUTH_WPA_WPA2_PSK

record ap_config =
  ap_ssid :: string
  ap_pass :: string
  ap_authmode :: wifi_auth_mode
  ap_max_connection :: nat

record wifi =
  wf_group :: "bool option"
  wf_hostname :: string
  wf_counter :: u32
  wf_store :: nvs_state
  wf_sta :: "sta_config option"
  wf_ap :: "ap_config option"
  wf_sta_hostname :: "string option"
  wf_ap_hostname :: "string option"
  wf_ap_ip :: "(u8 \<times> u8 \<times> u8 \<times> u8) option"
  wf_started :: bool
  wf_connects :: nat
  wf_pending :: nat

section \<open>Configuration\<close>

text \<open>The name is computed once; the bound of \<open>strncat\<close> leaves room for the prefix and the NUL.\<close>

definition hostname :: "wifi \<Rightarrow> (string \<times> wifi) option" where
  "hostname w =
     (if length (wf_hostname w) > 0 then Some (wf_hostname w, w)
      else map_option (\<lambda>(i, s). let n = ''slon_'' @ take (32 - 6) i in (n, w\<lparr>wf_hostname := n, wf_store := s\<rparr>))
        (config_deviceid (wf_store w)))"

text \<open>
  \<open>if (get() != NULL) strcpy(dest, get())\<close>: the getter is called twice, and the second answer copied,
  None when it is null then. It fits, since the getter's own buffer has the size of the destination.
\<close>

definition copied ::
  "(nvs_state \<Rightarrow> (string option \<times> nvs_state) option) \<Rightarrow> nvs_state \<Rightarrow> (string \<times> nvs_state) option" where
  "copied get s =
     (case get s of
        None \<Rightarrow> None
      | Some (None, s1) \<Rightarrow> Some ([], s1)
      | Some (Some _, s1) \<Rightarrow>
          (case get s1 of
             Some (Some v, s2) \<Rightarrow> Some (v, s2)
           | _ \<Rightarrow> None))"

text \<open>The test of \<open>wifi_config.sta.ssid\<close> is of the address of an array and so always passed.\<close>

definition station :: "wifi \<Rightarrow> wifi option" where
  "station w =
     (case copied config_wifi_ssid (wf_store w) of
        None \<Rightarrow> None
      | Some (ssid, s1) \<Rightarrow>
          (case copied config_wifi_pass s1 of
             None \<Rightarrow> None
           | Some (pass, s2) \<Rightarrow>
               Some (w\<lparr>wf_sta := Some \<lparr>sta_ssid = ssid, sta_password = pass\<rparr>, wf_store := s2\<rparr>)))"

definition wifi_reconfig :: "wifi \<Rightarrow> (bool \<times> wifi) option" where
  "wifi_reconfig w = map_option (Pair True) (station w)"

definition softap :: "wifi \<Rightarrow> wifi option" where
  "softap w =
     (case hostname w of
        None \<Rightarrow> None
      | Some (ssid, w1) \<Rightarrow>
          (case config_ap_password (wf_store w1) of
             None \<Rightarrow> None
           | Some (pass, s2) \<Rightarrow>
               (let w2 = w1\<lparr>wf_store := s2,
                  wf_ap := Some \<lparr>ap_ssid = ssid, ap_pass = pass,
                    ap_authmode = if pass = [] then WIFI_AUTH_OPEN else WIFI_AUTH_WPA_WPA2_PSK,
                    ap_max_connection = 5\<rparr>\<rparr>
                in map_option (\<lambda>(n, w3). w3\<lparr>wf_ap_hostname := Some n\<rparr>) (hostname w2))))"

definition configure :: "wifi \<Rightarrow> (bool \<times> wifi) option" where
  "configure w =
     (case station w of
        None \<Rightarrow> None
      | Some w1 \<Rightarrow> map_option (\<lambda>w2. (True, w2\<lparr>wf_started := True\<rparr>)) (softap w1))"

definition wifi_init :: "bool \<Rightarrow> wifi \<Rightarrow> (bool \<times> wifi) option" where
  "wifi_init group_ok w =
     (if \<not> group_ok then Some (False, w\<lparr>wf_group := None\<rparr>)
      else configure (w\<lparr>wf_group := Some False\<rparr>))"

definition wifi_is_connected :: "wifi \<Rightarrow> bool" where
  "wifi_is_connected w = (case wf_group w of None \<Rightarrow> False | Some connected_bit \<Rightarrow> connected_bit)"

text \<open>\<open>in_time\<close>: the station gets an address before the wait ends.\<close>

definition wifi_wait_connected :: "bool \<Rightarrow> wifi \<Rightarrow> bool" where
  "wifi_wait_connected in_time w =
     (case wf_group w of None \<Rightarrow> False | Some connected_bit \<Rightarrow> connected_bit \<or> in_time)"

definition dhcp_server_init :: "wifi \<Rightarrow> wifi" where
  "dhcp_server_init w = w\<lparr>wf_ap_ip := Some config_ap_static_ip\<rparr>"

section \<open>Events\<close>

datatype system_event =
    SYSTEM_EVENT_STA_START
  | SYSTEM_EVENT_AP_START
  | SYSTEM_EVENT_STA_GOT_IP
  | SYSTEM_EVENT_AP_STACONNECTED
  | SYSTEM_EVENT_AP_STADISCONNECTED
  | SYSTEM_EVENT_STA_DISCONNECTED
  | Other_Event

definition esp_wifi_connect :: "wifi \<Rightarrow> wifi" where
  "esp_wifi_connect w = w\<lparr>wf_connects := wf_connects w + 1\<rparr>"

text \<open>\<open>task_ok\<close> is the outcome of creating the task that reconnects.\<close>

definition event_handler :: "bool \<Rightarrow> system_event \<Rightarrow> wifi \<Rightarrow> wifi option" where
  "event_handler task_ok event w =
     (case event of
        SYSTEM_EVENT_STA_START \<Rightarrow>
          map_option (\<lambda>(n, w1). esp_wifi_connect (w1\<lparr>wf_sta_hostname := Some n\<rparr>)) (hostname w)
      | SYSTEM_EVENT_AP_START \<Rightarrow> Some (dhcp_server_init w)
      | SYSTEM_EVENT_STA_GOT_IP \<Rightarrow> Some (w\<lparr>wf_group := map_option (\<lambda>_. True) (wf_group w)\<rparr>)
      | SYSTEM_EVENT_STA_DISCONNECTED \<Rightarrow>
          (let w1 = w\<lparr>wf_group := map_option (\<lambda>_. False) (wf_group w), wf_counter := wf_counter w + 1\<rparr>
           in if wf_counter w mod 5 = 0 then Some (if task_ok then w1\<lparr>wf_pending := wf_pending w1 + 1\<rparr> else w1)
              else Some (esp_wifi_connect w1))
      | _ \<Rightarrow> Some w)"

definition reconnect_thread_hack :: "wifi \<Rightarrow> wifi option" where
  "reconnect_thread_hack w =
     map_option (\<lambda>w1. esp_wifi_connect (w1\<lparr>wf_pending := wf_pending w1 - 1\<rparr>)) (station w)"

text \<open>What happens to a device that has been started: events, and the runs of the pending tasks.\<close>

datatype wifi_step = Event bool system_event | Reconnect

fun wifi_run :: "wifi_step list \<Rightarrow> wifi \<Rightarrow> wifi option" where
  "wifi_run [] w = Some w"
| "wifi_run (Event ok e # es) w = Option.bind (event_handler ok e w) (wifi_run es)"
| "wifi_run (Reconnect # es) w =
     (if wf_pending w = 0 then wifi_run es w else Option.bind (reconnect_thread_hack w) (wifi_run es))"

section \<open>Properties\<close>

lemma copied_running:
  assumes "running s"
  shows "copied config_wifi_ssid s = Some (case fst (the (config_wifi_ssid s)) of None \<Rightarrow> [] | Some v \<Rightarrow> v, s)"
    and "copied config_wifi_pass s = Some (case fst (the (config_wifi_pass s)) of None \<Rightarrow> [] | Some v \<Rightarrow> v, s)"
  using assms by (auto simp: copied_def config_wifi_ssid_def config_wifi_pass_def config_save_wifi_ssid_def
      config_save_wifi_pass_def nvs_read_string_def split: option.splits)

lemma station_running:
  assumes "running (wf_store w)"
  shows "station w = Some (w\<lparr>wf_sta := Some
    \<lparr>sta_ssid = (case fst (the (config_wifi_ssid (wf_store w))) of None \<Rightarrow> [] | Some v \<Rightarrow> v),
     sta_password = (case fst (the (config_wifi_pass (wf_store w))) of None \<Rightarrow> [] | Some v \<Rightarrow> v)\<rparr>\<rparr>)"
  using copied_running [OF assms] by (simp add: station_def)

lemma hostname_running:
  assumes "running (wf_store w)"
  shows "\<exists>n s. hostname w = Some (n, w\<lparr>wf_hostname := n, wf_store := s\<rparr>) \<and> running s"
proof (cases "length (wf_hostname w) > 0")
  case True
  with assms show ?thesis by (intro exI [of _ "wf_hostname w"] exI [of _ "wf_store w"]) (simp add: hostname_def)
next
  case False
  obtain r where r: "nvs_read_string ''deviceid'' 10 (wf_store w) = Some (r, wf_store w)"
    using str_store.load_total [OF assms] by blast
  obtain ok s where s: "nvs_save_string ''deviceid'' ''vanillaesp'' (wf_store w) = Some (ok, s)" "running s"
    using str_store.save_total [OF assms] by blast
  obtain i s where "config_deviceid (wf_store w) = Some (i, s)" "running s"
    using assms r s by (cases r) (simp_all add: config_deviceid_def str_setting_def)
  with False show ?thesis by (auto simp: hostname_def Let_def)
qed

text \<open>The state that a sequence of events leaves the connection in, and the requests to connect it calls for.\<close>

fun connected_after :: "bool \<Rightarrow> wifi_step list \<Rightarrow> bool" where
  "connected_after b [] = b"
| "connected_after b (Event ok SYSTEM_EVENT_STA_GOT_IP # es) = connected_after True es"
| "connected_after b (Event ok SYSTEM_EVENT_STA_DISCONNECTED # es) = connected_after False es"
| "connected_after b (e # es) = connected_after b es"

fun requests_due :: "wifi_step list \<Rightarrow> nat" where
  "requests_due [] = 0"
| "requests_due (Event ok e # es) =
     of_bool (e = SYSTEM_EVENT_STA_START \<or> e = SYSTEM_EVENT_STA_DISCONNECTED) + requests_due es"
| "requests_due (Reconnect # es) = requests_due es"

definition tasks_created :: "wifi_step list \<Rightarrow> bool" where
  "tasks_created es = list_all (\<lambda>e. case e of Event ok _ \<Rightarrow> ok | Reconnect \<Rightarrow> True) es"

lemma event_running:
  assumes "running (wf_store w)" "wf_group w = Some b"
  shows "\<exists>w'. event_handler True e w = Some w' \<and> running (wf_store w') \<and>
    wf_group w' = Some (connected_after b [Event True e]) \<and>
    wf_connects w' + wf_pending w' = wf_connects w + wf_pending w + requests_due [Event True e]"
  using assms hostname_running [OF assms(1)]
  by (cases e) (auto simp: event_handler_def esp_wifi_connect_def dhcp_server_init_def Let_def)


definition sample_wifi :: wifi where
  "sample_wifi = \<lparr>wf_group = Some False, wf_hostname = [], wf_counter = 0, wf_store = fresh_nvs, wf_sta = None,
     wf_ap = None, wf_sta_hostname = None, wf_ap_hostname = None, wf_ap_ip = None, wf_started = True,
     wf_connects = 0, wf_pending = 0\<rparr>"


section \<open>New settings\<close>

lemma fifth_loss: "\<exists>i < 5. (c + of_nat i :: u32) mod 5 = 0"
proof (cases "unat c + 4 < 2 ^ 32")
  case True
  have "\<exists>i < 5. (n + i) mod 5 = 0" for n :: nat
  proof (cases "n mod 5 = 0")
    case False
    obtain q m where n: "n = 5 * q + m" "m < 5" "m = n mod 5"
      by (rule that [of "n div 5" "n mod 5"]) simp_all
    then have "n + (5 - n mod 5) = 5 * (q + 1)" by simp
    then have "(n + (5 - n mod 5)) mod 5 = 0" by (metis mod_mult_self1_is_0)
    moreover have "5 - n mod 5 < 5" using False by simp
    ultimately show ?thesis by (intro exI [of _ "5 - n mod 5"] conjI)
  qed (rule exI [of _ 0], simp)
  from this [of "unat c"] obtain i where i: "i < 5" "(unat c + i) mod 5 = 0" by (elim exE conjE)
  have "unat (c + of_nat i) = unat c + i"
    using True i(1) unat_of_nat_u32 [of "unat c + i"] by simp
  with i(2) have "unat ((c + of_nat i) mod 5) = 0" by (simp add: unat_mod)
  then have "(c + of_nat i) mod 5 = 0" by (simp add: unat_eq_zero)
  with i(1) show ?thesis by (intro exI [of _ i] conjI)
next
  case False
  let ?i = "2 ^ 32 - unat c"
  have "unat c < 2 ^ 32" using unat_u32_less [of c] by simp
  then have "(of_nat (unat c + ?i) :: u32) = of_nat (2 ^ 32)" by simp
  then have "c + of_nat ?i = 0" by simp
  moreover have "?i < 5" using False by simp
  ultimately show ?thesis by (intro exI [of _ ?i]) simp
qed

abbreviation loss :: wifi_step where
  "loss \<equiv> Event True SYSTEM_EVENT_STA_DISCONNECTED"

lemma losses_pending:
  "\<exists>w'. wifi_run (replicate n loss) w = Some w' \<and> wf_store w' = wf_store w \<and> wf_pending w \<le> wf_pending w' \<and>
    ((\<exists>i < n. (wf_counter w + of_nat i) mod 5 = 0) \<longrightarrow> 0 < wf_pending w')"
proof (induction n arbitrary: w)
  case (Suc n)
  have "\<exists>w1. event_handler True SYSTEM_EVENT_STA_DISCONNECTED w = Some w1 \<and> wf_store w1 = wf_store w \<and>
    wf_counter w1 = wf_counter w + 1 \<and> wf_pending w \<le> wf_pending w1 \<and> (wf_counter w mod 5 = 0 \<longrightarrow> 0 < wf_pending w1)"
    by (cases "wf_counter w mod 5 = 0") (simp_all add: event_handler_def esp_wifi_connect_def Let_def)
  then obtain w1 where w1: "event_handler True SYSTEM_EVENT_STA_DISCONNECTED w = Some w1" "wf_store w1 = wf_store w"
    "wf_counter w1 = wf_counter w + 1" "wf_pending w \<le> wf_pending w1" "wf_counter w mod 5 = 0 \<longrightarrow> 0 < wf_pending w1"
    by blast
  obtain w' where w': "wifi_run (replicate n loss) w1 = Some w'" "wf_store w' = wf_store w1" "wf_pending w1 \<le> wf_pending w'"
    "(\<exists>i < n. (wf_counter w1 + of_nat i) mod 5 = 0) \<longrightarrow> 0 < wf_pending w'"
    using Suc.IH [of w1] by blast
  have "0 < wf_pending w'" if h: "i < Suc n" "(wf_counter w + of_nat i) mod 5 = 0" for i
  proof (cases i)
    case 0
    with h(2) w1(5) w'(3) show ?thesis by simp
  next
    case (Suc j)
    have "wf_counter w1 + of_nat j = wf_counter w + of_nat i" unfolding Suc w1(3) by (simp add: algebra_simps)
    moreover have "j < n" using h(1) Suc by simp
    ultimately show ?thesis using h(2) w'(4) by metis
  qed
  then have "(\<exists>i < Suc n. (wf_counter w + of_nat i) mod 5 = 0) \<longrightarrow> 0 < wf_pending w'"
    by (intro impI) (elim exE conjE)
  moreover have "wifi_run (replicate (Suc n) loss) w = Some w'" using w1(1) w'(1) by simp
  moreover have "wf_store w' = wf_store w" "wf_pending w \<le> wf_pending w'" using w1(2,4) w'(2,3) by simp_all
  ultimately show ?case by blast
qed simp

lemma wifi_run_append:
  "wifi_run (es @ fs) w = Option.bind (wifi_run es w) (wifi_run fs)"
  by (induction es w rule: wifi_run.induct) (auto simp: bind_eq_None_conv split: bind_split)

text \<open>
  New network settings reach the driver while the old ones do not connect: of five losses in a row one
  makes the task, and its run configures the station from the settings as they are then.
\<close>

theorem settings_reach_driver:
  assumes "running (wf_store w)" "config_wifi_ssid (wf_store w) = Some (Some a, wf_store w)"
    and "config_wifi_pass (wf_store w) = Some (Some b, wf_store w)"
  shows "\<exists>w'. wifi_run (replicate 5 loss @ [Reconnect]) w = Some w' \<and>
    wf_sta w' = Some \<lparr>sta_ssid = a, sta_password = b\<rparr>"
proof -
  from losses_pending [of 5 w] fifth_loss [of "wf_counter w"] obtain w1 where
    w1: "wifi_run (replicate 5 loss) w = Some w1" "wf_store w1 = wf_store w" "0 < wf_pending w1" by blast
  have "station w1 = Some (w1\<lparr>wf_sta := Some \<lparr>sta_ssid = a, sta_password = b\<rparr>\<rparr>)"
    using station_running [of w1] assms w1(2) by simp
  then show ?thesis
    using w1(1,3) by (simp add: wifi_run_append reconnect_thread_hack_def esp_wifi_connect_def)
qed

theorem settings_reach_driver_witness:
  "\<exists>w'. wifi_run (replicate 5 loss @ [Reconnect])
      (sample_wifi\<lparr>wf_store := fresh_nvs\<lparr>items := [''wifi_ssid'' \<mapsto> NvsStr ''home'', ''wifi_pass'' \<mapsto> NvsStr ''secret'']\<rparr>\<rparr>) =
      Some w' \<and> wf_sta w' = Some \<lparr>sta_ssid = ''home'', sta_password = ''secret''\<rparr>"
proof -
  let ?s = "fresh_nvs\<lparr>items := [''wifi_ssid'' \<mapsto> NvsStr ''home'', ''wifi_pass'' \<mapsto> NvsStr ''secret'']\<rparr>"
  have r: "running ?s" by (simp add: fresh_nvs_def running_def)
  then have "config_wifi_ssid ?s = Some (Some ''home'', ?s)" "config_wifi_pass ?s = Some (Some ''secret'', ?s)"
    by (simp_all add: config_wifi_ssid_def config_wifi_pass_def nvs_read_string_def)
  with settings_reach_driver [of "sample_wifi\<lparr>wf_store := ?s\<rparr>" "''home''" "''secret''"] r show ?thesis by simp
qed

end
