(* ===== verification/Auth.thy ===== *)
theory Auth
  imports Base64 Config HttpdUri
begin

text \<open>
  \<open>src/firmware/main/web/auth.c\<close>: basic authentication of a request to the web interface. A request is
  what the HTTP server has read of it: URI, method, headers (by name), the announced length of the body
  and the bytes that one call of \<open>httpd_req_recv\<close> delivers, and the address of the own side of its
  connection. A response is its status, its type, the added headers and the pieces sent.
\<close>

record httpd_req =
  req_uri :: string
  req_method :: httpd_method
  req_hdr :: "string \<rightharpoonup> string"
  content_len :: nat
  req_received :: string
  sock_ip :: string

record httpd_resp =
  rsp_status :: string
  rsp_type :: string
  rsp_hdrs :: "(string \<times> string) list"
  rsp_sent :: "string list"

definition fresh_resp :: httpd_resp where
  "fresh_resp = \<lparr>rsp_status = ''200 OK'', rsp_type = ''text/html'', rsp_hdrs = [], rsp_sent = []\<rparr>"

definition httpd_resp_set_hdr :: "string \<Rightarrow> string \<Rightarrow> httpd_resp \<Rightarrow> httpd_resp" where
  "httpd_resp_set_hdr field val r = r\<lparr>rsp_hdrs := rsp_hdrs r @ [(field, val)]\<rparr>"

definition httpd_resp_send :: "string \<Rightarrow> httpd_resp \<Rightarrow> httpd_resp" where
  "httpd_resp_send s r = r\<lparr>rsp_sent := rsp_sent r @ [s]\<rparr>"

text \<open>A header is copied when it is there and fits the buffer with its NUL.\<close>

definition httpd_req_get_hdr_value_str :: "httpd_req \<Rightarrow> string \<Rightarrow> nat \<Rightarrow> string option" where
  "httpd_req_get_hdr_value_str req field val_size =
     (case req_hdr req field of Some v \<Rightarrow> if length v < val_size then Some v else None | None \<Rightarrow> None)"

section \<open>Checking\<close>

definition reject :: "httpd_resp \<Rightarrow> httpd_resp" where
  "reject r =
     httpd_resp_send ''Unauthorized''
       ((httpd_resp_set_hdr ''WWW-Authenticate'' ''Basic realm = \"login: admin\"'' r)\<lparr>rsp_status := ''401''\<rparr>)"

definition show_ip :: "u8 \<times> u8 \<times> u8 \<times> u8 \<Rightarrow> string" where
  "show_ip = (\<lambda>(a, b, c, d). show_nat (unat a) @ ''.'' @ show_nat (unat b) @ ''.'' @ show_nat (unat c) @ ''.'' @ show_nat (unat d))"

definition skip_auth :: "httpd_req \<Rightarrow> bool" where
  "skip_auth req = (show_ip config_ap_static_ip = sock_ip req)"

definition isspace :: "char \<Rightarrow> bool" where
  "isspace c = (c = CHR '' '' \<or> (9 \<le> (of_char c :: nat) \<and> (of_char c :: nat) \<le> 13))"

text \<open>
  \<open>sscanf(buf, "Basic %249[^\n]", base64)\<close>: the blank of the format stands for any white space, also none.
  None when nothing is assigned.
\<close>

definition scan_basic :: "string \<Rightarrow> string option" where
  "scan_basic buf =
     (if starts_with ''Basic'' buf then
        (let s = take 249 (takeWhile (\<lambda>c. c \<noteq> CHR 0x0A) (dropWhile isspace (drop 5 buf)))
         in if s = [] then None else Some s)
      else None)"

text \<open>\<open>sscanf(buf, "%15[^:]:%15[^\n]", login, password)\<close>, None when it assigns fewer than two.\<close>

definition scan_login :: "string \<Rightarrow> (string \<times> string) option" where
  "scan_login buf =
     (let login = take 15 (takeWhile (\<lambda>c. c \<noteq> CHR '':'') buf); r = drop (length login) buf
      in if login = [] then None
         else
           (case r of
              c # r' \<Rightarrow>
                if c \<noteq> CHR '':'' then None
                else
                  (let password = take 15 (takeWhile (\<lambda>c. c \<noteq> CHR 0x0A) r')
                   in if password = [] then None else Some (login, password))
            | [] \<Rightarrow> None))"

text \<open>
  None: the digits are longer than the 240 characters that \<open>base64\<close> holds, or the settings cannot be read.
  The decoded bytes go to \<open>buf\<close>, which is read as a string.
\<close>

definition auth_check :: "httpd_req \<Rightarrow> httpd_resp \<Rightarrow> nvs_state \<Rightarrow> (bool \<times> httpd_resp \<times> nvs_state) option" where
  "auth_check req rsp s =
     (if skip_auth req then Some (True, rsp, s)
      else
        (case httpd_req_get_hdr_value_str req ''Authorization'' 256 of
           None \<Rightarrow> Some (False, reject rsp, s)
         | Some hdr \<Rightarrow>
             (case scan_basic hdr of
                None \<Rightarrow> Some (False, reject rsp, s)
              | Some base64 \<Rightarrow>
                  if length base64 > 240 then None
                  else
                    (case scan_login (cstr (map chr8 (base64_decode base64 (of_nat (length base64))))) of
                       None \<Rightarrow> Some (False, reject rsp, s)
                     | Some (login, password) \<Rightarrow>
                         if login \<noteq> config_web_login then Some (False, reject rsp, s)
                         else
                           (case config_web_password s of
                              None \<Rightarrow> None
                            | Some (p, s1) \<Rightarrow>
                                if password \<noteq> p then Some (False, reject rsp, s1) else Some (True, rsp, s1))))))"

section \<open>Properties\<close>

text \<open>The text that a client encodes in its header.\<close>

definition brings_password :: "string \<Rightarrow> httpd_req \<Rightarrow> bool" where
  "brings_password p req =
     (\<exists>hdr base64. req_hdr req ''Authorization'' = Some hdr \<and> scan_basic hdr = Some base64 \<and>
        scan_login (cstr (map chr8 (base64_decode base64 (of_nat (length base64))))) = Some (config_web_login, p))"

lemma auth_check_outcome:
  assumes "auth_check req rsp s = Some (ok, rsp', s')"
  shows "ok \<and> rsp' = rsp \<and> (skip_auth req \<and> s' = s \<or> (\<exists>p. brings_password p req \<and> config_web_password s = Some (p, s'))) \<or>
    \<not> ok \<and> \<not> skip_auth req \<and> rsp' = reject rsp \<and> (s' = s \<or> (\<exists>p. config_web_password s = Some (p, s')))"
  using assms
  by (auto simp: auth_check_def brings_password_def httpd_req_get_hdr_value_str_def split: if_splits option.splits prod.splits)

text \<open>
  A request gets past the check only over the device's own network or with the login and the password
  of the settings, encoded in its header; every other request is answered with 401, at once and by nothing
  else.
\<close>

theorem auth_sound:
  assumes "auth_check req rsp s = Some (ok, rsp', s')"
  shows "(ok \<longrightarrow> rsp' = rsp \<and> (skip_auth req \<or> (\<exists>p s1. config_web_password s = Some (p, s1) \<and> brings_password p req))) \<and>
    (\<not> ok \<longrightarrow> rsp_status rsp' = ''401'' \<and> rsp_sent rsp' = rsp_sent rsp @ [''Unauthorized''])"
  using auth_check_outcome [OF assms] by (auto simp: reject_def httpd_resp_send_def httpd_resp_set_hdr_def)

lemma base64_plain: "list_all (\<lambda>c. \<not> isspace c \<and> c \<noteq> CHR 0x0A) (encode_groups bs)"
proof -
  have "list_all (\<lambda>c. \<not> isspace c \<and> c \<noteq> CHR 0x0A) table" by code_simp
  moreover have "tab w \<in> set table" if "unat w < 64" for w
    unfolding tab_def by (rule nth_mem) (use that in \<open>simp add: table_def\<close>)
  ultimately have t: "unat w < 64 \<Longrightarrow> \<not> isspace (tab w) \<and> tab w \<noteq> CHR 0x0A" for w
    by (auto simp: list_all_iff)
  have e: "\<not> isspace CHR ''=''" by (simp add: isspace_def)
  show ?thesis by (induction bs rule: encode_groups.induct) (simp_all add: t e)
qed

lemma scan_basic_encoded:
  assumes "bs \<noteq> []" "length (encode_groups bs) \<le> 249"
  shows "scan_basic (''Basic '' @ encode_groups bs) = Some (encode_groups bs)"
proof -
  let ?t = "encode_groups bs"
  obtain c r where c: "?t = c # r" using length_encode_pos [OF assms(1)] by (cases ?t) auto
  have "isspace CHR '' ''" "\<not> isspace c" using base64_plain [of bs] c by (simp_all add: isspace_def)
  then have "dropWhile isspace (CHR '' '' # ?t) = ?t" by (simp add: c)
  moreover have "takeWhile (\<lambda>c. c \<noteq> CHR 0x0A) ?t = ?t"
    using base64_plain [of bs] by (auto simp: takeWhile_eq_all_conv list_all_iff)
  ultimately show ?thesis using assms(2) c by (simp add: scan_basic_def starts_with_def)
qed

lemma scan_login_plain:
  assumes "CHR '':'' \<notin> set l" "1 \<le> length l" "length l \<le> 15"
    and "CHR 0x0A \<notin> set p" "1 \<le> length p"
  shows "scan_login (l @ CHR '':'' # p) = Some (l, take 15 p)"
proof -
  have "takeWhile (\<lambda>c. c \<noteq> CHR '':'') (l @ CHR '':'' # p) = l" using assms(1) by (subst takeWhile_append2) auto
  moreover have "takeWhile (\<lambda>c. c \<noteq> CHR 0x0A) p = p" using assms(4) by (auto simp: takeWhile_eq_all_conv)
  ultimately show ?thesis using assms(2,3,5) by (cases l; cases p) (auto simp: scan_login_def)
qed

text \<open>The header of a client that sends login and password.\<close>

definition basic_header :: "string \<Rightarrow> string \<Rightarrow> string" where
  "basic_header login password = ''Basic '' @ the (base64_encode (map byte (login @ CHR '':'' # password)))"

lemma auth_check_header:
  assumes "req_hdr req ''Authorization'' = Some (basic_header config_web_login p)" "\<not> skip_auth req"
    and "is_cstr p" "CHR 0x0A \<notin> set p" "1 \<le> length p" "length p \<le> 100"
    and "config_web_password s = Some (q, s')"
  shows "auth_check req rsp s = (if take 15 p = q then Some (True, rsp, s') else Some (False, reject rsp, s'))"
proof -
  let ?u = "config_web_login @ CHR '':'' # p"
  let ?bs = "map byte ?u"
  have u: "length ?u = 6 + length p" "is_cstr ?u" using assms(3) by (simp_all add: config_web_login_def)
  have e: "base64_encode ?bs = Some (encode_groups ?bs)" "?bs \<noteq> []"
    by (simp_all add: base64_encode_def config_web_login_def)
  have l: "length (encode_groups ?bs) \<le> 240" using assms(6) by (simp add: length_encode_groups config_web_login_def)
  have h: "basic_header config_web_login p = ''Basic '' @ encode_groups ?bs" unfolding basic_header_def e by simp
  have hl: "length (basic_header config_web_login p) < 256" using l unfolding h by simp
  have "base64_decode (encode_groups ?bs) (of_nat (length (encode_groups ?bs))) = ?bs"
    using b64.dec_enc [of ?bs] e l assms(6) u(1) by (simp add: encodable_def)
  then have d: "cstr (map chr8 (base64_decode (encode_groups ?bs) (of_nat (length (encode_groups ?bs))))) = ?u"
    using u(2) by (simp add: comp_def)
  have "scan_login ?u = Some (config_web_login, take 15 p)"
    using assms(4,5) by (intro scan_login_plain) (simp_all add: config_web_login_def)
  moreover have "scan_basic (basic_header config_web_login p) = Some (encode_groups ?bs)"
    unfolding h using scan_basic_encoded [OF e(2)] l by simp
  ultimately show ?thesis
    using assms(1,2,7) hl l d by (simp add: auth_check_def httpd_req_get_hdr_value_str_def)
qed

text \<open>
  C29: The password of the settings opens the web interface: a request whose header holds the login and that
  password, in base64, is let through, and one with another password of at most fifteen characters is not.
\<close>

theorem auth_complete:
  assumes "req_hdr req ''Authorization'' = Some (basic_header config_web_login p)" "\<not> skip_auth req"
    and "is_cstr p" "CHR 0x0A \<notin> set p" "1 \<le> length p" "length p \<le> 15"
    and "config_web_password s = Some (q, s')"
  shows "auth_check req rsp s = Some (p = q, if p = q then rsp else reject rsp, s')"
  using auth_check_header [OF assms(1-5) _ assms(7)] assms(6) by simp

definition sample_req :: httpd_req where
  "sample_req = \<lparr>req_uri = ''/'', req_method = HTTP_GET,
     req_hdr = [''Authorization'' \<mapsto> basic_header config_web_login ''12345678''], content_len = 0, req_received = [],
     sock_ip = ''192.168.1.7''\<rparr>"

lemma sample_req_outside: "\<not> skip_auth sample_req"
  by (simp add: skip_auth_def sample_req_def show_ip_def config_ap_static_ip_def show_nat.simps digit_def
      char_of_def bit_Suc_0_iff)

lemma fresh_password: "\<exists>s. config_web_password fresh_nvs = Some (''12345678'', s) \<and> running s"
  by (simp add: config_web_password_def config_ap_password_def str_setting_def nvs_read_string_def nvs_save_string_def
      nvs_set_def fresh_nvs_def running_def nvs_enter_def nvs_init_def)

theorem auth_complete_witness:
  "\<exists>s'. auth_check sample_req fresh_resp fresh_nvs = Some (True, fresh_resp, s')"
proof -
  obtain s where s: "config_web_password fresh_nvs = Some (''12345678'', s)" using fresh_password by blast
  have "auth_check sample_req fresh_resp fresh_nvs =
      Some (''12345678'' = ''12345678'', if ''12345678'' = ''12345678'' then fresh_resp else reject fresh_resp, s)"
    by (rule auth_complete [OF _ sample_req_outside _ _ _ _ s]) (simp_all add: sample_req_def is_cstr_def)
  then show ?thesis by simp
qed

theorem auth_sound_witness:
  "\<exists>rsp' s'. auth_check (sample_req\<lparr>req_hdr := Map.empty\<rparr>) fresh_resp fresh_nvs = Some (False, rsp', s') \<and>
     rsp_status rsp' = ''401'' \<and> rsp_sent rsp' = [''Unauthorized'']"
proof -
  have "\<not> skip_auth (sample_req\<lparr>req_hdr := Map.empty\<rparr>)" using sample_req_outside by (simp add: skip_auth_def)
  then have "auth_check (sample_req\<lparr>req_hdr := Map.empty\<rparr>) fresh_resp fresh_nvs = Some (False, reject fresh_resp, fresh_nvs)"
    by (simp add: auth_check_def httpd_req_get_hdr_value_str_def)
  from this auth_sound [OF this] show ?thesis by (simp add: fresh_resp_def)
qed

text \<open>
  Only the first fifteen characters of the password that a request brings are looked at, so a password
  of fifteen characters with anything behind it is accepted.
\<close>

theorem auth_password_prefix:
  assumes "req_hdr req ''Authorization'' = Some (basic_header config_web_login (q @ x))" "\<not> skip_auth req"
    and "is_cstr (q @ x)" "CHR 0x0A \<notin> set (q @ x)" "length q = 15" "length x \<le> 85"
    and "config_web_password s = Some (q, s')"
  shows "auth_check req rsp s = Some (True, rsp, s')"
  using auth_check_header [OF assms(1-4) _ _ assms(7)] assms(5,6) by simp

theorem auth_password_prefix_witness:
  "\<exists>s s'. config_web_password s = Some (''fifteen--letter'', s') \<and>
     auth_check (sample_req\<lparr>req_hdr := [''Authorization'' \<mapsto> basic_header config_web_login ''fifteen--letter and more'']\<rparr>)
       fresh_resp s = Some (True, fresh_resp, s')"
proof -
  let ?s = "fresh_nvs\<lparr>items := [''ap_pass'' \<mapsto> NvsStr ''fifteen--letter'']\<rparr>"
  let ?q = "sample_req\<lparr>req_hdr := [''Authorization'' \<mapsto> basic_header config_web_login (''fifteen--letter'' @ '' and more'')]\<rparr>"
  have "running ?s" by (simp add: fresh_nvs_def running_def)
  then have p: "config_web_password ?s = Some (''fifteen--letter'', ?s)"
    by (simp add: config_web_password_def config_ap_password_def str_setting_def nvs_read_string_def)
  have "\<not> skip_auth ?q" using sample_req_outside by (simp add: skip_auth_def)
  from auth_password_prefix [OF _ this _ _ _ _ p, of "''fifteen--letter''"]
  have "auth_check ?q fresh_resp ?s = Some (True, fresh_resp, ?s)"
    using auth_password_prefix [OF _ \<open>\<not> skip_auth ?q\<close> _ _ _ _ p] by (simp add: is_cstr_def)
  with p show ?thesis by (intro exI [of _ ?s]) simp
qed

end
