(* ===== verification/PdjsonSkip.thy ===== *)
theory PdjsonSkip
  imports PdjsonShape
begin

text \<open>
  The look-ahead of \<open>src/firmware/components/pdjson/pdjson.c\<close>: the event that \<open>json_peek\<close> keeps in the field
  \<open>next\<close>, and the functions that pass over whole values. \<open>Pdjson.json_next\<close> is the part of \<open>json_next\<close>
  after the test of that field, which stays empty as long as nothing is peeked.
\<close>

record peekable =
  peeked :: "json_event option"
  stream :: json_stream

section \<open>Peeking, skipping, resetting\<close>

definition next_event :: "(string \<Rightarrow> int) \<Rightarrow> peekable \<Rightarrow> json_event \<times> peekable" where
  "next_event num s =
     (if error_flag (stream s) then (JSON_ERROR, s)
      else (case peeked s of
              Some e \<Rightarrow> (e, s\<lparr>peeked := None\<rparr>)
            | None \<Rightarrow> (case json_next num (stream s) of (e, j) \<Rightarrow> (e, s\<lparr>stream := j\<rparr>))))"

definition json_peek :: "(string \<Rightarrow> int) \<Rightarrow> peekable \<Rightarrow> json_event \<times> peekable" where
  "json_peek num s = (case next_event num s of (e, s') \<Rightarrow> (e, s'\<lparr>peeked := Some e\<rparr>))"

definition json_reset :: "peekable \<Rightarrow> peekable" where
  "json_reset s = s\<lparr>stream := (stream s)\<lparr>stack := [], ntokens := 0, error_flag := False\<rparr>\<rparr>"

text \<open>The counters \<open>cnt_arr\<close> and \<open>cnt_obj\<close>; subtraction on natural numbers has the guard of the code.\<close>

fun count :: "json_event \<Rightarrow> nat \<times> nat \<Rightarrow> nat \<times> nat" where
  "count JSON_ARRAY (a, b) = (a + 1, b)"
| "count JSON_ARRAY_END (a, b) = (a - 1, b)"
| "count JSON_OBJECT (a, b) = (a, b + 1)"
| "count JSON_OBJECT_END (a, b) = (a, b - 1)"
| "count _ c = c"

definition left :: "peekable \<Rightarrow> nat" where
  "left s = length (source (stream s)) + (if peeked s = None then 0 else 1)"

lemma next_event_left: "next_event num s = (e, s') \<Longrightarrow> \<not> final e \<Longrightarrow> left s' < left s"
  by (auto simp: next_event_def left_def split: prod.splits if_splits option.splits dest: json_next_shorter)

text \<open>The loop: what ended it, None for the counters, and the stream then.\<close>

function skip_loop :: "(string \<Rightarrow> int) \<Rightarrow> nat \<times> nat \<Rightarrow> peekable \<Rightarrow> json_event option \<times> peekable" where
  "skip_loop num c s =
     (case next_event num s of (skip, s') \<Rightarrow>
        if final skip then (Some skip, s')
        else if count skip c = (0, 0) then (None, s')
        else skip_loop num (count skip c) s')"
  by pat_completeness auto
termination by (relation "measure (\<lambda>(num, c, s). left s)") (auto dest: next_event_left [OF sym])

declare skip_loop.simps [simp del]

definition json_skip :: "(string \<Rightarrow> int) \<Rightarrow> peekable \<Rightarrow> json_event \<times> peekable" where
  "json_skip num s =
     (let type = fst (next_event num s)
      in case skip_loop num (0, 0) s of
           (Some skip, s') \<Rightarrow> (skip, s')
         | (None, s') \<Rightarrow> (type, s'))"

text \<open>The value of the enumeration that stands for an event.\<close>

fun json_type :: "json_event \<Rightarrow> json_event" where
  "json_type (JSON_STRING s) = JSON_STRING []"
| "json_type (JSON_NUMBER n) = JSON_NUMBER 0"
| "json_type e = e"

lemma skip_loop_left: "skip_loop num c s = (None, s') \<Longrightarrow> left s' < left s"
proof (induction num c s rule: skip_loop.induct)
  case (1 num c s)
  obtain e s1 where n: "next_event num s = (e, s1)" by fastforce
  with 1(2) have f: "\<not> final e" by (auto simp: skip_loop.simps [of num c s] split: if_splits)
  show ?case
  proof (cases "count e c = (0, 0)")
    case True
    with n f 1(2) show ?thesis by (auto simp: skip_loop.simps [of num c s] next_event_left)
  next
    case False
    with n f 1(2) have "skip_loop num (count e c) s1 = (None, s')" by (simp add: skip_loop.simps [of num c s])
    from 1(1) [OF n [symmetric] f False this] next_event_left [OF n f] show ?thesis by simp
  qed
qed

lemma skip_loop_final: "skip_loop num c s = (Some e, s') \<Longrightarrow> final e"
proof (induction num c s rule: skip_loop.induct)
  case (1 num c s)
  then show ?case
    by (subst (asm) skip_loop.simps [of num c s]) (auto split: prod.splits if_splits)
qed

lemma json_skip_left: "json_skip num s = (e, s') \<Longrightarrow> \<not> final e \<Longrightarrow> left s' < left s"
  by (auto simp: json_skip_def Let_def split: prod.splits option.splits dest: skip_loop_left skip_loop_final)

function json_skip_until :: "(string \<Rightarrow> int) \<Rightarrow> json_event \<Rightarrow> peekable \<Rightarrow> json_event \<times> peekable" where
  "json_skip_until num type s =
     (case json_skip num s of (skip, s') \<Rightarrow>
        if final skip then (skip, s')
        else if json_type skip = type then (type, s')
        else json_skip_until num type s')"
  by pat_completeness auto
termination by (relation "measure (\<lambda>(num, type, s). left s)") (auto dest: json_skip_left [OF sym])

declare json_skip_until.simps [simp del]

section \<open>The events ahead\<close>

definition ahead :: "(string \<Rightarrow> int) \<Rightarrow> peekable \<Rightarrow> json_event list" where
  "ahead num s =
     (if error_flag (stream s) then [JSON_ERROR]
      else (case peeked s of
              None \<Rightarrow> json_run num (stream s)
            | Some e \<Rightarrow> if final e then [e] else e # json_run num (stream s)))"

lemma json_run_flag: "error_flag j \<Longrightarrow> json_run num j = [JSON_ERROR]"
  by (subst json_run.simps) (simp add: json_next_def)

lemma ahead_next:
  "next_event num s = (e, s') \<Longrightarrow> ahead num s = (if final e then [e] else e # ahead num s')"
  by (cases "peeked s")
     (auto simp: next_event_def ahead_def json_run.simps [of num "stream s"] json_run_flag split: prod.splits if_splits)

definition opened :: "string \<Rightarrow> peekable" where
  "opened t = \<lparr>peeked = None, stream = json_open_string t\<rparr>"

lemma ahead_open: "ahead num (opened t) = json_events num t"
  by (simp add: opened_def ahead_def json_events_def json_open_string_def)

lemma next_ahead:
  assumes "ahead num s = e # es" "es \<noteq> []"
  shows "\<exists>s'. next_event num s = (e, s') \<and> \<not> final e \<and> ahead num s' = es"
proof -
  obtain e1 s1 where n: "next_event num s = (e1, s1)" by fastforce
  from ahead_next [OF n] assms n show ?thesis by (auto split: if_splits)
qed

text \<open>One step of the loop, and the steps through whole values inside an open container.\<close>

lemma skip_loop_step:
  assumes "ahead num s = e # es" "es \<noteq> []" "count e c \<noteq> (0, 0)"
  shows "\<exists>s'. ahead num s' = es \<and> skip_loop num c s = skip_loop num (count e c) s'"
  using next_ahead [OF assms(1,2)] assms(3) by (auto simp: skip_loop.simps [of num c s])

lemma skip_loop_stop:
  assumes "ahead num s = e # es" "es \<noteq> []" "count e c = (0, 0)"
  shows "\<exists>s'. ahead num s' = es \<and> skip_loop num c s = (None, s')"
  using next_ahead [OF assms(1,2)] assms(3) by (auto simp: skip_loop.simps [of num c s])

lemma count_scalar: "scalar_event e \<Longrightarrow> count e c = c"
  by (cases e) (auto simp: scalar_event_def)

lemma skip_loop_inside:
  "value_events v \<Longrightarrow> c \<noteq> (0, 0) \<Longrightarrow> ahead num s = v @ es \<Longrightarrow> es \<noteq> [] \<Longrightarrow>
     \<exists>s'. ahead num s' = es \<and> skip_loop num c s = skip_loop num c s'"
  "element_events vs \<Longrightarrow> c \<noteq> (0, 0) \<Longrightarrow> ahead num s = vs @ es \<Longrightarrow> es \<noteq> [] \<Longrightarrow>
     \<exists>s'. ahead num s' = es \<and> skip_loop num c s = skip_loop num c s'"
  "member_events ms \<Longrightarrow> c \<noteq> (0, 0) \<Longrightarrow> ahead num s = ms @ es \<Longrightarrow> es \<noteq> [] \<Longrightarrow>
     \<exists>s'. ahead num s' = es \<and> skip_loop num c s = skip_loop num c s'"
proof (induction arbitrary: c s es and c s es and c s es rule: value_events_element_events_member_events.inducts)
  case (scalar e)
  then show ?case using skip_loop_step [of num s e es c] by (simp add: count_scalar)
next
  case (array vs)
  obtain a b where c: "c = (a, b)" by fastforce
  obtain s1 where s1: "ahead num s1 = vs @ JSON_ARRAY_END # es" "skip_loop num c s = skip_loop num (a + 1, b) s1"
    using skip_loop_step [of num s JSON_ARRAY "vs @ JSON_ARRAY_END # es" c] array.prems c by auto
  obtain s2 where s2: "ahead num s2 = JSON_ARRAY_END # es" "skip_loop num (a + 1, b) s1 = skip_loop num (a + 1, b) s2"
    using array.IH [of "(a + 1, b)" s1 "JSON_ARRAY_END # es"] s1 by auto
  from skip_loop_step [OF s2(1) array.prems(3), of "(a + 1, b)"] s1 s2 array.prems(1) c show ?case by auto
next
  case (object ms)
  obtain a b where c: "c = (a, b)" by fastforce
  obtain s1 where s1: "ahead num s1 = ms @ JSON_OBJECT_END # es" "skip_loop num c s = skip_loop num (a, b + 1) s1"
    using skip_loop_step [of num s JSON_OBJECT "ms @ JSON_OBJECT_END # es" c] object.prems c by auto
  obtain s2 where s2: "ahead num s2 = JSON_OBJECT_END # es" "skip_loop num (a, b + 1) s1 = skip_loop num (a, b + 1) s2"
    using object.IH [of "(a, b + 1)" s1 "JSON_OBJECT_END # es"] s1 by auto
  from skip_loop_step [OF s2(1) object.prems(3), of "(a, b + 1)"] s1 s2 object.prems(1) c show ?case by auto
next
  case (element v vs)
  obtain s1 where s1: "ahead num s1 = vs @ es" "skip_loop num c s = skip_loop num c s1"
    using element.IH(1) [of c s "vs @ es"] element.prems by auto
  from element.IH(2) [OF element.prems(1) s1(1) element.prems(3)] s1(2) show ?case by auto
next
  case (member v ms k)
  obtain s1 where s1: "ahead num s1 = v @ ms @ es" "skip_loop num c s = skip_loop num c s1"
    using skip_loop_step [of num s "JSON_STRING k" "v @ ms @ es" c] member.prems by auto
  obtain s2 where s2: "ahead num s2 = ms @ es" "skip_loop num c s1 = skip_loop num c s2"
    using member.IH(1) [of c s1 "ms @ es"] member.prems s1 by auto
  from member.IH(2) [OF member.prems(1) s2(1) member.prems(3)] s1(2) s2(2) show ?case by auto
qed auto

lemma skip_loop_value:
  assumes "value_events v" "ahead num s = v @ es" "es \<noteq> []"
  shows "\<exists>s'. ahead num s' = es \<and> skip_loop num (0, 0) s = (None, s')"
  using assms(1)
proof cases
  case (scalar e)
  with assms show ?thesis using skip_loop_stop [of num s e es "(0, 0)"] by (simp add: count_scalar)
next
  case (array vs)
  obtain s1 where s1: "ahead num s1 = vs @ JSON_ARRAY_END # es" "skip_loop num (0, 0) s = skip_loop num (1, 0) s1"
    using skip_loop_step [of num s JSON_ARRAY "vs @ JSON_ARRAY_END # es" "(0, 0)"] assms array by auto
  obtain s2 where s2: "ahead num s2 = JSON_ARRAY_END # es" "skip_loop num (1, 0) s1 = skip_loop num (1, 0) s2"
    using skip_loop_inside(2) [OF array(2) _ s1(1), of "(1, 0)"] by auto
  from skip_loop_stop [OF s2(1) assms(3), of "(1, 0)"] s1(2) s2(2) show ?thesis by auto
next
  case (object ms)
  obtain s1 where s1: "ahead num s1 = ms @ JSON_OBJECT_END # es" "skip_loop num (0, 0) s = skip_loop num (0, 1) s1"
    using skip_loop_step [of num s JSON_OBJECT "ms @ JSON_OBJECT_END # es" "(0, 0)"] assms object by auto
  obtain s2 where s2: "ahead num s2 = JSON_OBJECT_END # es" "skip_loop num (0, 1) s1 = skip_loop num (0, 1) s2"
    using skip_loop_inside(3) [OF object(2) _ s1(1), of "(0, 1)"] by auto
  from skip_loop_stop [OF s2(1) assms(3), of "(0, 1)"] s1(2) s2(2) show ?thesis by auto
qed

lemma value_nonempty: "value_events v \<Longrightarrow> v \<noteq> []"
  by (erule value_events.cases) auto

lemma json_skip_value:
  assumes "value_events v" "ahead num s = v @ es" "es \<noteq> []"
  shows "\<exists>s'. json_skip num s = (hd v, s') \<and> ahead num s' = es"
proof -
  from value_nonempty [OF assms(1)] assms(2,3) obtain s1 where "next_event num s = (hd v, s1)"
    using next_ahead [of num s "hd v" "tl v @ es"] by (cases v) auto
  with skip_loop_value [OF assms] show ?thesis by (auto simp: json_skip_def)
qed

lemma json_skip_end:
  assumes "ahead num s = e # es" "es \<noteq> []" "e = JSON_ARRAY_END \<or> e = JSON_OBJECT_END"
  shows "\<exists>s'. json_skip num s = (e, s') \<and> ahead num s' = es"
  using next_ahead [OF assms(1,2)] assms(3) by (auto simp: json_skip_def skip_loop.simps [of num _ s])

lemma value_type:
  "value_events v \<Longrightarrow> json_type (hd v) \<noteq> JSON_ARRAY_END \<and> json_type (hd v) \<noteq> JSON_OBJECT_END \<and> \<not> final (hd v)"
  by (erule value_events.cases) (auto simp: scalar_event_def split: json_event.splits)

lemma skip_until_passes:
  assumes "value_events v" "ahead num s = v @ es" "es \<noteq> []" "e = JSON_ARRAY_END \<or> e = JSON_OBJECT_END"
  shows "\<exists>s'. ahead num s' = es \<and> json_skip_until num e s = json_skip_until num e s'"
  using json_skip_value [OF assms(1-3)] value_type [OF assms(1)] assms(4)
  by (auto simp: json_skip_until.simps [of num e s])

lemma skip_until_stops:
  assumes "ahead num s = e # es" "es \<noteq> []" "e = JSON_ARRAY_END \<or> e = JSON_OBJECT_END"
  shows "\<exists>s'. json_skip_until num e s = (e, s') \<and> ahead num s' = es"
  using json_skip_end [OF assms] assms(3) by (auto simp: json_skip_until.simps [of num e s])

lemma skip_until_end:
  "value_events v \<Longrightarrow> True"
  "element_events vs \<Longrightarrow> ahead num s = vs @ JSON_ARRAY_END # es \<Longrightarrow> es \<noteq> [] \<Longrightarrow>
     \<exists>s'. json_skip_until num JSON_ARRAY_END s = (JSON_ARRAY_END, s') \<and> ahead num s' = es"
  "member_events ms \<Longrightarrow> ahead num s = ms @ JSON_OBJECT_END # es \<Longrightarrow> es \<noteq> [] \<Longrightarrow>
     \<exists>s'. json_skip_until num JSON_OBJECT_END s = (JSON_OBJECT_END, s') \<and> ahead num s' = es"
proof (induction arbitrary: and s and s rule: value_events_element_events_member_events.inducts)
  case (element v vs)
  with skip_until_passes [of v num s "vs @ JSON_ARRAY_END # es" JSON_ARRAY_END] show ?case by fastforce
next
  case (member v ms k)
  obtain s1 where s1: "ahead num s1 = v @ ms @ JSON_OBJECT_END # es"
    "json_skip_until num JSON_OBJECT_END s = json_skip_until num JSON_OBJECT_END s1"
    using skip_until_passes [of "[JSON_STRING k]" num s "v @ ms @ JSON_OBJECT_END # es" JSON_OBJECT_END] member.prems
    by (auto simp: scalar)
  with skip_until_passes [of v num s1 "ms @ JSON_OBJECT_END # es" JSON_OBJECT_END] member show ?case by fastforce
qed (simp_all add: skip_until_stops)

text \<open>Peeking changes nothing, unless the number peeked at is malformed in a way that sets the error flag.\<close>

lemma peek_transparent:
  assumes "json_peek num s = (e, s')" "\<not> error_flag (stream s')"
  shows "ahead num s' = ahead num s" "json_peek num s' = (e, s')" "hd (ahead num s) = e"
proof -
  obtain s1 where n: "next_event num s = (e, s1)" "s' = s1\<lparr>peeked := Some e\<rparr>"
    using assms(1) by (auto simp: json_peek_def split: prod.splits)
  have "peeked s1 = None" using n assms(2) by (auto simp: next_event_def split: prod.splits if_splits option.splits)
  then show "ahead num s' = ahead num s" "json_peek num s' = (e, s')" "hd (ahead num s) = e"
    using ahead_next [OF n(1)] n assms(2)
    by (auto simp: ahead_def json_peek_def next_event_def split: prod.splits)
qed

text \<open>What was peeked stays in the field through a reset, so a parser that is started again first delivers it.\<close>

lemma reset_keeps_peeked: "peeked s = Some e \<Longrightarrow> next_event num (json_reset s) = (e, (json_reset s)\<lparr>peeked := None\<rparr>)"
  by (simp add: next_event_def json_reset_def)

text \<open>
  Skipping passes over exactly one value: whatever value comes next, however deeply it is nested,
  \<open>json_skip\<close> answers the event it begins with and leaves what follows it; and \<open>json_skip_until\<close> the end of a container,
  called anywhere between its elements or members, passes over all that remain, their own brackets included, and
  stops after the bracket that closes this container.
\<close>

theorem skip_one_value:
  assumes "value_events v" "element_events vs" "member_events ms" "es \<noteq> []"
  shows "ahead num s = v @ es \<Longrightarrow> \<exists>s'. json_skip num s = (hd v, s') \<and> ahead num s' = es"
    and "ahead num s = vs @ JSON_ARRAY_END # es \<Longrightarrow>
      \<exists>s'. json_skip_until num JSON_ARRAY_END s = (JSON_ARRAY_END, s') \<and> ahead num s' = es"
    and "ahead num s = ms @ JSON_OBJECT_END # es \<Longrightarrow>
      \<exists>s'. json_skip_until num JSON_OBJECT_END s = (JSON_OBJECT_END, s') \<and> ahead num s' = es"
  using json_skip_value [OF assms(1) _ assms(4)] skip_until_end(2) [OF assms(2) _ assms(4)]
    skip_until_end(3) [OF assms(3) _ assms(4)] by blast+

theorem skip_one_value_witness:
  "\<exists>s'. json_skip (\<lambda>_. 0) (opened ''[[{\"k\":[]}]] '') = (JSON_ARRAY, s') \<and>
     ahead (\<lambda>_. 0) s' = [JSON_DONE]"
proof -
  let ?v = "[JSON_ARRAY, JSON_ARRAY, JSON_OBJECT, JSON_STRING ''k'', JSON_ARRAY, JSON_ARRAY_END, JSON_OBJECT_END,
    JSON_ARRAY_END, JSON_ARRAY_END]"
  have a: "ahead (\<lambda>_. 0) (opened ''[[{\"k\":[]}]] '') = ?v @ [JSON_DONE]"
    unfolding ahead_open by code_simp
  note inner = object [OF member [OF array [OF no_element] no_member, of "''k''"]]
  have "value_events ?v"
    using array [OF element [OF array [OF element [OF inner no_element]] no_element]] by simp
  from skip_one_value(1) [OF this no_element no_member _ a] show ?thesis by simp
qed

end
