(* ===== verification/HandlerTable.thy ===== *)
theory HandlerTable
  imports HttpdUri
begin

text \<open>
  The array of handlers of \<open>src/esp-idf/components/esp_http_server/src/httpd_uri.c\<close>, as the code works on
  it: slots of pointers, of which the first free one ends the table, changed in place. \<open>HttpdUri\<close> sees the
  table as the list of its handlers; here the array operations are shown to implement those on the list.
\<close>

type_synonym 'h slots = "'h httpd_uri option list"

section \<open>The operations on the array\<close>

text \<open>\<open>for (i...) if (!hd_calls[i]) break;\<close>: the entry at \<open>i\<close> decides whether the loop goes on.\<close>

function find_slot :: "httpd_err \<Rightarrow> nat \<Rightarrow> 'h slots \<Rightarrow> string \<Rightarrow> httpd_method \<Rightarrow> httpd_err + 'h httpd_uri" where
  "find_slot err i hd_calls u m =
     (if i < length hd_calls then
        (case hd_calls ! i of
           None \<Rightarrow> Inl err
         | Some h \<Rightarrow>
             if httpd_uri_match_wildcard (uri h) u then
               (if uri_method h = m then Inr h else find_slot HTTPD_405_METHOD_NOT_ALLOWED (i + 1) hd_calls u m)
             else find_slot err (i + 1) hd_calls u m)
      else Inl err)"
  by pat_completeness auto
termination by (relation "measure (\<lambda>(err, i, hd_calls, u, m). length hd_calls - i)") auto

text \<open>
  As in \<open>HttpdUri\<close> the copy of the URI succeeds. If it did not, the slot would keep the pointer to the entry that
  the code has just freed.
\<close>

function store_first_free :: "bool \<Rightarrow> 'h httpd_uri \<Rightarrow> nat \<Rightarrow> 'h slots \<Rightarrow> bool \<times> 'h slots" where
  "store_first_free memory h i hd_calls =
     (if i < length hd_calls then
        (case hd_calls ! i of
           None \<Rightarrow> if memory then (True, hd_calls[i := Some h]) else (False, hd_calls)
         | Some _ \<Rightarrow> store_first_free memory h (i + 1) hd_calls)
      else (False, hd_calls))"
  by pat_completeness auto
termination by (relation "measure (\<lambda>(memory, h, i, hd_calls). length hd_calls - i)") auto

definition register_slot :: "bool \<Rightarrow> 'h slots \<Rightarrow> 'h httpd_uri \<Rightarrow> bool \<times> 'h slots" where
  "register_slot memory hd_calls h =
     (case find_slot HTTPD_404_NOT_FOUND 0 hd_calls (uri h) (uri_method h) of
        Inr _ \<Rightarrow> (False, hd_calls)
      | Inl _ \<Rightarrow> store_first_free memory h 0 hd_calls)"

function shift_down :: "nat \<Rightarrow> 'h slots \<Rightarrow> 'h slots" where
  "shift_down i hd_calls =
     (if i < length hd_calls then
        (case hd_calls ! i of
           None \<Rightarrow> hd_calls[i - 1 := None]
         | Some h \<Rightarrow> shift_down (i + 1) (hd_calls[i - 1 := Some h]))
      else hd_calls[i - 1 := None])"
  by pat_completeness auto
termination by (relation "measure (\<lambda>(i, hd_calls). length hd_calls - i)") auto

function unregister_from :: "string \<Rightarrow> httpd_method \<Rightarrow> nat \<Rightarrow> 'h slots \<Rightarrow> bool \<times> 'h slots" where
  "unregister_from u m i hd_calls =
     (if i < length hd_calls then
        (case hd_calls ! i of
           None \<Rightarrow> (False, hd_calls)
         | Some h \<Rightarrow>
             if uri_method h = m \<and> uri h = u then (True, shift_down (i + 1) (hd_calls[i := None]))
             else unregister_from u m (i + 1) hd_calls)
      else (False, hd_calls))"
  by pat_completeness auto
termination by (relation "measure (\<lambda>(u, m, i, hd_calls). length hd_calls - i)") auto

definition httpd_unregister_uri_handler :: "string \<Rightarrow> httpd_method \<Rightarrow> 'h slots \<Rightarrow> bool \<times> 'h slots" where
  "httpd_unregister_uri_handler u m hd_calls = unregister_from u m 0 hd_calls"

text \<open>The loop of \<open>httpd_unregister_uri\<close> with its count \<open>j\<close> of removed entries, and the loop after it.\<close>

function gather :: "string \<Rightarrow> nat \<Rightarrow> nat \<Rightarrow> bool \<Rightarrow> 'h slots \<Rightarrow> nat \<times> nat \<times> bool \<times> 'h slots" where
  "gather u i j found hd_calls =
     (if i < length hd_calls then
        (case hd_calls ! i of
           None \<Rightarrow> (i, j, found, hd_calls)
         | Some h \<Rightarrow>
             if uri h = u then gather u (i + 1) (j + 1) True (hd_calls[i := None])
             else gather u (i + 1) j found (hd_calls[i - j := hd_calls ! i]))
      else (i, j, found, hd_calls))"
  by pat_completeness auto
termination by (relation "measure (\<lambda>(u, i, j, found, hd_calls). length hd_calls - i)") auto

fun nullify :: "nat \<Rightarrow> nat \<Rightarrow> 'h slots \<Rightarrow> 'h slots" where
  "nullify k 0 hd_calls = hd_calls"
| "nullify k (Suc n) hd_calls = nullify (k + 1) n (hd_calls[k := None])"

definition httpd_unregister_uri :: "string \<Rightarrow> 'h slots \<Rightarrow> bool \<times> 'h slots" where
  "httpd_unregister_uri u hd_calls =
     (case gather u 0 0 False hd_calls of (i, j, found, hd_calls) \<Rightarrow> (found, nullify (i - j) j hd_calls))"

function httpd_unregister_all_uri_handlers :: "nat \<Rightarrow> 'h slots \<Rightarrow> 'h slots" where
  "httpd_unregister_all_uri_handlers i hd_calls =
     (if i < length hd_calls then
        (case hd_calls ! i of
           None \<Rightarrow> hd_calls
         | Some _ \<Rightarrow> httpd_unregister_all_uri_handlers (i + 1) (hd_calls[i := None]))
      else hd_calls)"
  by pat_completeness auto
termination by (relation "measure (\<lambda>(i, hd_calls). length hd_calls - i)") auto

declare find_slot.simps [simp del] store_first_free.simps [simp del] shift_down.simps [simp del]
  unregister_from.simps [simp del] gather.simps [simp del] httpd_unregister_all_uri_handlers.simps [simp del]

section \<open>What the array stands for\<close>

text \<open>A table of \<open>free\<close> free places after the handlers.\<close>

definition slots_of :: "'h httpd_uri list \<Rightarrow> nat \<Rightarrow> 'h slots" where
  "slots_of hs free = map Some hs @ replicate free None"

lemma slots_of_length [simp]: "length (slots_of hs free) = length hs + free"
  by (simp add: slots_of_def)

lemma slots_of_nth:
  "slots_of (pre @ h # post) free ! length pre = Some h"
  "0 < free \<Longrightarrow> slots_of hs free ! length hs = None"
  by (simp_all add: slots_of_def nth_append)

lemma find_slot_list:
  "find_slot err (length pre) (slots_of (pre @ hs) free) u m = find_from err hs u m"
proof (induction hs arbitrary: pre err)
  case Nil
  show ?case by (subst find_slot.simps) (simp add: slots_of_nth(2))
next
  case (Cons h hs)
  from Cons [of _ "pre @ [h]"] show ?case by (subst find_slot.simps) (simp add: slots_of_nth(1))
qed

lemma store_first_free_list:
  "store_first_free memory h (length pre) (slots_of (pre @ hs) free) =
     (if memory \<and> 0 < free then (True, slots_of (pre @ hs @ [h]) (free - 1)) else (False, slots_of (pre @ hs) free))"
proof (induction hs arbitrary: pre)
  case Nil
  show ?case
    by (subst store_first_free.simps, cases free) (auto simp: slots_of_def nth_append list_update_append)
next
  case (Cons x hs)
  from Cons [of "pre @ [x]"] show ?case by (subst store_first_free.simps) (simp add: slots_of_nth(1))
qed

lemma shift_down_list:
  "shift_down (Suc (length pre)) (map Some pre @ x # map Some post @ replicate free None) =
     slots_of (pre @ post) (Suc free)"
proof (induction post arbitrary: pre x)
  case Nil
  show ?case
    by (subst shift_down.simps, cases free) (auto simp: slots_of_def nth_append list_update_append)
next
  case (Cons h post)
  from Cons [of "pre @ [h]" "Some h"] show ?case
    by (subst shift_down.simps) (simp add: slots_of_def nth_append list_update_append)
qed

fun remove_first :: "string \<Rightarrow> httpd_method \<Rightarrow> 'h httpd_uri list \<Rightarrow> 'h httpd_uri list" where
  "remove_first u m [] = []"
| "remove_first u m (h # hs) = (if uri_method h = m \<and> uri h = u then hs else h # remove_first u m hs)"

abbreviation serves :: "string \<Rightarrow> httpd_method \<Rightarrow> 'h httpd_uri \<Rightarrow> bool" where
  "serves u m h \<equiv> uri_method h = m \<and> uri h = u"

lemma unregister_from_list:
  "unregister_from u m (length pre) (slots_of (pre @ hs) free) =
     (list_ex (serves u m) hs,
      slots_of (pre @ remove_first u m hs) (if list_ex (serves u m) hs then Suc free else free))"
proof (induction hs arbitrary: pre)
  case Nil
  show ?case by (subst unregister_from.simps) (simp add: slots_of_nth(2))
next
  case (Cons h hs)
  from Cons [of "pre @ [h]"] shift_down_list [of pre None hs free] show ?case
    by (subst unregister_from.simps) (simp add: slots_of_nth(1), simp add: slots_of_def list_update_append)
qed

lemma gather_list:
  "length junk = j \<Longrightarrow> i = length kept + j \<Longrightarrow>
   \<exists>junk'. gather u i j found (map Some kept @ junk @ map Some hs @ replicate free None) =
     (i + length hs, length junk', found \<or> list_ex (\<lambda>h. uri h = u) hs,
      map Some (kept @ filter (\<lambda>h. uri h \<noteq> u) hs) @ junk' @ replicate free None) \<and>
     length kept + length junk' + length (filter (\<lambda>h. uri h \<noteq> u) hs) = i + length hs"
proof (induction hs arbitrary: kept junk i j found)
  case Nil
  then show ?case
    by (subst gather.simps) (auto simp: nth_append intro!: exI [of _ junk])
next
  case (Cons h hs)
  let ?s = "map Some kept @ junk @ map Some (h # hs) @ replicate free None"
  have at: "i < length ?s" "?s ! i = Some h" using Cons.prems by (simp_all add: nth_append)
  show ?case
  proof (cases "uri h = u")
    case True
    have "?s[i := None] = map Some kept @ (junk @ [None]) @ map Some hs @ replicate free None"
      using Cons.prems by (simp add: list_update_append)
    with Cons.IH [of "junk @ [None]" "Suc j" "Suc i" kept True] Cons.prems True at show ?thesis
      by (subst gather.simps) simp
  next
    case False
    obtain junk1 where j1: "length junk1 = j"
      "?s[i - j := Some h] = map Some (kept @ [h]) @ junk1 @ map Some hs @ replicate free None"
    proof (cases junk)
      case Nil
      with Cons.prems show ?thesis by (intro that [of "[]"]) (simp_all add: list_update_append)
    next
      case (Cons y ys)
      with Cons.prems show ?thesis by (intro that [of "ys @ [Some h]"]) (simp_all add: list_update_append)
    qed
    with Cons.IH [of junk1 j "Suc i" "kept @ [h]" found] Cons.prems False at show ?thesis
      by (subst gather.simps) simp
  qed
qed

lemma nullify_list:
  "nullify (length a) (length junk) (a @ junk @ b) = a @ replicate (length junk) None @ b"
proof (induction junk arbitrary: a)
  case (Cons x junk)
  from Cons [of "a @ [None]"] show ?case by simp
qed simp

lemma unregister_uri_list:
  "httpd_unregister_uri u (slots_of hs free) =
     (list_ex (\<lambda>h. uri h = u) hs,
      slots_of (filter (\<lambda>h. uri h \<noteq> u) hs) (free + length (filter (\<lambda>h. uri h = u) hs)))"
proof -
  let ?f = "filter (\<lambda>h. uri h \<noteq> u) hs"
  obtain junk where g: "gather u 0 0 False (slots_of hs free) =
      (length hs, length junk, list_ex (\<lambda>h. uri h = u) hs, map Some ?f @ junk @ replicate free None)"
    "length junk + length ?f = length hs"
    using gather_list [of "[]" 0 0 "[]" u False hs free] by (auto simp: slots_of_def)
  have "length hs - length junk = length (map Some ?f)" using g(2) by simp
  moreover have "length junk = length (filter (\<lambda>h. uri h = u) hs)"
    using g(2) sum_length_filter_compl [of "\<lambda>h. uri h = u" hs] by simp
  ultimately show ?thesis
    using nullify_list [of "map Some ?f" junk "replicate free None"] g(1)
    by (simp add: httpd_unregister_uri_def slots_of_def replicate_add [symmetric] add.commute)
qed

lemma unregister_all_list:
  "httpd_unregister_all_uri_handlers (length pre) (pre @ slots_of hs free) = pre @ replicate (length hs + free) None"
proof (induction hs arbitrary: pre)
  case Nil
  show ?case
    by (subst httpd_unregister_all_uri_handlers.simps, cases free) (auto simp: slots_of_def nth_append)
next
  case (Cons h hs)
  from Cons [of "pre @ [None]"] show ?case
    by (subst httpd_unregister_all_uri_handlers.simps)
       (simp add: slots_of_def nth_append list_update_append replicate_app_Cons_same)
qed

text \<open>
  The array implements the list: a look-up finds what it finds in the list, a new handler goes to the
  end while there is room, and a removal takes out exactly the handlers it names, keeps the order of the
  others and leaves no gap among them, whatever the array held.
\<close>

theorem handler_table_refined:
  "find_slot HTTPD_404_NOT_FOUND 0 (slots_of hs free) u m = httpd_find_uri_handler hs u m"
  "\<exists>free'. register_slot memory (slots_of hs free) h =
     (case httpd_register_uri_handler (length hs + free) memory hs h of (ok, hs') \<Rightarrow> (ok, slots_of hs' free'))"
  "\<exists>free'. httpd_unregister_uri_handler u m (slots_of hs free) =
     (list_ex (serves u m) hs, slots_of (remove_first u m hs) free')"
  "\<exists>free'. httpd_unregister_uri u (slots_of hs free) =
     (list_ex (\<lambda>h. uri h = u) hs, slots_of (filter (\<lambda>h. uri h \<noteq> u) hs) free')"
  "httpd_unregister_all_uri_handlers 0 (slots_of hs free) = slots_of [] (length hs + free)"
proof -
  show f: "find_slot HTTPD_404_NOT_FOUND 0 (slots_of hs free) u m = httpd_find_uri_handler hs u m" for u m
    using find_slot_list [of _ "[]" hs free] by (simp add: httpd_find_uri_handler_def)
  show "\<exists>free'. register_slot memory (slots_of hs free) h =
     (case httpd_register_uri_handler (length hs + free) memory hs h of (ok, hs') \<Rightarrow> (ok, slots_of hs' free'))"
    using store_first_free_list [of memory h "[]" hs free]
    by (auto simp: register_slot_def httpd_register_uri_handler_def f split: sum.split)
  show "\<exists>free'. httpd_unregister_uri_handler u m (slots_of hs free) =
     (list_ex (serves u m) hs, slots_of (remove_first u m hs) free')"
    using unregister_from_list [of u m "[]" hs free] by (auto simp: httpd_unregister_uri_handler_def)
  show "\<exists>free'. httpd_unregister_uri u (slots_of hs free) =
     (list_ex (\<lambda>h. uri h = u) hs, slots_of (filter (\<lambda>h. uri h \<noteq> u) hs) free')"
    using unregister_uri_list [of u hs free] by blast
  show "httpd_unregister_all_uri_handlers 0 (slots_of hs free) = slots_of [] (length hs + free)"
    using unregister_all_list [of "[]" hs free] by (simp add: slots_of_def)
qed

end
