(* ===== verification/Web.thy ===== *)
theory Web
  imports Auth Wifi CJsonParse Player System Http
begin

text \<open>
  \<open>src/firmware/main/web/web.c\<close>: the web interface of the device. A handler gets the request and the
  response as far as it has been prepared, and gives the answer to the server (true is \<open>ESP_OK\<close>), the
  response and the new state: that of the system, the decoder chip and the wireless network, which share
  one settings partition, the one of the system. What the handlers report of the platform is a parameter.
\<close>

record web =
  web_sys :: system
  web_chip :: vs
  web_wifi :: wifi

record web_env =
  env_num :: "string \<Rightarrow> int"
  env_zones_json :: string
  env_index_html :: string
  env_seconds_pos :: u16
  env_time_buf :: string
  env_heap_free :: nat
  env_heap_free_min :: nat
  env_mac :: "u8 list"
  env_uptime :: int
  env_desc :: app_desc
  env_number_of_tasks :: nat
  env_task_list :: "string option"
  env_runtime_stats :: "string option"
  env_json_malloc_ok :: bool

type_synonym web_result = "(bool \<times> httpd_resp \<times> web) option"

section \<open>The settings partition of the state\<close>

definition web_nvs :: "web \<Rightarrow> nvs_state" where
  "web_nvs w = sys_nvs (web_sys w)"

definition set_nvs :: "nvs_state \<Rightarrow> web \<Rightarrow> web" where
  "set_nvs n w = w\<lparr>web_sys := (web_sys w)\<lparr>sys_nvs := n\<rparr>\<rparr>"

definition read_setting :: "(nvs_state \<Rightarrow> ('a \<times> nvs_state) option) \<Rightarrow> web \<Rightarrow> ('a \<times> web) option" where
  "read_setting get w = map_option (\<lambda>(v, n). (v, set_nvs n w)) (get (web_nvs w))"

text \<open>Operations of the player, the offline scheduler and the wireless network on the shared partition.\<close>

definition on_player :: "(sound \<Rightarrow> sound option) \<Rightarrow> web \<Rightarrow> web option" where
  "on_player f w = map_option (\<lambda>(c, n). set_nvs n (w\<lparr>web_chip := c\<rparr>)) (f (web_chip w, web_nvs w))"

definition on_offline :: "(offline \<Rightarrow> (bool \<times> offline) option) \<Rightarrow> web \<Rightarrow> web option" where
  "on_offline f w =
     map_option (\<lambda>(_, st). set_nvs (store st) (w\<lparr>web_sys := (web_sys w)\<lparr>sys_offline := st\<rparr>\<rparr>))
       (f ((sys_offline (web_sys w))\<lparr>store := web_nvs w\<rparr>))"

definition on_wifi :: "(wifi \<Rightarrow> (bool \<times> wifi) option) \<Rightarrow> web \<Rightarrow> web option" where
  "on_wifi f w =
     map_option (\<lambda>(_, x). set_nvs (wf_store x) (w\<lparr>web_wifi := x\<rparr>)) (f ((web_wifi w)\<lparr>wf_store := web_nvs w\<rparr>))"

section \<open>Responses\<close>

definition httpd_resp_send_err :: "string \<Rightarrow> string \<Rightarrow> httpd_resp \<Rightarrow> httpd_resp" where
  "httpd_resp_send_err status msg r =
     httpd_resp_send msg (r\<lparr>rsp_status := status, rsp_type := ''text/html''\<rparr>)"

definition httpd_resp_send_404 :: "httpd_resp \<Rightarrow> httpd_resp" where
  "httpd_resp_send_404 = httpd_resp_send_err ''404 Not Found'' ''This URI does not exist''"

definition httpd_resp_send_405 :: "httpd_resp \<Rightarrow> httpd_resp" where
  "httpd_resp_send_405 =
     httpd_resp_send_err ''405 Method Not Allowed'' ''Request method for this URI is not handled by server''"

definition httpd_resp_send_500 :: "httpd_resp \<Rightarrow> httpd_resp" where
  "httpd_resp_send_500 =
     httpd_resp_send_err ''500 Internal Server Error'' ''Server has encountered an unexpected error''"

text \<open>\<open>if (cJSON_PrintPreallocated(root, json, size, 0)) send else send 500\<close>\<close>

definition send_json :: "members \<Rightarrow> nat \<Rightarrow> httpd_resp \<Rightarrow> httpd_resp" where
  "send_json root n r =
     (case cJSON_PrintPreallocated (JObject root) n of
        Some json \<Rightarrow> httpd_resp_send json r
      | None \<Rightarrow> httpd_resp_send_500 r)"

text \<open>Reading a setting before going on with its value.\<close>

definition with_setting ::
  "(nvs_state \<Rightarrow> ('a \<times> nvs_state) option) \<Rightarrow> web \<Rightarrow> ('a \<Rightarrow> web \<Rightarrow> 'b option) \<Rightarrow> 'b option" where
  "with_setting get w k = (case read_setting get w of None \<Rightarrow> None | Some (v, w') \<Rightarrow> k v w')"

definition render_settings :: "httpd_resp \<Rightarrow> web \<Rightarrow> (httpd_resp \<times> web) option" where
  "render_settings rsp w =
     (let rsp = rsp\<lparr>rsp_type := ''application/json''\<rparr>
      in with_setting config_wifi_ssid w (\<lambda>name w1.
         with_setting config_wifi_pass w1 (\<lambda>pass w2.
         with_setting config_timezone w2 (\<lambda>tz w3.
           Some (send_json
             (add ''timezone'' (JString tz)
               (cJSON_AddItemToObject ''wifi_pass'' (map_option JString pass)
                 (cJSON_AddItemToObject ''wifi_ssid'' (map_option JString name) []))) 1024 rsp, w3)))))"

text \<open>None: the name fills its buffer and is not terminated.\<close>

definition playing_text :: "device \<Rightarrow> string option" where
  "playing_text dev =
     (case player_get_now_playing (player_mutex dev) (player_name dev) 512 of
        (True, name) \<Rightarrow> name
      | (False, _) \<Rightarrow> Some [])"

definition render_status :: "web_env \<Rightarrow> httpd_resp \<Rightarrow> web \<Rightarrow> (httpd_resp \<times> web) option" where
  "render_status env rsp w =
     (let rsp = rsp\<lparr>rsp_type := ''application/json''\<rparr>; dev = sys_device (web_sys w)
      in case playing_text dev of
           None \<Rightarrow> None
         | Some playing \<Rightarrow>
             with_setting config_volume w (\<lambda>volume w1.
             with_setting config_random w1 (\<lambda>random w2.
               Some (send_json
                 (add ''online'' (JBool (status_online (web_sys w2)))
                 (add ''time'' (JString (env_time_buf env))
                 (add ''synchronizing'' (JBool (status_synchronizing (web_sys w2)))
                 (add ''random'' (JBool random)
                 (add ''volume'' (JNumber (uint volume))
                 (add ''seconds_pos'' (JNumber (uint (env_seconds_pos env)))
                 (add ''percent_pos'' (JNumber (uint (player_percents dev)))
                 (add ''now_playing'' (JString playing) [])))))))) 1024 rsp, w2))))"

text \<open>In pieces of 4096 characters, closed by an empty one, unless one piece is enough.\<close>

function pieces_of :: "nat \<Rightarrow> string \<Rightarrow> string list" where
  "pieces_of n s = (if s = [] \<or> n = 0 then [] else take n s # pieces_of n (drop n s))"
  by pat_completeness auto
termination
  by (relation "measure (\<lambda>(n, s). length s)") auto

declare pieces_of.simps [simp del]

definition HTTP_CHUNK_SIZE :: nat where
  "HTTP_CHUNK_SIZE = 4096"

definition send_text_file :: "string \<Rightarrow> httpd_resp \<Rightarrow> httpd_resp" where
  "send_text_file s rsp =
     (let d = cstr s
      in if length d \<le> HTTP_CHUNK_SIZE then httpd_resp_send d rsp
         else rsp\<lparr>rsp_sent := rsp_sent rsp @ pieces_of HTTP_CHUNK_SIZE d @ [[]]\<rparr>)"

section \<open>What the handlers share\<close>

definition set_close :: "httpd_resp \<Rightarrow> httpd_resp" where
  "set_close = httpd_resp_set_hdr ''Connection'' ''close''"

text \<open>\<open>if (!auth_check(req)) return ESP_OK;\<close>\<close>

definition authorised :: "httpd_req \<Rightarrow> (httpd_resp \<Rightarrow> web \<Rightarrow> web_result) \<Rightarrow> httpd_resp \<Rightarrow> web \<Rightarrow> web_result" where
  "authorised req k rsp w =
     (case auth_check req rsp (web_nvs w) of
        None \<Rightarrow> None
      | Some (False, rsp', n) \<Rightarrow> Some (True, rsp', set_nvs n w)
      | Some (True, rsp', n) \<Rightarrow> k rsp' (set_nvs n w))"

text \<open>\<open>render(req); return ESP_OK;\<close> and \<open>httpd_resp_send_500(req); return ESP_FAIL;\<close>\<close>

definition rendered :: "(httpd_resp \<times> web) option \<Rightarrow> web_result" where
  "rendered r = map_option (\<lambda>(rsp, w). (True, rsp, w)) r"

definition failed :: "httpd_resp \<Rightarrow> web \<Rightarrow> web_result" where
  "failed rsp w = Some (False, httpd_resp_send_500 rsp, w)"

text \<open>
  The JSON of the body: not more than \<open>limit\<close> bytes may be announced, one call of \<open>httpd_req_recv\<close> has to
  deliver at least one, and the text up to its first NUL has to be read as JSON.
\<close>

definition with_body ::
  "nat \<Rightarrow> web_env \<Rightarrow> httpd_req \<Rightarrow> (json \<Rightarrow> httpd_resp \<Rightarrow> web \<Rightarrow> web_result) \<Rightarrow> httpd_resp \<Rightarrow> web \<Rightarrow> web_result" where
  "with_body limit env req k rsp w =
     (if content_len req > limit then failed rsp w
      else
        (let buffer = take (content_len req) (req_received req)
         in if buffer = [] then failed rsp w
            else
              (case cJSON_Parse (env_num env) buffer of
                 None \<Rightarrow> failed rsp w
               | Some json \<Rightarrow> k json rsp w)))"

definition number_item :: "json \<Rightarrow> string \<Rightarrow> int option" where
  "number_item json name =
     (case cJSON_GetObjectItemCaseSensitive json name of Some (JNumber n) \<Rightarrow> Some (valueint n) | _ \<Rightarrow> None)"

definition string_item :: "json \<Rightarrow> string \<Rightarrow> string option" where
  "string_item json name =
     (case cJSON_GetObjectItemCaseSensitive json name of Some (JString s) \<Rightarrow> Some (cstr s) | _ \<Rightarrow> None)"

definition bool_item :: "json \<Rightarrow> string \<Rightarrow> bool option" where
  "bool_item json name =
     (case cJSON_GetObjectItemCaseSensitive json name of Some (JBool b) \<Rightarrow> Some b | _ \<Rightarrow> None)"

text \<open>\<open>if (cJSON_IsNumber(item)) f(item->valueint);\<close> and its like\<close>

definition if_given :: "'a option \<Rightarrow> ('a \<Rightarrow> web \<Rightarrow> web option) \<Rightarrow> web \<Rightarrow> web option" where
  "if_given item f w = (case item of None \<Rightarrow> Some w | Some v \<Rightarrow> f v w)"

section \<open>The handlers\<close>

definition settings_get_handler :: "httpd_req \<Rightarrow> httpd_resp \<Rightarrow> web \<Rightarrow> web_result" where
  "settings_get_handler req = authorised req (\<lambda>rsp w. rendered (render_settings (set_close rsp) w))"

definition status_get_handler :: "web_env \<Rightarrow> httpd_req \<Rightarrow> httpd_resp \<Rightarrow> web \<Rightarrow> web_result" where
  "status_get_handler env req = authorised req (\<lambda>rsp w. rendered (render_status env (set_close rsp) w))"

text \<open>An \<open>int\<close> passed as a \<open>uint8_t\<close> is reduced to its last eight bits.\<close>

definition volume_post_handler :: "web_env \<Rightarrow> httpd_req \<Rightarrow> httpd_resp \<Rightarrow> web \<Rightarrow> web_result" where
  "volume_post_handler env req = authorised req (\<lambda>rsp.
     with_body 128 env req (\<lambda>json rsp w.
       case number_item json ''volume'' of
         None \<Rightarrow> failed rsp w
       | Some v \<Rightarrow>
           (case on_player (player_set_volume (word_of_int v)) w of
              None \<Rightarrow> None
            | Some w1 \<Rightarrow> rendered (render_status env rsp w1))) (set_close rsp))"

definition tone_post_handler :: "web_env \<Rightarrow> httpd_req \<Rightarrow> httpd_resp \<Rightarrow> web \<Rightarrow> web_result" where
  "tone_post_handler env req = authorised req (\<lambda>rsp.
     with_body 256 env req (\<lambda>json rsp w.
       case Option.bind (if_given (number_item json ''bass_frequency_limit'')
              (\<lambda>v. on_player (player_set_bass_freqlimit (word_of_int v))) w) (\<lambda>w.
            Option.bind (if_given (number_item json ''bass_amplitude'')
              (\<lambda>v. on_player (player_set_bass_amplitude (word_of_int v))) w) (\<lambda>w.
            Option.bind (if_given (number_item json ''treble_frequency_limit'')
              (\<lambda>v. on_player (player_set_treble_freqlimit (word_of_int v))) w)
            (if_given (number_item json ''treble_amplitude'')
              (\<lambda>v. on_player (player_set_treble_amplitude (sint (word_of_int v :: u8))))))) of
         None \<Rightarrow> None
       | Some w1 \<Rightarrow> rendered (render_status env rsp w1)) (set_close rsp))"

definition tone_get_handler :: "httpd_req \<Rightarrow> httpd_resp \<Rightarrow> web \<Rightarrow> web_result" where
  "tone_get_handler req = authorised req (\<lambda>rsp w.
     with_setting config_bass_freqlimit w (\<lambda>bass w1.
     with_setting config_bass_amplitude w1 (\<lambda>bass_amp w2.
     with_setting config_treble_freqlimit w2 (\<lambda>treble w3.
     with_setting config_treble_amplitude w3 (\<lambda>treble_amp w4.
       Some (True, send_json
         (add ''treble_amplitude'' (JNumber treble_amp)
           (add ''treble_frequency_limit'' (JNumber (uint treble))
             (add ''bass_amplitude'' (JNumber (uint bass_amp))
               (add ''bass_frequency_limit'' (JNumber (uint bass)) [])))) 1024
         ((set_close rsp)\<lparr>rsp_type := ''application/json''\<rparr>), w4))))))"

text \<open>
  The part of \<open>settings_post_handler\<close> before its label \<open>exit\<close>, with the value of \<open>ok\<close>. The calls of the two
  getters after the first of each answer the same.
\<close>

definition store_timezone :: "web_env \<Rightarrow> string option \<Rightarrow> web \<Rightarrow> (bool \<times> web) option" where
  "store_timezone env tz w =
     (case tz of
        None \<Rightarrow> Some (True, w)
      | Some v \<Rightarrow>
          with_setting config_timezone w (\<lambda>current w1.
            if v = current then Some (True, w1)
            else
              with_setting (config_save_timezone v) w1 (\<lambda>ok w2.
                if \<not> ok then Some (False, w2)
                else
                  (case clock_set_timezone_from_config (env_zones_json env) (sys_tz (web_sys w2)) (web_nvs w2) of
                     None \<Rightarrow> None
                   | Some (_, z, n) \<Rightarrow> Some (True, set_nvs n (w2\<lparr>web_sys := (web_sys w2)\<lparr>sys_tz := z\<rparr>\<rparr>))))))"

definition store_network :: "string \<Rightarrow> string \<Rightarrow> web \<Rightarrow> (bool \<times> web) option" where
  "store_network name pass w =
     with_setting config_wifi_ssid w (\<lambda>name0 w1.
     with_setting config_wifi_pass w1 (\<lambda>pass0 w2.
       if name0 = Some name \<and> pass0 = Some pass then Some (True, w2)
       else
         with_setting (config_save_wifi_ssid (Some name)) w2 (\<lambda>ok1 w3.
           case (if ok1 then read_setting (config_save_wifi_pass (Some pass)) w3 else Some (False, w3)) of
             None \<Rightarrow> None
           | Some (ok, w4) \<Rightarrow> map_option (Pair ok) (on_wifi wifi_reconfig w4))))"

definition apply_settings :: "web_env \<Rightarrow> json \<Rightarrow> web \<Rightarrow> (bool \<times> web) option" where
  "apply_settings env json w =
     (case store_timezone env (string_item json ''timezone'') w of
        None \<Rightarrow> None
      | Some (False, w1) \<Rightarrow> Some (False, w1)
      | Some (True, w1) \<Rightarrow>
          (case (string_item json ''wifi_ssid'', string_item json ''wifi_pass'') of
             (Some name, Some pass) \<Rightarrow>
               if length name > 31 \<or> length pass > 63 then Some (False, w1) else store_network name pass w1
           | _ \<Rightarrow> Some (False, w1)))"

definition settings_post_handler :: "web_env \<Rightarrow> httpd_req \<Rightarrow> httpd_resp \<Rightarrow> web \<Rightarrow> web_result" where
  "settings_post_handler env req = authorised req (\<lambda>rsp.
     with_body 2048 env req (\<lambda>json rsp w.
       case apply_settings env json w of
         None \<Rightarrow> None
       | Some (True, w1) \<Rightarrow> rendered (render_settings rsp w1)
       | Some (False, w1) \<Rightarrow> failed rsp w1) (set_close rsp))"

definition playback_post_handler :: "web_env \<Rightarrow> httpd_req \<Rightarrow> httpd_resp \<Rightarrow> web \<Rightarrow> web_result" where
  "playback_post_handler env req = authorised req (\<lambda>rsp.
     with_body 128 env req (\<lambda>json rsp w.
       case Option.bind (if_given (string_item json ''action'')
              (\<lambda>a. if a = ''next'' then on_offline (\<lambda>st. Some (offline_scheduler_next st))
                   else if a = ''prev'' then on_offline (\<lambda>st. Some (offline_scheduler_prev st))
                   else Some) w)
            (if_given (bool_item json ''random'') (\<lambda>b. on_offline (offline_scheduler_set_random b))) of
         None \<Rightarrow> None
       | Some w1 \<Rightarrow> rendered (render_status env rsp w1)) (set_close rsp))"

text \<open>The device restarts, without a response.\<close>

definition reboot_post_handler :: "httpd_req \<Rightarrow> httpd_resp \<Rightarrow> web \<Rightarrow> web_result" where
  "reboot_post_handler req =
     authorised req (\<lambda>rsp w. Some (True, rsp, w\<lparr>web_sys := (web_sys w)\<lparr>sys_restarted := True\<rparr>\<rparr>))"

definition system_post_handler :: "web_env \<Rightarrow> httpd_req \<Rightarrow> httpd_resp \<Rightarrow> web \<Rightarrow> web_result" where
  "system_post_handler env req = authorised req (\<lambda>rsp.
     with_body 128 env req (\<lambda>json rsp w.
       case if_given (bool_item json ''disable_tls_certs_verification'')
              (\<lambda>b w. map_option snd (read_setting (config_save_disable_tls_certs_verification b) w)) w of
         None \<Rightarrow> None
       | Some w1 \<Rightarrow> rendered (render_status env rsp w1)) (set_close rsp))"

definition upper_hex :: "nat \<Rightarrow> char" where
  "upper_hex n = (if n < 10 then char_of (48 + n) else char_of (55 + n))"

definition mac_text :: "u8 list \<Rightarrow> string" where
  "mac_text m =
     concat (map (\<lambda>(i, b). (if i = 0 then [] else '':'') @ [upper_hex (unat b div 16), upper_hex (unat b mod 16)])
       (enumerate 0 m))"

definition tasks_header :: string where
  "tasks_header = ''Task Name'' @ [CHR 0x09] @ ''Status'' @ [CHR 0x09] @ ''Prio'' @ [CHR 0x09] @ ''Stack Free'' @
     [CHR 0x09] @ ''Task#'' @ [CHR 0x09] @ ''Affinity'' @ [CHR 0x0A]"

definition stats_header :: string where
  "stats_header = ''Task Name'' @ [CHR 0x09] @ ''Abs Time'' @ [CHR 0x09] @ ''% Time'' @ [CHR 0x0A]"

definition table_text :: "string \<Rightarrow> string option \<Rightarrow> string" where
  "table_text header t = (case t of None \<Rightarrow> ''malloc failed'' | Some rows \<Rightarrow> header @ rows)"

definition system_get_handler :: "web_env \<Rightarrow> httpd_req \<Rightarrow> httpd_resp \<Rightarrow> web \<Rightarrow> web_result" where
  "system_get_handler env req = authorised req (\<lambda>rsp w.
     with_setting config_server_url w (\<lambda>cloud w1.
     with_setting config_disable_tls_certs_verification w1 (\<lambda>no_certs w2.
       let rsp = (set_close rsp)\<lparr>rsp_type := ''application/json''\<rparr>;
           dev = sys_device (web_sys w2);
           root =
             add ''runtime_stats'' (JString (table_text stats_header (env_runtime_stats env)))
             (add ''task_list'' (JString (table_text tasks_header (env_task_list env)))
             (add ''useragent'' (JString (sysinfo_useragent (env_desc env) 128))
             (add ''disable_tls_certs_verification'' (JBool no_certs)
             (add ''cloud_addr'' (JString cloud)
             (add ''uptime'' (JNumber (env_uptime env))
             (add ''reset_reason'' (JString (sysinfo_reset_reason (reset_reason dev)))
             (add ''ap_static_addr'' (JString (show_ip config_ap_static_ip))
             (add ''ip_addr'' (JString (sta_ip_addr dev))
             (add ''mac_addr'' (JString (mac_text (env_mac env)))
             (add ''heap_free_min'' (JNumber (int (env_heap_free_min env)))
             (add ''heap_free'' (JNumber (int (env_heap_free env))) [])))))))))));
           bytes_for_tasks_list = env_number_of_tasks env * 40 + length tasks_header
       in Some (True,
            if env_json_malloc_ok env then send_json root (1200 + bytes_for_tasks_list * 2) rsp
            else httpd_resp_send_500 rsp, w2))))"

definition zones_get_handler :: "web_env \<Rightarrow> httpd_req \<Rightarrow> httpd_resp \<Rightarrow> web \<Rightarrow> web_result" where
  "zones_get_handler env req =
     authorised req (\<lambda>rsp w. Some (True, send_text_file (env_zones_json env) (set_close rsp), w))"

definition root_get_handler :: "web_env \<Rightarrow> httpd_req \<Rightarrow> httpd_resp \<Rightarrow> web \<Rightarrow> web_result" where
  "root_get_handler env req = authorised req (\<lambda>rsp w.
     let rsp = set_close rsp
     in Some (True,
          if req_uri req = ''/'' \<or> req_uri req = ''/index.html''
          then send_text_file (env_index_html env) (rsp\<lparr>rsp_type := ''text/html''\<rparr>)
          else if req_uri req = ''/favicon.ico'' then httpd_resp_send [] (rsp\<lparr>rsp_type := ''image/x-icon''\<rparr>)
          else httpd_resp_send_404 rsp, w))"

section \<open>The server\<close>

datatype web_handler =
    Root_Get | Settings_Get | Settings_Post | Status_Get | Volume_Post | Tone_Post | Tone_Get | Playback_Post
  | Reboot_Post | System_Get | Zones_Get | System_Post

fun handle :: "web_env \<Rightarrow> web_handler \<Rightarrow> httpd_req \<Rightarrow> httpd_resp \<Rightarrow> web \<Rightarrow> web_result" where
  "handle env Root_Get = root_get_handler env"
| "handle env Settings_Get = settings_get_handler"
| "handle env Settings_Post = settings_post_handler env"
| "handle env Status_Get = status_get_handler env"
| "handle env Volume_Post = volume_post_handler env"
| "handle env Tone_Post = tone_post_handler env"
| "handle env Tone_Get = tone_get_handler"
| "handle env Playback_Post = playback_post_handler env"
| "handle env Reboot_Post = reboot_post_handler"
| "handle env System_Get = system_get_handler env"
| "handle env Zones_Get = zones_get_handler env"
| "handle env System_Post = system_post_handler env"

definition web_uris :: "web_handler httpd_uri list" where
  "web_uris =
     [\<lparr>uri = ''/api/settings.json'', uri_method = HTTP_GET, handler = Settings_Get\<rparr>,
      \<lparr>uri = ''/api/settings.json'', uri_method = HTTP_POST, handler = Settings_Post\<rparr>,
      \<lparr>uri = ''/api/volume.json'', uri_method = HTTP_POST, handler = Volume_Post\<rparr>,
      \<lparr>uri = ''/api/status.json'', uri_method = HTTP_GET, handler = Status_Get\<rparr>,
      \<lparr>uri = ''/api/tone.json'', uri_method = HTTP_GET, handler = Tone_Get\<rparr>,
      \<lparr>uri = ''/api/tone.json'', uri_method = HTTP_POST, handler = Tone_Post\<rparr>,
      \<lparr>uri = ''/api/playback.json'', uri_method = HTTP_POST, handler = Playback_Post\<rparr>,
      \<lparr>uri = ''/api/reboot.json'', uri_method = HTTP_POST, handler = Reboot_Post\<rparr>,
      \<lparr>uri = ''/api/system.json'', uri_method = HTTP_GET, handler = System_Get\<rparr>,
      \<lparr>uri = ''/zones.json'', uri_method = HTTP_GET, handler = Zones_Get\<rparr>,
      \<lparr>uri = ''/api/system.json'', uri_method = HTTP_POST, handler = System_Post\<rparr>,
      \<lparr>uri = ''/*'', uri_method = HTTP_GET, handler = Root_Get\<rparr>]"

text \<open>The registration, whose answers are dropped; None when the server does not start.\<close>

definition start_webserver :: "bool \<Rightarrow> web_handler httpd_uri list option" where
  "start_webserver server_ok =
     (if \<not> server_ok then None
      else Some (fold (\<lambda>u calls. snd (httpd_register_uri_handler 20 True calls u)) web_uris []))"

definition web_init :: "bool \<Rightarrow> bool" where
  "web_init server_ok = (start_webserver server_ok \<noteq> None)"

text \<open>One request to a running server; \<open>uri_path\<close> is the path that the server finds in its URI.\<close>

definition httpd_uri ::
  "web_env \<Rightarrow> web_handler httpd_uri list \<Rightarrow> string \<Rightarrow> httpd_req \<Rightarrow> web \<Rightarrow> web_result" where
  "httpd_uri env hd_calls uri_path req w =
     (case httpd_find_uri_handler hd_calls uri_path (req_method req) of
        Inl HTTPD_404_NOT_FOUND \<Rightarrow> Some (False, httpd_resp_send_404 fresh_resp, w)
      | Inl HTTPD_405_METHOD_NOT_ALLOWED \<Rightarrow> Some (False, httpd_resp_send_405 fresh_resp, w)
      | Inr u \<Rightarrow> handle env (handler u) req fresh_resp w)"

end
