(* ===== verification/WebProps.thy ===== *)
theory WebProps
  imports Web
begin

text \<open>What the web interface guarantees: its routes, its protection, its forms.\<close>

section \<open>Routes\<close>

text \<open>The handlers of the interface itself; the last entry of the table serves the rest.\<close>

definition api_uris :: "web_handler httpd_uri list" where
  "api_uris = butlast web_uris"

lemma web_uris_split: "web_uris = api_uris @ [\<lparr>uri = ''/*'', uri_method = HTTP_GET, handler = Root_Get\<rparr>]"
  by (simp add: api_uris_def web_uris_def)

lemma plain_template:
  assumes "length t > 2" "last t \<noteq> CHR ''*''" "last t \<noteq> CHR ''?''"
  shows "httpd_uri_match_wildcard t p \<longleftrightarrow> p = t"
proof -
  obtain a x where "t = a @ [x]" using assms(1) by (cases t rule: rev_cases) auto
  moreover from this obtain b y where "a = b @ [y]" using assms(1) by (cases a rule: rev_cases) auto
  moreover from calculation obtain q c where "b = q @ [c]" using assms(1) by (cases b rule: rev_cases) auto
  ultimately show ?thesis using assms(2,3) wildcard_three [of q c y x p] by simp
qed

lemma api_templates: "u \<in> set api_uris \<Longrightarrow> httpd_uri_match_wildcard (uri u) p \<longleftrightarrow> p = uri u"
proof -
  have "list_all (\<lambda>u. length (uri u) > 2 \<and> last (uri u) \<noteq> CHR ''*'' \<and> last (uri u) \<noteq> CHR ''?'') api_uris"
    by code_simp
  then show "u \<in> set api_uris \<Longrightarrow> httpd_uri_match_wildcard (uri u) p \<longleftrightarrow> p = uri u"
    by (intro plain_template) (simp_all add: list_all_iff)
qed

lemma star_template: "httpd_uri_match_wildcard ''/*'' u \<longleftrightarrow> starts_with ''/'' u"
  unfolding wildcard_meaning by (simp add: template_means_def)

lemma api_slash: "u \<in> set api_uris \<Longrightarrow> starts_with ''/'' (uri u)"
proof -
  have "list_all (\<lambda>u. starts_with ''/'' (uri u)) api_uris" by code_simp
  then show "u \<in> set api_uris \<Longrightarrow> starts_with ''/'' (uri u)" by (simp add: list_all_iff)
qed

lemma registered: "start_webserver True = Some web_uris"
  by code_simp

lemma find_from_exact:
  assumes "\<And>u p. u \<in> set us \<Longrightarrow> httpd_uri_match_wildcard (uri u) p \<longleftrightarrow> p = uri u"
  shows "find_from err (us @ vs) p m =
    (case find (\<lambda>u. uri u = p \<and> uri_method u = m) us of
       Some u \<Rightarrow> Inr u
     | None \<Rightarrow> find_from (if \<exists>u \<in> set us. uri u = p then HTTPD_405_METHOD_NOT_ALLOWED else err) vs p m)"
  using assms by (induction us arbitrary: err) auto


section \<open>Protection\<close>

lemma handle_authorised:
  "\<exists>k. handle env h req = authorised req k"
  by (cases h) (auto simp: root_get_handler_def settings_get_handler_def settings_post_handler_def
      status_get_handler_def volume_post_handler_def tone_post_handler_def tone_get_handler_def
      playback_post_handler_def reboot_post_handler_def system_get_handler_def zones_get_handler_def
      system_post_handler_def)


definition sample_web :: web where
  "sample_web = \<lparr>web_sys = sample_system, web_chip = \<lparr>answers = [], ops = []\<rparr>, web_wifi = sample_wifi\<rparr>"

definition sample_env :: web_env where
  "sample_env = \<lparr>env_num = (\<lambda>_. 256), env_zones_json = ''{\"Europe/Berlin\":\"CET-1\"}'', env_index_html = ''<html>'',
     env_seconds_pos = 3, env_time_buf = ''12:00:00'', env_heap_free = 1000, env_heap_free_min = 900,
     env_mac = [1, 2, 3, 4, 5, 6], env_uptime = 7,
     env_desc = \<lparr>app_version = ''1'', app_project_name = ''rmpd'', app_idf_ver = ''v4'', chip_revision = 1, app_date = [],
       app_time = []\<rparr>,
     env_number_of_tasks = 2, env_task_list = None, env_runtime_stats = None, env_json_malloc_ok = True\<rparr>"


section \<open>The settings form\<close>

text \<open>A string of the partition that is present and fits its buffer.\<close>

definition str_item :: "string \<Rightarrow> nat \<Rightarrow> nvs_state \<Rightarrow> string option" where
  "str_item k m n = (case items n k of Some (NvsStr v) \<Rightarrow> if length v < m then Some v else None | _ \<Rightarrow> None)"

lemma string_sure [simp]:
  assumes "sure n"
  shows "nvs_read_string k m n = Some (str_item k m n, n)"
    and "nvs_save_string k v n = Some (True, n\<lparr>items := (items n)(k \<mapsto> NvsStr v)\<rparr>)"
  using assms by (simp_all add: sure_def nvs_read_string_def nvs_save_string_def nvs_set_def str_item_def)

lemma str_item_upd [simp]:
  "str_item k m (n\<lparr>items := (items n)(k' \<mapsto> NvsStr v)\<rparr>) =
     (if k' = k then (if length v < m then Some v else None) else str_item k m n)"
  by (simp add: str_item_def)

lemma network_sure [simp]:
  assumes "sure n"
  shows "config_wifi_ssid n = Some (str_item ''wifi_ssid'' 32 n, n)"
    and "config_wifi_pass n = Some (str_item ''wifi_pass'' 64 n, n)"
    and "config_save_wifi_ssid (Some v) n = Some (True, n\<lparr>items := (items n)(''wifi_ssid'' \<mapsto> NvsStr v)\<rparr>)"
    and "config_save_wifi_pass (Some v) n = Some (True, n\<lparr>items := (items n)(''wifi_pass'' \<mapsto> NvsStr v)\<rparr>)"
    and "config_save_timezone v n = Some (True, n\<lparr>items := (items n)(''timezone'' \<mapsto> NvsStr v)\<rparr>)"
  using assms by (auto simp: config_wifi_ssid_def config_wifi_pass_def config_save_wifi_ssid_def
      config_save_wifi_pass_def config_save_timezone_def split: option.splits)

text \<open>The partition as it was, except for what it holds.\<close>

definition same_flash :: "nvs_state \<Rightarrow> nvs_state \<Rightarrow> bool" where
  "same_flash n n' = (n\<lparr>items := Map.empty\<rparr> = n'\<lparr>items := Map.empty\<rparr>)"

lemma same_flash_simps [simp]: "same_flash n n" "same_flash n (n'\<lparr>items := m\<rparr>) = same_flash n n'"
  by (simp_all add: same_flash_def)

lemma same_flash_trans: "same_flash n n1 \<Longrightarrow> same_flash n1 n2 \<Longrightarrow> same_flash n n2"
  by (simp add: same_flash_def)

definition default_zone :: string where
  "default_zone = ''Europe/Kaliningrad''"

lemma timezone_sure [simp]:
  assumes "sure n"
  shows "config_timezone n =
    (case str_item ''timezone'' 32 n of
       Some v \<Rightarrow> Some (v, n)
     | None \<Rightarrow> Some (default_zone, n\<lparr>items := (items n)(''timezone'' \<mapsto> NvsStr default_zone)\<rparr>))"
  using assms by (simp add: config_timezone_def default_zone_def split: option.splits)

lemma web_nvs_set [simp]: "web_nvs (set_nvs n w) = n" "web_wifi (set_nvs n w) = web_wifi w"
  "set_nvs m (set_nvs n w) = set_nvs m w" "set_nvs (web_nvs w) w = w"
  by (simp_all add: web_nvs_def set_nvs_def)

lemma with_setting_simps [simp]:
  "get (web_nvs w) = Some (v, n) \<Longrightarrow> with_setting get w k = k v (set_nvs n w)"
  by (simp add: with_setting_def read_setting_def)

lemma store_timezone_sure:
  assumes "sure (web_nvs w)" "length z < 32"
  shows "\<exists>w'. store_timezone env (Some z) w = Some (True, w') \<and> sure (web_nvs w') \<and>
    str_item ''timezone'' 32 (web_nvs w') = Some z \<and> web_wifi w' = web_wifi w \<and>
    (\<forall>k m. k \<noteq> ''timezone'' \<longrightarrow> str_item k m (web_nvs w') = str_item k m (web_nvs w)) \<and>
    same_flash (web_nvs w) (web_nvs w')"
proof -
  obtain cur n1 where c: "config_timezone (web_nvs w) = Some (cur, n1)" "sure n1" "str_item ''timezone'' 32 n1 = Some cur"
    "\<And>k m. k \<noteq> ''timezone'' \<Longrightarrow> str_item k m n1 = str_item k m (web_nvs w)" "same_flash (web_nvs w) n1"
    using assms(1) by (cases "str_item ''timezone'' 32 (web_nvs w)") (auto simp: default_zone_def)
  show ?thesis
  proof (cases "z = cur")
    case True
    with c show ?thesis by (intro exI [of _ "set_nvs n1 w"]) (simp add: store_timezone_def)
  next
    case False
    let ?n2 = "n1\<lparr>items := (items n1)(''timezone'' \<mapsto> NvsStr z)\<rparr>"
    obtain ok v where z: "clock_set_timezone (env_zones_json env) z (sys_tz (web_sys w)) = (ok, v)" by fastforce
    have "store_timezone env (Some z) w =
        Some (True, set_nvs ?n2 (w\<lparr>web_sys := (web_sys w)\<lparr>sys_tz := v\<rparr>\<rparr>))"
      using c False assms(2) z
      by (simp add: store_timezone_def clock_set_timezone_from_config_def set_nvs_def web_nvs_def)
    with c assms(2) show ?thesis by auto
  qed
qed

lemma store_network_sure:
  assumes "sure (web_nvs w)" "length a \<le> 31" "length b \<le> 63"
  shows "\<exists>w'. store_network a b w = Some (True, w') \<and> sure (web_nvs w') \<and>
    str_item ''wifi_ssid'' 32 (web_nvs w') = Some a \<and> str_item ''wifi_pass'' 64 (web_nvs w') = Some b \<and>
    str_item ''timezone'' 32 (web_nvs w') = str_item ''timezone'' 32 (web_nvs w) \<and>
    (wf_sta (web_wifi w') = Some \<lparr>sta_ssid = a, sta_password = b\<rparr> \<or>
     str_item ''wifi_ssid'' 32 (web_nvs w) = Some a \<and> str_item ''wifi_pass'' 64 (web_nvs w) = Some b \<and> w' = w) \<and>
    same_flash (web_nvs w) (web_nvs w')"
proof (cases "str_item ''wifi_ssid'' 32 (web_nvs w) = Some a \<and> str_item ''wifi_pass'' 64 (web_nvs w) = Some b")
  case True
  with assms(1) show ?thesis by (intro exI [of _ w]) (simp add: store_network_def)
next
  case False
  let ?n1 = "(web_nvs w)\<lparr>items := (items (web_nvs w))(''wifi_ssid'' \<mapsto> NvsStr a)\<rparr>"
  let ?n2 = "?n1\<lparr>items := (items ?n1)(''wifi_pass'' \<mapsto> NvsStr b)\<rparr>"
  have s: "sure ?n1" "sure ?n2" using assms(1) by simp_all
  have i: "str_item ''wifi_ssid'' 32 ?n2 = Some a" "str_item ''wifi_pass'' 64 ?n2 = Some b"
    "str_item ''timezone'' 32 ?n2 = str_item ''timezone'' 32 (web_nvs w)"
    using assms(2,3) str_item_upd [of "''wifi_ssid''" 32 ?n1 "''wifi_pass''" b]
      str_item_upd [of "''wifi_pass''" 64 ?n1 "''wifi_pass''" b] str_item_upd [of "''timezone''" 32 ?n1 "''wifi_pass''" b]
      str_item_upd [of "''wifi_ssid''" 32 "web_nvs w" "''wifi_ssid''" a] str_item_upd [of "''timezone''" 32 "web_nvs w" "''wifi_ssid''" a]
    by simp_all
  have st: "station ((web_wifi w)\<lparr>wf_store := ?n2\<rparr>) =
      Some ((web_wifi w)\<lparr>wf_store := ?n2, wf_sta := Some \<lparr>sta_ssid = a, sta_password = b\<rparr>\<rparr>)"
    using station_running [of "(web_wifi w)\<lparr>wf_store := ?n2\<rparr>"] s(2) i by (simp add: sure_def)
  have "store_network a b w = Some (True, set_nvs ?n2
      (w\<lparr>web_wifi := (web_wifi w)\<lparr>wf_store := ?n2, wf_sta := Some \<lparr>sta_ssid = a, sta_password = b\<rparr>\<rparr>\<rparr>))"
    using assms(1) s False st
    by (auto simp: store_network_def read_setting_def on_wifi_def wifi_reconfig_def set_nvs_def web_nvs_def)
  with s i show ?thesis by auto
qed

text \<open>What the form holds, in the order in which the device reports it.\<close>

definition settings_form :: "string \<Rightarrow> string \<Rightarrow> string \<Rightarrow> members" where
  "settings_form a b z = [(''wifi_ssid'', JString a), (''wifi_pass'', JString b), (''timezone'', JString z)]"

lemma length_escape: "length (concat (map escape s)) \<le> 6 * length s"
proof -
  have "length (escape c) \<le> 6" for c by (simp add: escape_def)
  then show ?thesis by (induction s) (auto intro: add_mono)
qed

lemma length_print_string: "is_cstr s \<Longrightarrow> length (print_string_ptr s) \<le> 6 * length s + 2"
  using length_escape [of s] by (simp add: print_string_ptr_def)

lemma length_settings_form:
  assumes "is_cstr a" "is_cstr b" "is_cstr z" "length a \<le> 31" "length b \<le> 63" "length z \<le> 31"
  shows "length (cJSON_PrintUnformatted (JObject (settings_form a b z))) \<le> 800"
proof -
  have "print_string_ptr ''wifi_ssid'' = ''\"wifi_ssid\"''" "print_string_ptr ''wifi_pass'' = ''\"wifi_pass\"''"
    "print_string_ptr ''timezone'' = ''\"timezone\"''"
    by (simp_all add: print_string_ptr_def escape_def cstr_def)
  then have "length (cJSON_PrintUnformatted (JObject (settings_form a b z))) =
      39 + length (print_string_ptr a) + length (print_string_ptr b) + length (print_string_ptr z)"
    by (simp add: cJSON_PrintUnformatted_def settings_form_def)
  also have "\<dots> \<le> 800"
    using length_print_string [of a] length_print_string [of b] length_print_string [of z] assms by simp
  finally show ?thesis .
qed

lemma authorised_ok:
  "auth_check req rsp (web_nvs w) = Some (True, rsp', n) \<Longrightarrow> authorised req k rsp w = k rsp' (set_nvs n w)"
  by (simp add: authorised_def)

lemma with_body_json:
  assumes "content_len req = length (req_received req)" "req_received req \<noteq> []"
    and "length (req_received req) \<le> limit" "cJSON_Parse (env_num env) (req_received req) = Some json"
  shows "with_body limit env req k rsp w = k json rsp w"
  using assms by (simp add: with_body_def)

lemma route_settings_post:
  "httpd_find_uri_handler web_uris ''/api/settings.json'' HTTP_POST =
     Inr \<lparr>uri = ''/api/settings.json'', uri_method = HTTP_POST, handler = Settings_Post\<rparr>"
proof -
  have "find (\<lambda>u. uri u = ''/api/settings.json'' \<and> uri_method u = HTTP_POST) api_uris =
      Some \<lparr>uri = ''/api/settings.json'', uri_method = HTTP_POST, handler = Settings_Post\<rparr>"
    by (simp add: api_uris_def web_uris_def)
  then show ?thesis
    unfolding httpd_find_uri_handler_def web_uris_split by (subst find_from_exact) (auto simp: api_templates)
qed

lemma parse_settings_form:
  assumes "is_cstr a" "is_cstr b" "is_cstr z"
  shows "cJSON_Parse number (cJSON_PrintUnformatted (JObject (settings_form a b z))) = Some (JObject (settings_form a b z))"
  by (rule parse_printed) (use assms in \<open>simp_all add: settings_form_def CJSON_NESTING_LIMIT_def is_cstr_def [of "_ # _"]\<close>)

lemma render_settings_stored:
  assumes "sure (web_nvs w)" "str_item ''wifi_ssid'' 32 (web_nvs w) = Some a"
    and "str_item ''wifi_pass'' 64 (web_nvs w) = Some b" "str_item ''timezone'' 32 (web_nvs w) = Some z"
    and "is_cstr a" "is_cstr b" "is_cstr z" "length a \<le> 31" "length b \<le> 63" "length z \<le> 31"
  shows "render_settings rsp w =
    Some (httpd_resp_send (cJSON_PrintUnformatted (JObject (settings_form a b z))) (rsp\<lparr>rsp_type := ''application/json''\<rparr>), w)"
proof -
  have "cJSON_PrintPreallocated (JObject (settings_form a b z)) 1024 =
      Some (cJSON_PrintUnformatted (JObject (settings_form a b z)))"
    using length_settings_form [OF assms(5-10)] by (simp add: cJSON_PrintPreallocated_def cJSON_PrintUnformatted_def)
  then have "send_json (settings_form a b z) 1024 r =
      httpd_resp_send (cJSON_PrintUnformatted (JObject (settings_form a b z))) r" for r
    by (simp add: send_json_def)
  then show ?thesis
    using assms(1-4) by (simp add: render_settings_def Let_def cJSON_AddItemToObject_def settings_form_def)
qed

lemma settings_form_stored:
  assumes "auth_check req fresh_resp (web_nvs w) = Some (True, fresh_resp, n)" "sure n"
    and "req_method req = HTTP_POST" "content_len req = length (req_received req)"
    and "req_received req = cJSON_PrintUnformatted (JObject (settings_form a b z))"
    and "is_cstr a" "is_cstr b" "is_cstr z" "length a \<le> 31" "length b \<le> 63" "length z \<le> 31"
  shows "\<exists>rsp w'. httpd_uri env web_uris ''/api/settings.json'' req w = Some (True, rsp, w') \<and>
    rsp_status rsp = ''200 OK'' \<and> rsp_sent rsp = [cJSON_PrintUnformatted (JObject (settings_form a b z))] \<and>
    sure (web_nvs w') \<and> str_item ''wifi_ssid'' 32 (web_nvs w') = Some a \<and>
    str_item ''wifi_pass'' 64 (web_nvs w') = Some b \<and> str_item ''timezone'' 32 (web_nvs w') = Some z \<and>
    (wf_sta (web_wifi w') = Some \<lparr>sta_ssid = a, sta_password = b\<rparr> \<or>
     config_wifi_ssid n = Some (Some a, n) \<and> config_wifi_pass n = Some (Some b, n) \<and> web_wifi w' = web_wifi w) \<and>
    same_flash n (web_nvs w')"
proof -
  let ?json = "JObject (settings_form a b z)"
  let ?rsp = "set_close fresh_resp"
  have len: "length (req_received req) \<le> 2048"
    using length_settings_form [OF assms(6-11)] unfolding assms(5) by simp
  have ne: "req_received req \<noteq> []" unfolding assms(5) cJSON_PrintUnformatted_def by (simp add: print_object_def)
  have parse: "cJSON_Parse (env_num env) (req_received req) = Some ?json"
    unfolding assms(5) by (rule parse_settings_form [OF assms(6-8)])
  have items: "string_item ?json ''timezone'' = Some z" "string_item ?json ''wifi_ssid'' = Some a"
    "string_item ?json ''wifi_pass'' = Some b"
    using assms(6-8) by (simp_all add: string_item_def cJSON_GetObjectItemCaseSensitive_def settings_form_def cstr_def [of "_ # _"])
  obtain w1 where w1: "store_timezone env (Some z) (set_nvs n w) = Some (True, w1)" "sure (web_nvs w1)"
    "str_item ''timezone'' 32 (web_nvs w1) = Some z" "web_wifi w1 = web_wifi w"
    "\<forall>k m. k \<noteq> ''timezone'' \<longrightarrow> str_item k m (web_nvs w1) = str_item k m n" "same_flash n (web_nvs w1)"
    using store_timezone_sure [of "set_nvs n w" z env] assms(2,11) by auto
  obtain w2 where w2: "store_network a b w1 = Some (True, w2)" "sure (web_nvs w2)"
    "str_item ''wifi_ssid'' 32 (web_nvs w2) = Some a" "str_item ''wifi_pass'' 64 (web_nvs w2) = Some b"
    "str_item ''timezone'' 32 (web_nvs w2) = Some z"
    "wf_sta (web_wifi w2) = Some \<lparr>sta_ssid = a, sta_password = b\<rparr> \<or>
     str_item ''wifi_ssid'' 32 (web_nvs w1) = Some a \<and> str_item ''wifi_pass'' 64 (web_nvs w1) = Some b \<and> w2 = w1"
    "same_flash (web_nvs w1) (web_nvs w2)"
    using store_network_sure [OF w1(2) assms(9,10)] w1(3) by auto
  have "apply_settings env ?json (set_nvs n w) = Some (True, w2)"
    using items w1(1) w2(1) assms(9,10) by (simp add: apply_settings_def)
  then have "httpd_uri env web_uris ''/api/settings.json'' req w = rendered (render_settings ?rsp w2)"
    using assms(3) authorised_ok [OF assms(1)] with_body_json [OF assms(4) ne len parse]
    by (simp add: httpd_uri_def route_settings_post settings_post_handler_def)
  then have r: "httpd_uri env web_uris ''/api/settings.json'' req w = Some (True,
      httpd_resp_send (cJSON_PrintUnformatted ?json) (?rsp\<lparr>rsp_type := ''application/json''\<rparr>), w2)"
    using render_settings_stored [OF w2(2-5) assms(6-11)] by (simp add: rendered_def)
  have "wf_sta (web_wifi w2) = Some \<lparr>sta_ssid = a, sta_password = b\<rparr> \<or>
      config_wifi_ssid n = Some (Some a, n) \<and> config_wifi_pass n = Some (Some b, n) \<and> web_wifi w2 = web_wifi w"
    using w2(6) w1(4,5) assms(2) by auto
  with r w2(2-5) same_flash_trans [OF w1(6) w2(7)] show ?thesis
    by (simp add: httpd_resp_send_def set_close_def httpd_resp_set_hdr_def fresh_resp_def)
qed

text \<open>
  C12: The settings form is stored and shown as it was sent: an authorised POST of a name, a password and a
  zone that fit their buffers is answered with a form of the same three texts, whatever characters are in
  them; the settings then hold them; and the station has been configured with the name and the password,
  unless both were stored before.
\<close>

theorem settings_form_kept:
  assumes "auth_check req fresh_resp (web_nvs w) = Some (True, fresh_resp, n)" "sure n"
    and "req_method req = HTTP_POST" "content_len req = length (req_received req)"
    and "req_received req = cJSON_PrintUnformatted (JObject (settings_form a b z))"
    and "is_cstr a" "is_cstr b" "is_cstr z" "length a \<le> 31" "length b \<le> 63" "length z \<le> 31"
  shows "\<exists>rsp w'. httpd_uri env web_uris ''/api/settings.json'' req w = Some (True, rsp, w') \<and>
    rsp_status rsp = ''200 OK'' \<and> rsp_sent rsp = [cJSON_PrintUnformatted (JObject (settings_form a b z))] \<and>
    config_wifi_ssid (web_nvs w') = Some (Some a, web_nvs w') \<and>
    config_wifi_pass (web_nvs w') = Some (Some b, web_nvs w') \<and>
    config_timezone (web_nvs w') = Some (z, web_nvs w') \<and>
    (wf_sta (web_wifi w') = Some \<lparr>sta_ssid = a, sta_password = b\<rparr> \<or>
     config_wifi_ssid n = Some (Some a, n) \<and> config_wifi_pass n = Some (Some b, n) \<and> web_wifi w' = web_wifi w)"
proof -
  obtain rsp w' where "httpd_uri env web_uris ''/api/settings.json'' req w = Some (True, rsp, w')"
    "rsp_status rsp = ''200 OK''" "rsp_sent rsp = [cJSON_PrintUnformatted (JObject (settings_form a b z))]"
    "sure (web_nvs w')" "str_item ''wifi_ssid'' 32 (web_nvs w') = Some a" "str_item ''wifi_pass'' 64 (web_nvs w') = Some b"
    "str_item ''timezone'' 32 (web_nvs w') = Some z"
    "wf_sta (web_wifi w') = Some \<lparr>sta_ssid = a, sta_password = b\<rparr> \<or>
     config_wifi_ssid n = Some (Some a, n) \<and> config_wifi_pass n = Some (Some b, n) \<and> web_wifi w' = web_wifi w"
    using settings_form_stored [OF assms, of env] by blast
  then show ?thesis by (intro exI [of _ rsp] exI [of _ w']) simp
qed

lemma fresh_password_sure: "\<exists>s. config_web_password fresh_nvs = Some (''12345678'', s) \<and> sure s"
  by (simp add: config_web_password_def config_ap_password_def str_setting_def nvs_read_string_def nvs_save_string_def
      nvs_set_def fresh_nvs_def sure_def running_def nvs_enter_def nvs_init_def)

theorem settings_form_kept_witness:
  "\<exists>rsp w'. httpd_uri sample_env web_uris ''/api/settings.json''
      (sample_req\<lparr>req_method := HTTP_POST,
         content_len := length (cJSON_PrintUnformatted (JObject (settings_form ''cafe'' ''a\"b'' ''Europe/Berlin''))),
         req_received := cJSON_PrintUnformatted (JObject (settings_form ''cafe'' ''a\"b'' ''Europe/Berlin''))\<rparr>)
      sample_web = Some (True, rsp, w') \<and>
     rsp_sent rsp = [cJSON_PrintUnformatted (JObject (settings_form ''cafe'' ''a\"b'' ''Europe/Berlin''))] \<and>
     config_timezone (web_nvs w') = Some (''Europe/Berlin'', web_nvs w')"
proof -
  let ?body = "cJSON_PrintUnformatted (JObject (settings_form ''cafe'' ''a\"b'' ''Europe/Berlin''))"
  let ?r = "sample_req\<lparr>req_method := HTTP_POST, content_len := length ?body, req_received := ?body\<rparr>"
  obtain n where n: "config_web_password (web_nvs sample_web) = Some (''12345678'', n)" "sure n"
    using fresh_password_sure by (auto simp: sample_web_def web_nvs_def sample_system_def)
  have s: "\<not> skip_auth ?r" using sample_req_outside by (simp add: skip_auth_def)
  have "auth_check ?r fresh_resp (web_nvs sample_web) = Some (True, fresh_resp, n)"
    using auth_check_header [OF _ s _ _ _ _ n(1), of "''12345678''"] by (simp add: sample_req_def is_cstr_def)
  from settings_form_kept [OF this n(2), of "''cafe''" "''a\"b''" "''Europe/Berlin''" sample_env] show ?thesis
    by (auto simp: is_cstr_def)
qed

section \<open>Volume\<close>

lemma route_volume_post:
  "httpd_find_uri_handler web_uris ''/api/volume.json'' HTTP_POST =
     Inr \<lparr>uri = ''/api/volume.json'', uri_method = HTTP_POST, handler = Volume_Post\<rparr>"
proof -
  have "find (\<lambda>u. uri u = ''/api/volume.json'' \<and> uri_method u = HTTP_POST) api_uris =
      Some \<lparr>uri = ''/api/volume.json'', uri_method = HTTP_POST, handler = Volume_Post\<rparr>"
    by (simp add: api_uris_def web_uris_def)
  then show ?thesis
    unfolding httpd_find_uri_handler_def web_uris_split by (subst find_from_exact) (auto simp: api_templates)
qed

definition volume_form :: "int \<Rightarrow> members" where
  "volume_form v = [(''volume'', JNumber v)]"

lemma length_volume_form:
  assumes "\<bar>v\<bar> < 10 ^ 15"
  shows "length (cJSON_PrintUnformatted (JObject (volume_form v))) \<le> 128"
proof -
  have "print_string_ptr ''volume'' = ''\"volume\"''" by (simp add: print_string_ptr_def escape_def cstr_def)
  moreover have "length (show_int v) \<le> 16"
    using length_show_nat_le [of "nat \<bar>v\<bar>" 15] assms by (auto simp: show_int_def abs_if nat_less_iff split: if_splits)
  ultimately show ?thesis by (simp add: cJSON_PrintUnformatted_def volume_form_def print_number_def)
qed

lemma volume_stored:
  assumes "sure n"
  shows "config_volume n = Some (x, n) \<longleftrightarrow>
    (\<exists>y. items n ''volume'' = Some (NvsU8 y) \<and> x = (if y > 100 then 100 else y))"
proof -
  have own: "n\<lparr>items := (items n)(k \<mapsto> v)\<rparr> \<noteq> n" if "items n k \<noteq> Some v" for k v
    using that by (cases n) (auto simp: fun_eq_iff)
  show ?thesis
  proof (cases "items n ''volume''")
    case None
    with assms own [of "''volume''"] show ?thesis by (simp add: config_volume_def config_save_volume_def)
  next
    case (Some a)
    with assms own [of "''volume''"] show ?thesis
      by (cases a) (auto simp: config_volume_def config_save_volume_def)
  qed
qed

lemma volume_kept:
  assumes "sure (web_nvs w)" "config_volume (web_nvs w) = Some (x, web_nvs w)"
    and "playing_text (sys_device (web_sys w)) = Some name"
  shows "\<exists>rsp' w'. render_status env rsp w = Some (rsp', w') \<and>
    config_volume (web_nvs w') = Some (x, web_nvs w') \<and> web_chip w' = web_chip w"
proof -
  let ?n = "(web_nvs w)\<lparr>items := (items (web_nvs w))(''random'' \<mapsto> NvsU8 0)\<rparr>"
  have "config_random (web_nvs w) = Some (False, ?n) \<or> (\<exists>b. config_random (web_nvs w) = Some (b, web_nvs w))"
    using assms(1) by (auto simp: config_random_def config_save_random_def split: option.splits nvs_item.splits)
  moreover have "config_volume ?n = Some (x, ?n)"
    using assms(1,2) volume_stored [of "web_nvs w"] volume_stored [of ?n] by simp
  ultimately obtain b n where n: "config_random (web_nvs w) = Some (b, n)" "config_volume n = Some (x, n)"
    using assms(2) by blast
  have c: "web_chip (set_nvs n w) = web_chip w" by (simp add: set_nvs_def)
  have v: "with_setting config_volume w k = k x w" for k :: "u8 \<Rightarrow> web \<Rightarrow> (httpd_resp \<times> web) option"
    using assms(2) by simp
  have r: "with_setting config_random w k = k b (set_nvs n w)" for k :: "bool \<Rightarrow> web \<Rightarrow> (httpd_resp \<times> web) option"
    using n(1) by simp
  show ?thesis by (simp add: render_status_def Let_def assms(3) v r c n(2) del: with_setting_simps)
qed

lemma word_of_volume: "uint (min (word_of_int v) 100 :: u8) = min (v mod 256) 100"
  by (simp add: min_def word_le_def uint_word_of_int)

text \<open>
  C27: A volume that is posted takes effect and stays: the register of the chip is written with it and the
  settings hold it from then on. The \<open>int\<close> of the form is cut to eight bits before it is bounded by 100, so
  256 silences the player and a negative number makes it loud.
\<close>

theorem volume_form_kept:
  assumes "auth_check req fresh_resp (web_nvs w) = Some (True, fresh_resp, n)" "sure n"
    and "req_method req = HTTP_POST" "content_len req = length (req_received req)"
    and "req_received req = cJSON_PrintUnformatted (JObject (volume_form v))"
    and "- 2147483648 \<le> v" "v \<le> 2147483647" "env_num env (show_int v) = v"
    and "playing_text (sys_device (web_sys w)) = Some name"
  shows "\<exists>rsp w' x. httpd_uri env web_uris ''/api/volume.json'' req w = Some (True, rsp, w') \<and>
    web_chip w' = snd (vs1011_set_volume x (web_chip w)) \<and>
    config_volume (web_nvs w') = Some (x, web_nvs w') \<and> uint x = min (v mod 256) 100"
proof -
  let ?json = "JObject (volume_form v)" and ?x = "min (word_of_int v) 100 :: u8"
  have b: "\<bar>v\<bar> < 10 ^ 15" using assms(6,7) by simp
  have parse: "cJSON_Parse (env_num env) (req_received req) = Some ?json"
    unfolding assms(5) by (rule parse_printed) (use b assms(8) in \<open>simp_all add: volume_form_def CJSON_NESTING_LIMIT_def is_cstr_def\<close>)
  have ne: "req_received req \<noteq> []" unfolding assms(5) by (simp add: cJSON_PrintUnformatted_def volume_form_def)
  have len: "length (req_received req) \<le> 128" unfolding assms(5) by (rule length_volume_form [OF b])
  have item: "number_item ?json ''volume'' = Some v"
    using assms(6,7) by (simp add: number_item_def volume_form_def valueint_def cJSON_GetObjectItemCaseSensitive_def cstr_def)
  obtain m where m: "save_if_changed config_volume config_save_volume ?x n = Some m" "config_volume m = Some (?x, m)" "sure m"
    using player_volume.saved [OF assms(2), of ?x] by auto
  let ?w1 = "set_nvs m ((set_nvs n w)\<lparr>web_chip := snd (vs1011_set_volume ?x (web_chip w))\<rparr>)"
  have "(if 100 < (word_of_int v :: u8) then 100 else word_of_int v) = ?x" by (auto simp: min_def not_less)
  moreover have "web_nvs (set_nvs n w) = n" "web_chip (set_nvs n w) = web_chip w" by (simp_all add: set_nvs_def web_nvs_def)
  ultimately have set: "on_player (player_set_volume (word_of_int v)) (set_nvs n w) = Some ?w1"
    using m(1) by (simp add: on_player_def player_set_volume_def on_store_def Let_def)
  have w1: "web_nvs ?w1 = m" "web_chip ?w1 = snd (vs1011_set_volume ?x (web_chip w))"
    "playing_text (sys_device (web_sys ?w1)) = Some name"
    using assms(9) by (simp_all add: set_nvs_def web_nvs_def)
  obtain rsp w' where r: "render_status env (set_close fresh_resp) ?w1 = Some (rsp, w')"
    "config_volume (web_nvs w') = Some (?x, web_nvs w')" "web_chip w' = web_chip ?w1"
    using volume_kept [of ?w1 ?x] m(2,3) w1 by metis
  have "httpd_uri env web_uris ''/api/volume.json'' req w = Some (True, rsp, w')"
    using assms(3) authorised_ok [OF assms(1)] with_body_json [OF assms(4) ne len parse] item set r(1)
    by (simp add: httpd_uri_def route_volume_post volume_post_handler_def rendered_def)
  with r(2,3) w1(2) word_of_volume show ?thesis by auto
qed

theorem volume_form_kept_witness:
  "\<exists>rsp w'. httpd_uri sample_env web_uris ''/api/volume.json''
      (sample_req\<lparr>req_method := HTTP_POST,
         content_len := length (cJSON_PrintUnformatted (JObject (volume_form 256))),
         req_received := cJSON_PrintUnformatted (JObject (volume_form 256))\<rparr>)
      sample_web = Some (True, rsp, w') \<and> config_volume (web_nvs w') = Some (0, web_nvs w')"
proof -
  let ?body = "cJSON_PrintUnformatted (JObject (volume_form 256))"
  let ?r = "sample_req\<lparr>req_method := HTTP_POST, content_len := length ?body, req_received := ?body\<rparr>"
  obtain n where n: "config_web_password (web_nvs sample_web) = Some (''12345678'', n)" "sure n"
    using fresh_password_sure by (auto simp: sample_web_def web_nvs_def sample_system_def)
  have s: "\<not> skip_auth ?r" using sample_req_outside by (simp add: skip_auth_def)
  have a: "auth_check ?r fresh_resp (web_nvs sample_web) = Some (True, fresh_resp, n)"
    using auth_check_header [OF _ s _ _ _ _ n(1), of "''12345678''"] by (simp add: sample_req_def is_cstr_def)
  have "\<exists>name. playing_text (sys_device (web_sys sample_web)) = Some name"
    by (simp add: sample_web_def playing_text_def sample_device_def player_get_now_playing_def strncpy_def)
  then obtain name where p: "playing_text (sys_device (web_sys sample_web)) = Some name" ..
  obtain rsp w' x where h: "httpd_uri sample_env web_uris ''/api/volume.json'' ?r sample_web = Some (True, rsp, w')"
    "config_volume (web_nvs w') = Some (x, web_nvs w')" "uint x = min (256 mod 256) 100"
    using volume_form_kept [OF a n(2) _ _ _ _ _ _ p, of 256 sample_env] by (auto simp: sample_env_def)
  then have "x = 0" by (simp add: unsigned_eq_0_iff)
  with h show ?thesis by auto
qed

end
