(* ===== verification/Startup.thy ===== *)
theory Startup
  imports Web Gate
begin

text \<open>
  \<open>src/firmware/main/app_main.c\<close>: the start of the firmware, with what it needs of \<open>storage/sd.c\<close> and
  \<open>util/certs/certs.c\<close>. The state is that of the web interface, which spans the system, the decoder chip
  and the wireless network, with the card's lock, the system time, the clock chip and the routes of the
  running web server. The other tasks are taken to begin their work after the start.
\<close>

section \<open>The card\<close>

text \<open>What a mounted card holds; a card that cannot be mounted shows no files.\<close>

definition sd_init :: "(files \<times> dnode) option \<Rightarrow> system \<Rightarrow> bool \<times> system" where
  "sd_init mount s =
     (case mount of
        None \<Rightarrow> (False, s\<lparr>sys_files := Map.empty, sys_card := DDir None\<rparr>)
      | Some (contents, tree) \<Rightarrow> (True, s\<lparr>sys_files := contents, sys_card := tree\<rparr>))"

text \<open>
  The number of free clusters and their size in sectors come from \<open>f_getfree\<close>, when that succeeds. Their
  product is taken in the 32 bits of \<open>unsigned long\<close>.
\<close>

definition sd_bytes_free_card :: "(u32 \<times> u16) option \<Rightarrow> 64 word" where
  "sd_bytes_free_card free =
     (case free of
        None \<Rightarrow> 0
      | Some (fre_clust, csize) \<Rightarrow>
          (let fre_sect = ucast (fre_clust * ucast csize) in (fre_sect div 2) * 1024))"

text \<open>
  The lock is None until its first use, then held or not. A wait for a lock that is held ends with the
  lock when its holder releases it in time.
\<close>

definition global_lock_init :: "bool \<Rightarrow> bool option \<Rightarrow> bool \<times> bool option" where
  "global_lock_init create_ok lock =
     (case lock of
        None \<Rightarrow> if create_ok then (True, Some False) else (False, None)
      | Some held \<Rightarrow> (True, lock))"

definition sd_global_lock_acquire :: "bool \<Rightarrow> bool \<Rightarrow> bool option \<Rightarrow> bool \<times> bool option" where
  "sd_global_lock_acquire create_ok released_in_time lock =
     (case global_lock_init create_ok lock of
        (False, l) \<Rightarrow> (False, l)
      | (True, l) \<Rightarrow> if l = Some False \<or> released_in_time then (True, Some True) else (False, l))"

definition sd_global_lock_release :: "bool \<Rightarrow> bool option \<Rightarrow> bool \<times> bool option" where
  "sd_global_lock_release create_ok lock =
     (case global_lock_init create_ok lock of
        (False, l) \<Rightarrow> (False, l)
      | (True, l) \<Rightarrow> (l = Some True, Some False))"

section \<open>The certificates\<close>

text \<open>None when the settings turn the check off.\<close>

definition certs :: "string \<Rightarrow> nvs_state \<Rightarrow> (string option \<times> nvs_state) option" where
  "certs certs_pem_start s =
     map_option (\<lambda>(off, s'). (if off then None else Some certs_pem_start, s'))
       (config_disable_tls_certs_verification s)"

section \<open>The start\<close>

text \<open>What the platform and the card answer during the start.\<close>

record 'd boot_env =
  wifi_group_ok :: bool
  zones_json :: string
  mktime_in :: "string option \<Rightarrow> rtc_tm \<Rightarrow> int"
  i2c :: "'d i2c_bus"
  i2c_driver_ok :: bool
  i2c_mutex_ok :: bool
  ntp_task_ok :: bool
  mounted :: "(files \<times> dnode) option"
  temp_names :: "string list"
  server_ok :: bool
  gate_ok :: bool
  control_task_ok :: bool
  vs_mutex_ok :: bool
  vs_sema_ok :: bool
  player_queue_ok :: bool
  player_back_ok :: bool
  player_mutex_ok :: bool
  player_group_ok :: bool
  player_task_ok :: bool
  cloud_group_ok :: bool
  cloud_timer_ok :: bool
  cloud_task_ok :: bool
  cleanup_timer_ok :: bool
  offline_mutex_ok :: bool
  offline_task_ok :: bool
  rollback_fails :: bool
  running_version :: string

record 'd machine =
  m_web :: web
  m_routes :: "web_handler httpd_uri list option"
  m_now :: int
  m_rtc :: 'd

definition on_system :: "(system \<Rightarrow> system) \<Rightarrow> web \<Rightarrow> web" where
  "on_system f w = w\<lparr>web_sys := f (web_sys w)\<rparr>"

definition clock_start :: "'d boot_env \<Rightarrow> 'd machine \<Rightarrow> 'd machine option" where
  "clock_start e m =
     map_option (\<lambda>(_, tz, n, now, d).
         m\<lparr>m_web := set_nvs n (on_system (\<lambda>s. s\<lparr>sys_tz := tz\<rparr>) (m_web m)), m_now := now, m_rtc := d\<rparr>)
       (clock_init (zones_json e) (mktime_in e) (i2c e) (i2c_driver_ok e) (i2c_mutex_ok e) (ntp_task_ok e)
          (sys_tz (web_sys (m_web m))) (web_nvs (m_web m)) (m_now m) (m_rtc m))"

text \<open>The temporary files of the last run are removed from the card that was mounted.\<close>

definition card_start :: "'d boot_env \<Rightarrow> web \<Rightarrow> web" where
  "card_start e w =
     on_system (\<lambda>s. let s1 = snd (sd_init (mounted e) s)
                    in s1\<lparr>sys_files := tempfile_init (temp_names e) (sys_files s1)\<rparr>) w"

definition player_start_up :: "'d boot_env \<Rightarrow> web \<Rightarrow> web option" where
  "player_start_up e =
     on_player (\<lambda>p. map_option snd
       (player_init (vs_mutex_ok e) (vs_sema_ok e) (player_queue_ok e) (player_back_ok e) (player_mutex_ok e)
          (player_group_ok e) (player_task_ok e) p))"

text \<open>The scheduler of the cloud when the card holds its playlist, otherwise the one of the card's files.\<close>

definition scheduler_start :: "'d boot_env \<Rightarrow> web \<Rightarrow> web option" where
  "scheduler_start e w =
     (let s = web_sys w; c = (sys_cloud s)\<lparr>card_files := sys_files s\<rparr>
      in if cloud_scheduler_is_enabled c then
           Some (w\<lparr>web_sys := s\<lparr>
             sys_cloud := snd (cloud_scheduler_init (cloud_group_ok e) (cloud_timer_ok e) (cloud_task_ok e) c),
             sys_cleanup := snd (cloud_cleanup_files_start True True (cleanup_timer_ok e) 300000 (sys_cleanup s))\<rparr>\<rparr>)
         else on_offline (offline_scheduler_init (offline_mutex_ok e) (offline_task_ok e)) w)"

definition confirm_start :: "'d boot_env \<Rightarrow> web \<Rightarrow> web option" where
  "confirm_start e w =
     map_option (\<lambda>s. w\<lparr>web_sys := s\<rparr>)
       (firmware_update_confirm (rollback_fails e) True (running_version e) (web_sys w))"

definition app_main :: "'d boot_env \<Rightarrow> 'd machine \<Rightarrow> 'd machine option" where
  "app_main e m0 =
     Option.bind (on_wifi (wifi_init (wifi_group_ok e)) (m_web m0)) (\<lambda>w1.
     Option.bind (clock_start e (m0\<lparr>m_web := w1\<rparr>)) (\<lambda>m2.
     let w3 = card_start e (m_web m2);
         routes = start_webserver (server_ok e)
     in Option.bind (remote_control_init (gate_ok e) (control_task_ok e) (web_sys w3)) (\<lambda>(_, s4).
        Option.bind (player_start_up e (w3\<lparr>web_sys := s4\<rparr>)) (\<lambda>w5.
        Option.bind (scheduler_start e w5) (\<lambda>w6.
        map_option (\<lambda>w7. m2\<lparr>m_web := w7, m_routes := routes\<rparr>) (confirm_start e w6))))))"

section \<open>Operations that return and spare a q\<close>

definition steady :: "string \<Rightarrow> (nvs_state \<Rightarrow> ('a \<times> nvs_state) option) \<Rightarrow> bool" where
  "steady k f = (\<forall>s. running s \<longrightarrow> (\<exists>v s'. f s = Some (v, s') \<and> running s' \<and> items s' k = items s k))"

lemma steadyD:
  "steady k f \<Longrightarrow> running s \<Longrightarrow> \<exists>v s'. f s = Some (v, s') \<and> running s' \<and> items s' k = items s k"
  by (simp add: steady_def)

lemma steady_read [simp]:
  "steady k (nvs_read_uint8 q)" "steady k (nvs_read_string q n)" "steady k (nvs_read_uint32 q)"
  by (auto simp: steady_def nvs_ops)

lemma nvs_set_spares: "running s \<Longrightarrow> q \<noteq> k \<Longrightarrow>
  \<exists>v s'. nvs_set q x s = (v, s') \<and> running s' \<and> items s' k = items s k"
  using nvs_set_out [of q x s] by (cases "nvs_set q x s") auto

lemma steady_save [simp]:
  assumes "q \<noteq> k"
  shows "steady k (nvs_save_uint8 q v)" "steady k (nvs_save_string q t)"
  using nvs_set_spares [OF _ assms] by (auto simp: steady_def nvs_ops)

text \<open>A read with a default that is written when there is nothing to read.\<close>

lemma steady_default:
  assumes "steady k get" "steady k put"
    and "\<And>s. f s = (case get s of None \<Rightarrow> None
      | Some (None, s1) \<Rightarrow> map_option (\<lambda>(_, s2). (d, s2)) (put s1)
      | Some (Some v, s1) \<Rightarrow> Some (g v, s1))"
  shows "steady k f"
  unfolding steady_def
proof (intro allI impI)
  fix s assume "running s"
  then obtain r s1 where r: "get s = Some (r, s1)" "running s1" "items s1 k = items s k"
    using steadyD [OF assms(1)] by blast
  obtain v s2 where "put s1 = Some (v, s2)" "running s2" "items s2 k = items s1 k"
    using steadyD [OF assms(2) r(2)] by blast
  with r show "\<exists>v s'. f s = Some (v, s') \<and> running s' \<and> items s' k = items s k"
    by (cases r) (auto simp: assms(3))
qed

lemma steady_settings [simp]:
  "q \<noteq> k \<Longrightarrow> steady k (u8_setting q d)"
  "q \<noteq> k \<Longrightarrow> steady k (str_setting q n t)"
  using steady_default [where g = "\<lambda>v. v" and get = "nvs_read_uint8 q" and put = "nvs_save_uint8 q d" and d = d]
    steady_default [where g = "\<lambda>v. v" and get = "nvs_read_string q n" and put = "nvs_save_string q t" and d = t]
  by (simp_all add: u8_setting_def str_setting_def)

lemma steady_config [simp]:
  "k \<noteq> ''volume'' \<Longrightarrow> steady k config_volume"
  "k \<noteq> ''random'' \<Longrightarrow> steady k config_random"
  "k \<noteq> ''timezone'' \<Longrightarrow> steady k config_timezone"
  "k \<noteq> ''deviceid'' \<Longrightarrow> steady k config_deviceid"
  "k \<noteq> ''ap_pass'' \<Longrightarrow> steady k config_ap_password"
  "k \<noteq> ''bass_freqlim'' \<Longrightarrow> steady k config_bass_freqlimit"
  "k \<noteq> ''bass_amp'' \<Longrightarrow> steady k config_bass_amplitude"
  "k \<noteq> ''treb_freqlim'' \<Longrightarrow> steady k config_treble_freqlimit"
proof -
  show "k \<noteq> ''volume'' \<Longrightarrow> steady k config_volume"
    by (rule steady_default [where g = "\<lambda>v. if v > 100 then 100 else v" and get = "nvs_read_uint8 ''volume''"
          and put = "config_save_volume 100" and d = 100])
       (auto simp: config_volume_def config_save_volume_def split: option.splits)
  show "k \<noteq> ''random'' \<Longrightarrow> steady k config_random"
    by (rule steady_default [where g = "\<lambda>v. v \<noteq> 0" and get = "nvs_read_uint8 ''random''"
          and put = "config_save_random False" and d = False])
       (auto simp: config_random_def config_save_random_def split: option.splits)
  show "k \<noteq> ''timezone'' \<Longrightarrow> steady k config_timezone"
    by (rule steady_default [where g = "\<lambda>v. v" and get = "nvs_read_string ''timezone'' 32"
          and put = "config_save_timezone ''Europe/Kaliningrad''" and d = "''Europe/Kaliningrad''"])
       (auto simp: config_timezone_def config_save_timezone_def split: option.splits)
qed (auto simp: config_deviceid_def config_ap_password_def config_bass_freqlimit_def config_bass_amplitude_def
      config_treble_freqlimit_def)

lemma steady_treble_amplitude [simp]: "k \<noteq> ''treb_amp'' \<Longrightarrow> steady k config_treble_amplitude"
  using steadyD [OF steady_settings(1) [of "''treb_amp''" k 0]]
  by (fastforce simp: steady_def config_treble_amplitude_def)

lemma steady_config_save [simp]:
  "k \<noteq> ''volume'' \<Longrightarrow> steady k (config_save_volume v)"
  "k \<noteq> ''random'' \<Longrightarrow> steady k (config_save_random b)"
  "k \<noteq> ''bass_freqlim'' \<Longrightarrow> steady k (config_save_bass_freqlimit v)"
  "k \<noteq> ''bass_amp'' \<Longrightarrow> steady k (config_save_bass_amplitude v)"
  "k \<noteq> ''treb_freqlim'' \<Longrightarrow> steady k (config_save_treble_freqlimit v)"
  "k \<noteq> ''treb_amp'' \<Longrightarrow> steady k (config_save_treble_amplitude i)"
  by (simp_all add: config_save_volume_def config_save_random_def config_save_bass_freqlimit_def
      config_save_bass_amplitude_def config_save_treble_freqlimit_def config_save_treble_amplitude_def)

lemma save_if_changed_steady:
  assumes "steady k get" "\<And>v. steady k (put v)" "running s"
  shows "\<exists>s'. save_if_changed get put v s = Some s' \<and> running s' \<and> items s' k = items s k"
proof -
  obtain a s1 where a: "get s = Some (a, s1)" "running s1" "items s1 k = items s k"
    using steadyD [OF assms(1,3)] by blast
  obtain b s2 where "put v s1 = Some (b, s2)" "running s2" "items s2 k = items s1 k"
    using steadyD [OF assms(2) a(2)] by blast
  with a show ?thesis by (simp add: save_if_changed_def)
qed

section \<open>The steps of the start\<close>

text \<open>The key under which an update leaves its number for the start that follows.\<close>

abbreviation update_key :: string where
  "update_key \<equiv> ''fw_upgdare_seq''"

lemma wifi_init_spares:
  assumes "running (wf_store w)" "k \<noteq> ''deviceid''" "k \<noteq> ''ap_pass''"
  shows "\<exists>ok w'. wifi_init group_ok w = Some (ok, w') \<and> running (wf_store w') \<and>
    items (wf_store w') k = items (wf_store w) k \<and> (group_ok \<longrightarrow> ok \<and> wf_started w')"
proof -
  have hostname: "\<exists>n w1. hostname w = Some (n, w1) \<and> running (wf_store w1) \<and>
      items (wf_store w1) k = items (wf_store w) k" if "running (wf_store w)" for w
    using steadyD [OF steady_config(4) [OF assms(2)] that] that by (auto simp: hostname_def Let_def)
  let ?w0 = "w\<lparr>wf_group := Some False\<rparr>"
  obtain c where c: "station ?w0 = Some (?w0\<lparr>wf_sta := Some c\<rparr>)" using station_running [of ?w0] assms(1) by auto
  obtain n w1 where w1: "hostname (?w0\<lparr>wf_sta := Some c\<rparr>) = Some (n, w1)" "running (wf_store w1)"
    "items (wf_store w1) k = items (wf_store w) k"
    using hostname [of "?w0\<lparr>wf_sta := Some c\<rparr>"] assms(1) by auto
  obtain p s2 where s2: "config_ap_password (wf_store w1) = Some (p, s2)" "running s2"
    "items s2 k = items (wf_store w1) k"
    using steadyD [OF steady_config(5) [OF assms(3)] w1(2)] by auto
  show ?thesis
    using hostname [of "w1\<lparr>wf_store := s2, wf_ap := ap\<rparr>" for ap] assms(1) c w1 s2
    by (fastforce simp: wifi_init_def configure_def softap_def Let_def)
qed

lemmas wifi_init_steady = wifi_init_spares [where k = update_key, simplified]

lemma clock_init_steady:
  assumes "running s"
  shows "\<exists>ok tz' s' now d'. clock_init zs mk bus b1 b2 b3 tz s boot d =
      Some (ok, tz', s', now, d') \<and> running s' \<and> items s' update_key = items s update_key"
proof -
  obtain z s1 where "config_timezone s = Some (z, s1)" "running s1" "items s1 update_key = items s update_key"
    using steadyD [OF steady_config(3) [of update_key] assms] by auto
  then show ?thesis
    by (simp add: clock_init_def clock_set_timezone_from_config_def split: prod.splits)
qed

text \<open>The same for an operation of the player.\<close>

definition steady_sound :: "(sound \<Rightarrow> sound option) \<Rightarrow> bool" where
  "steady_sound f = (\<forall>c s. running s \<longrightarrow>
     (\<exists>c' s'. f (c, s) = Some (c', s') \<and> running s' \<and> items s' update_key = items s update_key))"

lemma steady_sound_bind:
  assumes "steady_sound f" "steady_sound g"
  shows "steady_sound (\<lambda>p. Option.bind (f p) g)"
  unfolding steady_sound_def
proof (intro allI impI)
  fix c s assume "running s"
  then obtain c1 s1 where f: "f (c, s) = Some (c1, s1)" "running s1" "items s1 update_key = items s update_key"
    using assms(1) unfolding steady_sound_def by blast
  then obtain c2 s2 where "g (c1, s1) = Some (c2, s2)" "running s2" "items s2 update_key = items s1 update_key"
    using assms(2) unfolding steady_sound_def by blast
  with f show "\<exists>c' s'. Option.bind (f (c, s)) g = Some (c', s') \<and> running s' \<and> items s' update_key = items s update_key"
    by simp
qed

lemma steady_sound_restore:
  assumes "steady update_key get" "\<And>v. steady_sound (put v)"
  shows "steady_sound (restore get put)"
  unfolding steady_sound_def
proof (intro allI impI)
  fix c s assume "running s"
  then obtain v s1 where g: "get s = Some (v, s1)" "running s1" "items s1 update_key = items s update_key"
    using steadyD [OF assms(1)] by blast
  then obtain c' s' where "put v (c, s1) = Some (c', s')" "running s'" "items s' update_key = items s1 update_key"
    using assms(2) unfolding steady_sound_def by blast
  with g show "\<exists>c' s'. restore get put (c, s) = Some (c', s') \<and> running s' \<and> items s' update_key = items s update_key"
    by (simp add: restore_def)
qed

lemma steady_on_store:
  assumes "steady update_key get" "\<And>v. steady update_key (put v)" "running s"
  shows "\<exists>c' s'. on_store (save_if_changed get put v) c s = Some (c', s') \<and> running s' \<and>
    items s' update_key = items s update_key"
  using save_if_changed_steady [where v = v, OF assms] by (auto simp: on_store_def)

lemma steady_player_set:
  "steady_sound (player_set_volume v)" "steady_sound (player_set_bass_freqlimit v)"
  "steady_sound (player_set_bass_amplitude v)" "steady_sound (player_set_treble_freqlimit v)"
  "steady_sound (player_set_treble_amplitude i)"
  unfolding steady_sound_def player_set_volume_def player_set_bass_freqlimit_def player_set_bass_amplitude_def
    player_set_treble_freqlimit_def player_set_treble_amplitude_def Let_def prod.case
  by (intro allI impI, rule steady_on_store; simp)+

lemma player_init_steady:
  assumes "running s"
  shows "\<exists>ok c' s'. player_init b1 b2 b3 b4 b5 b6 b7 (c, s) = Some (ok, c', s') \<and> running s' \<and>
    items s' update_key = items s update_key"
proof -
  let ?f = "\<lambda>p. Option.bind (restore config_volume player_set_volume p) (\<lambda>p.
     Option.bind (restore config_bass_freqlimit player_set_bass_freqlimit p) (\<lambda>p.
     Option.bind (restore config_bass_amplitude player_set_bass_amplitude p) (\<lambda>p.
     Option.bind (restore config_treble_freqlimit player_set_treble_freqlimit p)
       (restore config_treble_amplitude player_set_treble_amplitude))))"
  have "steady_sound ?f"
    by (intro steady_sound_bind steady_sound_restore) (simp_all add: steady_player_set)
  then have "\<exists>c2 s'. ?f (c1, s) = Some (c2, s') \<and> running s' \<and> items s' update_key = items s update_key" for c1
    using assms unfolding steady_sound_def by blast
  then show ?thesis
    using assms by (auto simp: player_init_def split: prod.splits)
qed

lemma offline_init_steady:
  assumes "running (store st)"
  shows "\<exists>ok st'. offline_scheduler_init b1 b2 st = Some (ok, st') \<and> running (store st') \<and>
    items (store st') update_key = items (store st) update_key \<and>
    (\<not> OfflineScheduler.thread_handle st \<longrightarrow> OfflineScheduler.thread_handle st' = (b1 \<and> b2))"
proof -
  obtain r s1 where r: "config_random (store st) = Some (r, s1)" "running s1"
    "items s1 update_key = items (store st) update_key"
    using steadyD [OF steady_config(2) [of update_key] assms] by auto
  obtain v s2 where v: "config_random s1 = Some (v, s2)" "running s2" "items s2 update_key = items s1 update_key"
    using steadyD [OF steady_config(2) [of update_key] r(2)] by auto
  obtain b s3 where "config_save_random r s2 = Some (b, s3)" "running s3" "items s3 update_key = items s2 update_key"
    using steadyD [OF steady_config_save(2) [of update_key] v(2)] by fastforce
  with assms r v show ?thesis
    by (auto simp: offline_scheduler_init_def offline_scheduler_set_random_def Let_def)
qed

text \<open>The playlist of the cloud is on the card once it is mounted and its temporary files are gone.\<close>

definition cloud_playlist_on :: "'d boot_env \<Rightarrow> bool" where
  "cloud_playlist_on e =
     (case mounted e of None \<Rightarrow> False | Some (contents, _) \<Rightarrow> contents CLOUD_SCHEDULER_PLAYLIST_PATH \<noteq> None)"

lemma tempfile_init_spares:
  assumes "\<not> starts_with TEMPFILE_DIR p"
  shows "tempfile_init names fs' p = fs' p"
proof -
  have "newpath TEMPFILE_DIR n \<noteq> p" for n
    using assms by (auto simp: newpath_def starts_with_def)
  then show ?thesis
    unfolding tempfile_init_def by (induction names arbitrary: fs') (auto simp: remove_file_def)
qed

lemma playlist_not_temporary: "\<not> starts_with TEMPFILE_DIR CLOUD_SCHEDULER_PLAYLIST_PATH"
  by code_simp

lemma card_start_simps [simp]:
  "web_nvs (card_start e w) = web_nvs w" "web_chip (card_start e w) = web_chip w" "web_wifi (card_start e w) = web_wifi w"
  "sys_queue (web_sys (card_start e w)) = sys_queue (web_sys w)"
  "sys_device (web_sys (card_start e w)) = sys_device (web_sys w)"
  "sys_offline (web_sys (card_start e w)) = sys_offline (web_sys w)"
  "sys_cloud (web_sys (card_start e w)) = sys_cloud (web_sys w)"
  "sys_tz (web_sys (card_start e w)) = sys_tz (web_sys w)"
  by (auto simp: card_start_def on_system_def sd_init_def web_nvs_def Let_def split: option.splits)

lemma card_start_playlist:
  "file_exists (sys_files (web_sys (card_start e w))) CLOUD_SCHEDULER_PLAYLIST_PATH = cloud_playlist_on e"
  by (auto simp: card_start_def on_system_def sd_init_def file_exists_def cloud_playlist_on_def Let_def
      tempfile_init_spares [OF playlist_not_temporary] split: option.splits)

lemma set_nvs_simps [simp]:
  "web_nvs (set_nvs n w) = n" "web_wifi (set_nvs n w) = web_wifi w"
  "sys_queue (web_sys (set_nvs n w)) = sys_queue (web_sys w)"
  "sys_device (web_sys (set_nvs n w)) = sys_device (web_sys w)"
  "sys_offline (web_sys (set_nvs n w)) = sys_offline (web_sys w)"
  "sys_cloud (web_sys (set_nvs n w)) = sys_cloud (web_sys w)"
  "sys_files (web_sys (set_nvs n w)) = sys_files (web_sys w)"
  "sys_tz (web_sys (set_nvs n w)) = sys_tz (web_sys w)"
  by (simp_all add: set_nvs_def web_nvs_def)

text \<open>What the later steps need of the state, and what the scheduler finds.\<close>

definition same_core :: "web \<Rightarrow> web \<Rightarrow> bool" where
  "same_core w w' = (running (web_nvs w') \<and> items (web_nvs w') update_key = items (web_nvs w) update_key \<and>
     sys_device (web_sys w') = sys_device (web_sys w) \<and> sys_queue (web_sys w') = sys_queue (web_sys w) \<and>
     sys_offline (web_sys w') = sys_offline (web_sys w) \<and> sys_cloud (web_sys w') = sys_cloud (web_sys w))"

lemma wifi_step_running:
  assumes "running (web_nvs w)"
  shows "\<exists>w'. on_wifi (wifi_init ok) w = Some w' \<and> same_core w w' \<and> (ok \<longrightarrow> wf_started (web_wifi w'))"
  using wifi_init_steady [of "(web_wifi w)\<lparr>wf_store := web_nvs w\<rparr>" ok] assms
  by (auto simp: on_wifi_def same_core_def)

lemma clock_step_running:
  assumes "running (web_nvs (m_web m))"
  shows "\<exists>m'. clock_start e m = Some m' \<and> same_core (m_web m) (m_web m') \<and> web_wifi (m_web m') = web_wifi (m_web m)"
  using clock_init_steady [OF assms, of "zones_json e" "mktime_in e" "i2c e" "i2c_driver_ok e" "i2c_mutex_ok e"
      "ntp_task_ok e" "sys_tz (web_sys (m_web m))" "m_now m" "m_rtc m"]
  by (auto simp: clock_start_def same_core_def on_system_def)

text \<open>
  At power-on the partition is not open. Its first use opens it, and whichever step comes first goes on as if it
  had been open.
\<close>

definition usable :: "nvs_state \<Rightarrow> nvs_state \<Rightarrow> bool" where
  "usable n n' = (nvs_enter n = Some n' \<and> running n' \<and> items n' = items n)"

lemma running_usable: "running n \<Longrightarrow> usable n n"
  by (simp add: usable_def)

lemma read_cold:
  assumes "usable n n'"
  shows "nvs_read_string k m n = nvs_read_string k m n'" "config_wifi_ssid n = config_wifi_ssid n'"
    "config_timezone n = config_timezone n'" "copied config_wifi_ssid n = copied config_wifi_ssid n'"
proof -
  show r: "nvs_read_string k m n = nvs_read_string k m n'" for k m
    using assms by (simp add: usable_def nvs_read_string_def)
  show s: "config_wifi_ssid n = config_wifi_ssid n'" by (simp add: config_wifi_ssid_def r)
  show "config_timezone n = config_timezone n'" by (simp add: config_timezone_def r)
  show "copied config_wifi_ssid n = copied config_wifi_ssid n'" by (simp add: copied_def s)
qed

lemma wifi_init_cold:
  assumes "usable n n'"
  shows "wifi_init True (w\<lparr>wf_store := n\<rparr>) = wifi_init True (w\<lparr>wf_store := n'\<rparr>)"
proof -
  have "station (w\<lparr>wf_store := n, wf_group := g\<rparr>) = station (w\<lparr>wf_store := n', wf_group := g\<rparr>)" for g
    by (simp add: station_def read_cold(4) [OF assms] split: option.split prod.split)
  then show ?thesis by (simp add: wifi_init_def configure_def)
qed

lemma set_nvs_set [simp]: "set_nvs n (set_nvs n' w) = set_nvs n w"
  "set_nvs n ((set_nvs n' w)\<lparr>web_wifi := x\<rparr>) = set_nvs n (w\<lparr>web_wifi := x\<rparr>)"
  by (simp_all add: set_nvs_def)

lemma wifi_step_core:
  assumes "usable (web_nvs w) n"
  shows "\<exists>w' n'. on_wifi (wifi_init ok) w = Some w' \<and> usable (web_nvs w') n' \<and>
    items (web_nvs w') update_key = items (web_nvs w) update_key \<and>
    sys_device (web_sys w') = sys_device (web_sys w) \<and> sys_queue (web_sys w') = sys_queue (web_sys w) \<and>
    sys_offline (web_sys w') = sys_offline (web_sys w) \<and> sys_cloud (web_sys w') = sys_cloud (web_sys w) \<and>
    (ok \<longrightarrow> wf_started (web_wifi w') \<and> on_wifi (wifi_init True) (set_nvs n w) = Some w')"
proof (cases ok)
  case True
  have e: "on_wifi (wifi_init True) w = on_wifi (wifi_init True) (set_nvs n w)"
    using wifi_init_cold [OF assms, of "web_wifi w"] by (simp add: on_wifi_def)
  obtain w' where w': "on_wifi (wifi_init True) (set_nvs n w) = Some w'" "same_core (set_nvs n w) w'" "wf_started (web_wifi w')"
    using wifi_step_running [of "set_nvs n w" True] assms by (auto simp: usable_def)
  then have "usable (web_nvs w') (web_nvs w')" by (simp add: same_core_def running_usable)
  with True e w' assms show ?thesis
    by (intro exI [of _ w'] exI [of _ "web_nvs w'"]) (simp add: same_core_def usable_def)
next
  case False
  let ?w' = "set_nvs (web_nvs w) (w\<lparr>web_wifi := (web_wifi w)\<lparr>wf_store := web_nvs w, wf_group := None\<rparr>\<rparr>)"
  have "on_wifi (wifi_init ok) w = Some ?w'" using False by (simp add: on_wifi_def wifi_init_def)
  with False assms show ?thesis by (intro exI [of _ ?w'] exI [of _ n]) simp
qed

lemma clock_step_core:
  assumes "usable (web_nvs (m_web m)) n"
  shows "\<exists>m'. clock_start e m = Some m' \<and> same_core (set_nvs n (m_web m)) (m_web m') \<and> web_wifi (m_web m') = web_wifi (m_web m)"
proof -
  let ?m = "m\<lparr>m_web := set_nvs n (m_web m)\<rparr>"
  have z: "config_timezone (sys_nvs (web_sys (m_web m))) = config_timezone n"
    using read_cold(3) [OF assms] by (simp add: web_nvs_def)
  have "clock_start e m = clock_start e ?m"
    unfolding clock_start_def clock_init_def clock_set_timezone_from_config_def
    by (simp add: z on_system_def set_nvs_def web_nvs_def split: prod.split option.split)
  moreover have "running (web_nvs (m_web ?m))" using assms by (simp add: usable_def)
  from clock_step_running [OF this] obtain m' where "clock_start e ?m = Some m'" "same_core (m_web ?m) (m_web m')"
    "web_wifi (m_web m') = web_wifi (m_web ?m)" by blast
  ultimately show ?thesis by simp
qed

lemma player_step_core:
  assumes "running (web_nvs w)"
  shows "\<exists>w'. player_start_up e w = Some w' \<and> same_core w w' \<and> web_wifi w' = web_wifi w \<and>
    sys_files (web_sys w') = sys_files (web_sys w) \<and> sys_tz (web_sys w') = sys_tz (web_sys w)"
  using player_init_steady [OF assms, of "vs_mutex_ok e" "vs_sema_ok e" "player_queue_ok e" "player_back_ok e"
      "player_mutex_ok e" "player_group_ok e" "player_task_ok e" "web_chip w"]
  by (auto simp: player_start_up_def on_player_def same_core_def)

lemma same_core_trans: "same_core u v \<Longrightarrow> same_core v w \<Longrightarrow> same_core u w"
  by (simp add: same_core_def)

lemma card_step_core: "running (web_nvs w) \<Longrightarrow> same_core w (card_start e w)"
  by (simp add: same_core_def)

text \<open>The scheduler that starts, and the one that is left alone.\<close>

definition one_scheduler :: "'d boot_env \<Rightarrow> system \<Rightarrow> system \<Rightarrow> bool" where
  "one_scheduler e s s' =
     (if cloud_playlist_on e then
        sys_offline s' = sys_offline s \<and>
        cloud.thread_handle (sys_cloud s') = (cloud_group_ok e \<and> cloud_timer_ok e \<and> cloud_task_ok e)
      else
        sys_cloud s' = sys_cloud s \<and>
        offline.thread_handle (sys_offline s') = (offline_mutex_ok e \<and> offline_task_ok e))"

lemma scheduler_step:
  assumes "running (web_nvs w)" "cloud_playlist_on e = file_exists (sys_files (web_sys w)) CLOUD_SCHEDULER_PLAYLIST_PATH"
    and "\<not> offline.thread_handle (sys_offline (web_sys w))" "\<not> cloud.thread_handle (sys_cloud (web_sys w))"
    and "cloud.event_group (sys_cloud (web_sys w)) = None" "seconds_timer (sys_cloud (web_sys w)) = None"
  shows "\<exists>w'. scheduler_start e w = Some w' \<and> one_scheduler e (web_sys w) (web_sys w') \<and> web_wifi w' = web_wifi w \<and>
    running (web_nvs w') \<and> items (web_nvs w') update_key = items (web_nvs w) update_key \<and>
    sys_device (web_sys w') = sys_device (web_sys w) \<and> sys_queue (web_sys w') = sys_queue (web_sys w) \<and>
    sys_tz (web_sys w') = sys_tz (web_sys w)"
proof (cases "cloud_playlist_on e")
  case True
  let ?c = "(sys_cloud (web_sys w))\<lparr>card_files := sys_files (web_sys w)\<rparr>"
  have on: "cloud_scheduler_is_enabled ?c" using True assms(2) by (simp add: cloud_scheduler_is_enabled_def)
  have "cloud.thread_handle (snd (cloud_scheduler_init (cloud_group_ok e) (cloud_timer_ok e) (cloud_task_ok e) ?c)) =
      (cloud_group_ok e \<and> cloud_timer_ok e \<and> cloud_task_ok e)"
    using on assms(4-6) by (simp add: cloud_scheduler_init_def Let_def)
  with True on assms(1) show ?thesis
    by (simp add: scheduler_start_def one_scheduler_def web_nvs_def Let_def)
next
  case False
  then have off: "\<not> cloud_scheduler_is_enabled ((sys_cloud (web_sys w))\<lparr>card_files := sys_files (web_sys w)\<rparr>)"
    using assms(2) by (simp add: cloud_scheduler_is_enabled_def)
  obtain ok st where "offline_scheduler_init (offline_mutex_ok e) (offline_task_ok e)
      ((sys_offline (web_sys w))\<lparr>store := web_nvs w\<rparr>) = Some (ok, st)" "running (store st)"
    "items (store st) update_key = items (web_nvs w) update_key"
    "offline.thread_handle st = (offline_mutex_ok e \<and> offline_task_ok e)"
    using offline_init_steady [of "(sys_offline (web_sys w))\<lparr>store := web_nvs w\<rparr>" "offline_mutex_ok e" "offline_task_ok e"]
      assms(1,3) by auto
  with False off show ?thesis
    by (simp add: scheduler_start_def one_scheduler_def on_offline_def Let_def)
qed

lemma power_on_queued:
  assumes "printable_device (sys_device s)" "sys_queue s = []"
  shows "\<exists>msg. remote_control_init b1 b2 s = Some (b1 \<and> b2, s\<lparr>sys_queue := [msg]\<rparr>) \<and>
    says ''power_on'' (sys_device s) (data msg)"
proof -
  obtain msg where "outgoing_command (sys_device s) POWER_ON None [] = Some (queue_put msg [])"
    "says ''power_on'' (sys_device s) (data msg)"
    using outgoing_command_message [OF assms(1), of POWER_ON None "[]"] by auto
  with assms(2) show ?thesis by (auto simp: remote_control_init_def send_def queue_put_def QUEUE_LENGTH_def)
qed

text \<open>The number that an update has left, if any.\<close>

definition pending_update :: "nvs_state \<Rightarrow> u32 option" where
  "pending_update n =
     (case items n update_key of Some (NvsU32 q) \<Rightarrow> if q = 0 then None else Some q | _ \<Rightarrow> None)"

definition confirmation :: "device \<Rightarrow> u32 option \<Rightarrow> queue \<Rightarrow> bool" where
  "confirmation dev pending q =
     (case pending of
        None \<Rightarrow> q = []
      | Some seq \<Rightarrow> (\<exists>msg. q = [msg] \<and> says ''ack_ok'' dev (data msg) \<and> sequence msg = seq \<and>
          QueueMessage_t.callback msg = Some Remove_Nvs_Sequence_Callback))"

lemma confirm_step:
  assumes "running (web_nvs w)" "printable_device (sys_device (web_sys w))" "length (sys_queue (web_sys w)) < QUEUE_LENGTH"
    and "c_text (running_version e)"
  shows "\<exists>w' acks. confirm_start e w = Some w' \<and> sys_queue (web_sys w') = sys_queue (web_sys w) @ acks \<and>
    confirmation (sys_device (web_sys w)) (pending_update (web_nvs w)) acks \<and> web_wifi w' = web_wifi w \<and>
    sys_offline (web_sys w') = sys_offline (web_sys w) \<and> sys_cloud (web_sys w') = sys_cloud (web_sys w) \<and>
    ota_confirmed (sys_ota (web_sys w')) \<and> sys_tz (web_sys w') = sys_tz (web_sys w)"
proof -
  let ?s = "(web_sys w)\<lparr>sys_ota := (sys_ota (web_sys w))\<lparr>ota_confirmed := True\<rparr>\<rparr>"
  have r: "nvs_read_uint32 update_key (sys_nvs ?s) =
      Some (case items (web_nvs w) update_key of Some (NvsU32 v) \<Rightarrow> Some v | _ \<Rightarrow> None, web_nvs w)"
    using assms(1) by (simp add: nvs_read_uint32_def web_nvs_def)
  show ?thesis
  proof (cases "pending_update (web_nvs w)")
    case None
    then have "firmware_update_confirm (rollback_fails e) True (running_version e) (web_sys w) = Some (?s\<lparr>sys_nvs := web_nvs w\<rparr>)"
      unfolding firmware_update_confirm_def Let_def using r
      by (auto simp: pending_update_def split: option.splits nvs_item.splits if_splits)
    with None show ?thesis by (simp add: confirm_start_def confirmation_def)
  next
    case (Some seq)
    let ?s2 = "?s\<lparr>sys_nvs := web_nvs w\<rparr>"
    from Some have "items (web_nvs w) update_key = Some (NvsU32 seq)" "seq \<noteq> 0"
      by (auto simp: pending_update_def split: option.splits nvs_item.splits if_splits)
    then have "firmware_update_confirm (rollback_fails e) True (running_version e) (web_sys w) =
        send_ack True seq (running_version e) (Some Remove_Nvs_Sequence_Callback) ?s2"
      unfolding firmware_update_confirm_def Let_def using r by simp
    moreover obtain msg where "send_ack True seq (running_version e) (Some Remove_Nvs_Sequence_Callback) ?s2 =
        Some (?s2\<lparr>sys_queue := sys_queue ?s2 @ [msg]\<rparr>)" "says ''ack_ok'' (sys_device ?s2) (data msg)" "sequence msg = seq"
      "QueueMessage_t.callback msg = Some Remove_Nvs_Sequence_Callback"
      using send_ack_queued [of ?s2 "running_version e" True seq "Some Remove_Nvs_Sequence_Callback"] assms(2-4) by auto
    ultimately show ?thesis using Some by (simp add: confirm_start_def confirmation_def)
  qed
qed

text \<open>
  A device before its start: nothing is queued and nothing runs, and the settings partition opens at its first
  use with what it holds.
\<close>

definition at_rest :: "web \<Rightarrow> bool" where
  "at_rest w =
     (printable_device (sys_device (web_sys w)) \<and> sys_queue (web_sys w) = [] \<and>
      \<not> offline.thread_handle (sys_offline (web_sys w)) \<and> \<not> cloud.thread_handle (sys_cloud (web_sys w)) \<and>
      cloud.event_group (sys_cloud (web_sys w)) = None \<and> seconds_timer (sys_cloud (web_sys w)) = None)"

definition powered_off :: "web \<Rightarrow> bool" where
  "powered_off w =
     ((case nvs_enter (web_nvs w) of None \<Rightarrow> False | Some n \<Rightarrow> usable (web_nvs w) n) \<and> at_rest w)"

lemma at_rest_set_nvs [simp]: "at_rest (set_nvs n w) = at_rest w"
  by (simp add: at_rest_def)

lemma healthy_usable: "healthy n \<Longrightarrow> \<exists>n'. nvs_enter n = Some n' \<and> usable n n'"
  by (cases "nvs_state.initialized n")
     (auto simp: healthy_def usable_def running_def nvs_enter_def nvs_init_def nvs_flash_init_def Let_def)

lemma powered_off_healthy: "healthy (web_nvs w) \<Longrightarrow> at_rest w \<Longrightarrow> powered_off w"
  by (auto simp: powered_off_def dest!: healthy_usable)

text \<open>The start step by step; the network and the clock come first and are left as they are by the others.\<close>

lemma startup_steps:
  assumes "powered_off (m_web m)" "c_text (running_version e)"
  shows "\<exists>n m' w1 m2 power acks. usable (web_nvs (m_web m)) n \<and> app_main e m = Some m' \<and>
    one_scheduler e (web_sys (m_web m)) (web_sys (m_web m')) \<and>
    sys_queue (web_sys (m_web m')) = power # acks \<and>
    says ''power_on'' (sys_device (web_sys (m_web m))) (data power) \<and>
    confirmation (sys_device (web_sys (m_web m))) (pending_update (web_nvs (m_web m))) acks \<and>
    m_routes m' = start_webserver (server_ok e) \<and>
    (wifi_group_ok e \<longrightarrow> wf_started (web_wifi (m_web m'))) \<and> ota_confirmed (sys_ota (web_sys (m_web m'))) \<and>
    (wifi_group_ok e \<longrightarrow> on_wifi (wifi_init True) (set_nvs n (m_web m)) = Some w1) \<and>
    clock_start e (m\<lparr>m_web := w1\<rparr>) = Some m2 \<and> web_wifi (m_web m') = web_wifi w1 \<and>
    sys_tz (web_sys (m_web m')) = sys_tz (web_sys (m_web m2))"
proof -
  let ?w = "m_web m"
  obtain n where w: "usable (web_nvs ?w) n" "printable_device (sys_device (web_sys ?w))" "sys_queue (web_sys ?w) = []"
    using assms(1) by (auto simp: powered_off_def at_rest_def split: option.splits)
  obtain w1 n1 where w1: "on_wifi (wifi_init (wifi_group_ok e)) ?w = Some w1" "usable (web_nvs w1) n1"
    "items (web_nvs w1) update_key = items (web_nvs ?w) update_key"
    "sys_device (web_sys w1) = sys_device (web_sys ?w)" "sys_queue (web_sys w1) = sys_queue (web_sys ?w)"
    "sys_offline (web_sys w1) = sys_offline (web_sys ?w)" "sys_cloud (web_sys w1) = sys_cloud (web_sys ?w)"
    "wifi_group_ok e \<longrightarrow> wf_started (web_wifi w1) \<and> on_wifi (wifi_init True) (set_nvs n ?w) = Some w1"
    using wifi_step_core [OF w(1)] by blast
  have "usable (web_nvs (m_web (m\<lparr>m_web := w1\<rparr>))) n1" using w1(2) by simp
  from clock_step_core [OF this] obtain m2 where m2: "clock_start e (m\<lparr>m_web := w1\<rparr>) = Some m2"
    "same_core (set_nvs n1 w1) (m_web m2)" "web_wifi (m_web m2) = web_wifi w1" by auto
  let ?w3 = "card_start e (m_web m2)"
  have "items n1 update_key = items (web_nvs ?w) update_key" using w1(2,3) by (simp add: usable_def)
  then have c3: "same_core ?w ?w3"
    using m2(2) w1(4-7) by (simp add: same_core_def)
  obtain power where power: "remote_control_init (gate_ok e) (control_task_ok e) (web_sys ?w3) =
      Some (gate_ok e \<and> control_task_ok e, (web_sys ?w3)\<lparr>sys_queue := [power]\<rparr>)"
    "says ''power_on'' (sys_device (web_sys ?w)) (data power)"
    using power_on_queued [of "web_sys ?w3"] c3 w(2,3) by (auto simp: same_core_def)
  let ?w4 = "?w3\<lparr>web_sys := (web_sys ?w3)\<lparr>sys_queue := [power]\<rparr>\<rparr>"
  have n4: "web_nvs ?w4 = web_nvs ?w3" by (simp add: web_nvs_def)
  have "running (web_nvs ?w4)" using c3 n4 by (simp add: same_core_def)
  from player_step_core [OF this] obtain w5 where w5: "player_start_up e ?w4 = Some w5" "same_core ?w4 w5"
    "web_wifi w5 = web_wifi ?w4" "sys_files (web_sys w5) = sys_files (web_sys ?w4)" "sys_tz (web_sys w5) = sys_tz (web_sys ?w4)"
    by blast
  have "cloud_playlist_on e = file_exists (sys_files (web_sys w5)) CLOUD_SCHEDULER_PLAYLIST_PATH"
    using card_start_playlist [of e "m_web m2"] w5(4) by simp
  moreover have c5: "running (web_nvs w5)" "items (web_nvs w5) update_key = items (web_nvs ?w) update_key"
    "sys_device (web_sys w5) = sys_device (web_sys ?w)" "sys_queue (web_sys w5) = [power]"
    "sys_offline (web_sys w5) = sys_offline (web_sys ?w)" "sys_cloud (web_sys w5) = sys_cloud (web_sys ?w)"
    using w5(2) c3 n4 by (simp_all add: same_core_def)
  ultimately obtain w6 where w6: "scheduler_start e w5 = Some w6" "one_scheduler e (web_sys ?w) (web_sys w6)"
    "web_wifi w6 = web_wifi w5" "running (web_nvs w6)" "items (web_nvs w6) update_key = items (web_nvs ?w) update_key"
    "sys_device (web_sys w6) = sys_device (web_sys ?w)" "sys_queue (web_sys w6) = [power]" "sys_tz (web_sys w6) = sys_tz (web_sys w5)"
    using scheduler_step [of w5 e] assms(1) by (auto simp: powered_off_def at_rest_def one_scheduler_def)
  have p: "pending_update (web_nvs w6) = pending_update (web_nvs ?w)" by (simp add: pending_update_def w6(5))
  obtain w7 acks where w7: "confirm_start e w6 = Some w7" "sys_queue (web_sys w7) = power # acks"
    "confirmation (sys_device (web_sys ?w)) (pending_update (web_nvs ?w)) acks" "web_wifi w7 = web_wifi w6"
    "sys_offline (web_sys w7) = sys_offline (web_sys w6)" "sys_cloud (web_sys w7) = sys_cloud (web_sys w6)"
    "ota_confirmed (sys_ota (web_sys w7))" "sys_tz (web_sys w7) = sys_tz (web_sys w6)"
    using confirm_step [OF w6(4), of e] w(2) w6(6,7) p assms(2) by (auto simp: QUEUE_LENGTH_def)
  let ?m' = "m2\<lparr>m_web := w7, m_routes := start_webserver (server_ok e)\<rparr>"
  have "app_main e m = Some ?m'"
    using w1(1) m2(1) power(1) w5(1) w6(1) w7(1) by (simp add: app_main_def Let_def)
  with w(1) power(2) w6(2,3,8) w7 w1(8) m2(1,3) w5(3,5) show ?thesis
    by (intro exI [of _ n] exI [of _ ?m'] exI [of _ w1] exI [of _ m2] exI [of _ power] exI [of _ acks])
       (simp add: one_scheduler_def)
qed


text \<open>A start in which all that can fail does, on a card with a playlist, after an update.\<close>

definition unlucky_env :: "unit boot_env" where
  "unlucky_env = \<lparr>wifi_group_ok = False, zones_json = ''{}'', mktime_in = (\<lambda>_ _. 0), i2c = (\<lambda>_ _. None),
     i2c_driver_ok = False, i2c_mutex_ok = False, ntp_task_ok = False,
     mounted = Some ([CLOUD_SCHEDULER_PLAYLIST_PATH \<mapsto> ''[]''], DDir (Some [])), temp_names = [],
     server_ok = False, gate_ok = False, control_task_ok = False, vs_mutex_ok = False, vs_sema_ok = False,
     player_queue_ok = False, player_back_ok = False, player_mutex_ok = False, player_group_ok = False,
     player_task_ok = False, cloud_group_ok = True, cloud_timer_ok = True, cloud_task_ok = True,
     cleanup_timer_ok = False, offline_mutex_ok = False, offline_task_ok = False, rollback_fails = False,
     running_version = ''2.0''\<rparr>"

definition updated_machine :: "unit machine" where
  "updated_machine =
     \<lparr>m_web = \<lparr>web_sys = sample_system\<lparr>sys_nvs := rebooted (fresh_nvs\<lparr>items := [update_key \<mapsto> NvsU32 7]\<rparr>),
          sys_offline := started\<lparr>offline.thread_handle := False\<rparr>,
          sys_cloud := idle_cloud\<lparr>cloud.event_group := None, seconds_timer := None\<rparr>\<rparr>,
        web_chip = \<lparr>answers = [], ops = []\<rparr>, web_wifi = sample_wifi\<rparr>,
      m_routes = None, m_now = 0, m_rtc = ()\<rparr>"


text \<open>
  The free space that the device reports is that of the free clusters as long as there are fewer than
  \<open>2 ^ 32\<close> sectors in them, rounded down to a KiB; beyond, the 32 bits of the product drop what is above. The
  64 bits of the result never overflow, and the number is small enough to be printed digit by digit.
\<close>

theorem sd_free_space:
  "unat (sd_bytes_free_card (Some (n, c))) = (unat n * unat c mod 2 ^ 32) div 2 * 1024 \<and>
   uint (sd_bytes_free_card (Some (n, c))) < 10 ^ 15 \<and> sd_bytes_free_card None = 0"
proof -
  let ?p = "n * ucast c :: u32"
  have "unat (ucast c :: u32) = unat c" by (simp add: unsigned_ucast_eq take_bit_nat_eq_self less_trans [OF unsigned_less])
  then have p: "unat ?p = unat n * unat c mod 2 ^ 32" by (simp add: unat_word_ariths)
  have l: "unat ?p < 2 ^ 32" by (simp add: p)
  have q: "unat (ucast ?p div 2 :: 64 word) = unat ?p div 2"
    by (simp add: unat_div unsigned_ucast_eq take_bit_nat_eq_self less_trans [OF unsigned_less])
  have b: "unat ?p div 2 * 1024 < 2 ^ 42" using l by simp
  then have "unat ((ucast ?p div 2 :: 64 word) * 1024) = unat ?p div 2 * 1024"
    by (subst unat_word_ariths) (simp add: q)
  then have u: "unat (sd_bytes_free_card (Some (n, c))) = unat ?p div 2 * 1024"
    by (simp add: sd_bytes_free_card_def Let_def)
  with b have "unat (sd_bytes_free_card (Some (n, c))) < 10 ^ 15" by simp
  then have "uint (sd_bytes_free_card (Some (n, c))) < 10 ^ 15" by (simp add: uint_nat del: unsigned_of_nat of_nat_unat)
  with u p show ?thesis by (simp add: sd_bytes_free_card_def)
qed

end
