(* ===== verification/Restart.thy ===== *)
theory Restart
  imports Startup WebProps
begin

text \<open>
  What the web interface stores is what the device starts with: the settings form of \<open>web/web.c\<close> and the
  start of \<open>app_main.c\<close> that follows it, joined by the settings partition, the only thing that outlives the power.
\<close>

section \<open>The settings at the start\<close>

lemma str_item_items: "items n = items n' \<Longrightarrow> str_item k m n = str_item k m n'"
  by (simp add: str_item_def)

lemma read_running: "running n \<Longrightarrow> nvs_read_string k m n = Some (str_item k m n, n)"
  by (simp add: nvs_read_string_def str_item_def)

lemma network_running:
  assumes "running n" "str_item ''wifi_ssid'' 32 n = Some a" "str_item ''wifi_pass'' 64 n = Some b"
  shows "copied config_wifi_ssid n = Some (a, n)" "copied config_wifi_pass n = Some (b, n)"
  using assms by (simp_all add: copied_def config_wifi_ssid_def config_wifi_pass_def read_running)

lemma hostname_sta: "hostname w = Some (h, w') \<Longrightarrow> wf_sta w' = wf_sta w"
  by (auto simp: hostname_def Let_def split: if_splits)

lemma softap_sta: "softap w = Some w' \<Longrightarrow> wf_sta w' = wf_sta w"
  by (auto simp: softap_def Let_def dest!: hostname_sta split: option.splits)

lemma wifi_init_station:
  assumes "running (wf_store w)" "str_item ''wifi_ssid'' 32 (wf_store w) = Some a"
    and "str_item ''wifi_pass'' 64 (wf_store w) = Some b" "wifi_init True w = Some (ok, w')"
  shows "wf_sta w' = Some \<lparr>sta_ssid = a, sta_password = b\<rparr>"
  using assms(4) network_running [OF assms(1-3)]
  by (auto simp: wifi_init_def configure_def station_def dest!: softap_sta split: option.splits)

lemma wifi_start_station:
  assumes "running n" "str_item ''wifi_ssid'' 32 n = Some a" "str_item ''wifi_pass'' 64 n = Some b"
    and "on_wifi (wifi_init True) (set_nvs n w) = Some w1"
  shows "wf_sta (web_wifi w1) = Some \<lparr>sta_ssid = a, sta_password = b\<rparr>" "running (web_nvs w1)"
    "items (web_nvs w1) ''timezone'' = items n ''timezone''"
proof -
  let ?w = "(web_wifi w)\<lparr>wf_store := n\<rparr>"
  obtain ok x where x: "wifi_init True ?w = Some (ok, x)" "running (wf_store x)"
    "items (wf_store x) ''timezone'' = items n ''timezone''"
    using wifi_init_spares [of ?w "''timezone''" True] assms(1) by auto
  with assms(4) have "w1 = set_nvs (wf_store x) ((set_nvs n w)\<lparr>web_wifi := x\<rparr>)" by (simp add: on_wifi_def)
  with x wifi_init_station [of ?w a b ok x] assms(1-3)
  show "wf_sta (web_wifi w1) = Some \<lparr>sta_ssid = a, sta_password = b\<rparr>" "running (web_nvs w1)"
    "items (web_nvs w1) ''timezone'' = items n ''timezone''" by simp_all
qed

lemma clock_start_zone:
  assumes "running (web_nvs (m_web m))" "str_item ''timezone'' 32 (web_nvs (m_web m)) = Some z"
    and "find_string z (zones_json e) = Some rule" "clock_start e m = Some m2"
  shows "sys_tz (web_sys (m_web m2)) = Some rule"
proof -
  have "config_timezone (web_nvs (m_web m)) = Some (z, web_nvs (m_web m))"
    using assms(1,2) by (simp add: config_timezone_def read_running)
  with assms(3,4) show ?thesis
    by (auto simp: clock_start_def clock_init_def clock_set_timezone_from_config_def clock_set_timezone_def on_system_def
        split: prod.splits)
qed

text \<open>A start on a partition that holds a network and a time zone.\<close>

lemma start_with_settings:
  assumes "powered_off (m_web m)" "c_text (running_version e)" "wifi_group_ok e"
    and "str_item ''wifi_ssid'' 32 (web_nvs (m_web m)) = Some a" "str_item ''wifi_pass'' 64 (web_nvs (m_web m)) = Some b"
    and "str_item ''timezone'' 32 (web_nvs (m_web m)) = Some z" "find_string z (zones_json e) = Some rule"
  shows "\<exists>m'. app_main e m = Some m' \<and> wf_started (web_wifi (m_web m')) \<and>
    wf_sta (web_wifi (m_web m')) = Some \<lparr>sta_ssid = a, sta_password = b\<rparr> \<and> sys_tz (web_sys (m_web m')) = Some rule"
proof -
  obtain n m' w1 m2 where s: "usable (web_nvs (m_web m)) n" "app_main e m = Some m'" "wf_started (web_wifi (m_web m'))"
    "on_wifi (wifi_init True) (set_nvs n (m_web m)) = Some w1" "clock_start e (m\<lparr>m_web := w1\<rparr>) = Some m2"
    "web_wifi (m_web m') = web_wifi w1" "sys_tz (web_sys (m_web m')) = sys_tz (web_sys (m_web m2))"
    using startup_steps [OF assms(1,2)] assms(3) by blast
  have n: "running n" "str_item k l n = str_item k l (web_nvs (m_web m))" for k l
    using s(1) by (auto simp: usable_def intro: str_item_items)
  note w1 = wifi_start_station [OF n(1) _ _ s(4), of a b, unfolded n(2), OF assms(4,5)]
  have "str_item ''timezone'' 32 (web_nvs w1) = Some z"
    using w1(3) n(2) [of "''timezone''" 32] assms(6) by (simp add: str_item_def)
  with clock_start_zone [OF _ _ assms(7) s(5)] w1(2) have "sys_tz (web_sys (m_web m2)) = Some rule" by simp
  with s w1(1) show ?thesis by auto
qed

section \<open>From the form to the next start\<close>

lemma healthy_same_flash: "same_flash n n' \<Longrightarrow> healthy n \<Longrightarrow> healthy n'"
  by (cases n; cases n') (simp add: same_flash_def healthy_def)


lemma fresh_password_healthy: "\<exists>s. config_web_password fresh_nvs = Some (''12345678'', s) \<and> sure s \<and> healthy s"
  by (simp add: config_web_password_def config_ap_password_def str_setting_def nvs_read_string_def nvs_save_string_def
      nvs_set_def fresh_nvs_def sure_def running_def healthy_def nvs_enter_def nvs_init_def)


end
