(* ===== verification/EndToEnd.thy ===== *)
theory EndToEnd
  imports Gate
begin

text \<open>
  The way of a playlist through the whole device: from the server's answer over the queue, the command
  and the downloads to the tracks that are played.
\<close>

section \<open>The playlist in its object\<close>

definition playlist_object :: "string \<Rightarrow> playlist_entry list \<Rightarrow> (string \<times> json) list" where
  "playlist_object items_name es = [(items_name, JArray (map entry_json es))]"

lemma events_of_playlist_object:
  "exact_ids num es \<Longrightarrow> events_of num (JObject (playlist_object k es)) @ [JSON_DONE] = object_events k es"
  using events_of_playlist [of num es] by (simp add: playlist_object_def object_events_def playlist_events_def)

text \<open>The plays of one entry: the report of its begin, its file, the report of its end.\<close>

definition played :: "playlist_entry \<Rightarrow> cloud_event list" where
  "played e = [CloudTrackBegin (track_of e), CloudPlayerStart (permanent (entry_file e)), CloudTrackEnd (track_of e)]"

fun background :: "playlist_entry \<Rightarrow> bool" where
  "background (Background u f n) = True"
| "background (Advert u f n ivs) = False"

lemma plays_of_entry:
  assumes "contents (permanent (entry_file e)) \<noteq> None"
  shows "cloud_track_events contents (track_of e) = played e"
  using assms by (cases e; simp add: cloud_track_events_def played_def file_exists_def permanent_def)

lemma background_track [simp]: "(track_type (track_of e) = TRACK_BACKGROUND) = background e"
  by (cases e) simp_all

lemma plays_of_playlist:
  "list_all (\<lambda>e. contents (permanent (entry_file e)) \<noteq> None) es \<Longrightarrow>
   concat (map (cloud_track_events contents) (filter (\<lambda>t. track_type t = TRACK_BACKGROUND) (map track_of es))) =
   concat (map played (filter background es))"
  by (induction es) (simp_all add: plays_of_entry)

lemma cloud_rounds_of_object:
  assumes "list_all plain_entry es" "plain k" "length k < 255" "json_of t = object_events k es"
    and "undisturbed c" "card_files c CLOUD_SCHEDULER_PLAYLIST_PATH = Some t"
    and "list_all (\<lambda>e. card_files c (permanent (entry_file e)) \<noteq> None) es"
  shows "cloud_rounds n json_of c =
    Some (c\<lparr>cloud.trace := cloud.trace c @ concat (replicate n (concat (map played (filter background es))))\<rparr>)"
  using assms(5-7)
proof (induction n arbitrary: c)
  case (Suc n)
  let ?c = "c\<lparr>cloud.trace := cloud.trace c @ concat (map played (filter background es))\<rparr>"
  have "\<not> cloud_is_stopping c" using Suc.prems(1) by (simp add: undisturbed_def)
  then have "cloud_rounds (Suc n) json_of c = cloud_rounds n json_of ?c"
    using Suc.prems(2) plays_of_playlist [OF Suc.prems(3)] assms(4)
    by (simp add: traverse_object_visit [OF assms(1-3)] visit_quiet [OF Suc.prems(1)])
  with Suc.IH [of ?c] Suc.prems show ?case by simp
qed simp

section \<open>The download\<close>

definition fresh_dl :: "files \<Rightarrow> dl" where
  "fresh_dl contents = \<lparr>fs = contents, polls_done = 0, attempt = 0, requests = [], notified = []\<rparr>"

lemma download_object:
  assumes "server_answers att" "list_all loadable es" "neutral (JSON_STRING k)"
  shows "\<exists>d'. download_from_playlist att server None (object_events k es) d = Some (True, d') \<and>
    (\<forall>e\<in>set es. fs d' (permanent (entry_file e)) \<noteq> None) \<and> keeps (entry_file ` set es) d d'"
proof -
  let ?d = "d\<lparr>polls_done := polls_done d + 3\<rparr>"
  have "list_all neutral [JSON_OBJECT, JSON_STRING k, JSON_ARRAY]" using assms(3) by (simp add: neutral_def)
  from extract_neutral [OF this, of att server "concat (map entry_events es) @ [JSON_ARRAY_END, JSON_OBJECT_END, JSON_DONE]" 0 d]
  have "download_from_playlist att server None (object_events k es) d =
      extract_loop att server None (concat (map entry_events es) @ [JSON_ARRAY_END, JSON_OBJECT_END, JSON_DONE]) (idle_x 0) ?d"
    by (simp add: download_from_playlist_def extract_and_download_def object_events_def idle_x_def extract_zero_def
        numeral_3_eq_3 del: extract_loop.simps)
  moreover obtain d1 m where "extract_loop att server None (concat (map entry_events es) @
      [JSON_ARRAY_END, JSON_OBJECT_END, JSON_DONE]) (idle_x 0) ?d =
      extract_loop att server None [JSON_ARRAY_END, JSON_OBJECT_END, JSON_DONE] (idle_x m) d1"
    "\<forall>e\<in>set es. fs d1 (permanent (entry_file e)) \<noteq> None" "keeps (entry_file ` set es) ?d d1"
    using extract_entries [OF assms(1,2)] by blast
  moreover have "extract_loop att server None [JSON_ARRAY_END, JSON_OBJECT_END, JSON_DONE] (idle_x m) d1 =
      Some (True, d1\<lparr>polls_done := polls_done d1 + 2\<rparr>)"
    by (simp add: poll_def is_stopping_def)
  ultimately show ?thesis
    by (intro exI [of _ "d1\<lparr>polls_done := polls_done d1 + 2\<rparr>"]) (simp add: keeps_def)
qed

text \<open>What the task does when all goes well, and what it leaves: the playlist under its name.\<close>

definition install_actions :: "nat \<Rightarrow> dl_action list" where
  "install_actions seq = [CleanupStop, SetSynchronizing True, OfflineDeinit, CleanupStop, CloudDeinit, CloudInit,
     CleanupStart, SendAckOk seq, SetSynchronizing False]"

lemma install_object:
  assumes "server_answers att" "list_all loadable es" "neutral (JSON_STRING k)"
    and "fs d src = Some t" "json_of t = object_events k es"
    and "list_all (\<lambda>e. src \<noteq> temporary (entry_file e) \<and> src \<noteq> permanent (entry_file e) \<and>
           entry_file e \<noteq> CLOUD_SCHEDULER_PLAYLIST_FILENAME) es"
    and "src \<noteq> CLOUD_SCHEDULER_PLAYLIST_PATH"
  shows "\<exists>d'. downloader_thread att server None json_of True (Some src) seq d = Some (install_actions seq, d') \<and>
    fs d' CLOUD_SCHEDULER_PLAYLIST_PATH = Some t \<and> fs d' src = None \<and>
    list_all (\<lambda>e. fs d' (permanent (entry_file e)) \<noteq> None) es"
proof -
  obtain d1 where d1: "download_from_playlist att server None (object_events k es) d = Some (True, d1)"
    "\<forall>e\<in>set es. fs d1 (permanent (entry_file e)) \<noteq> None" "keeps (entry_file ` set es) d d1"
    using download_object [OF assms(1-3)] by blast
  have "fs d1 src = Some t"
    using d1(3) assms(4,6) by (auto simp: keeps_def list_all_iff)
  then have r: "rename_file src CLOUD_SCHEDULER_PLAYLIST_PATH ((fs d1)(CLOUD_SCHEDULER_PLAYLIST_PATH := None)) =
      (True, (fs d1)(CLOUD_SCHEDULER_PLAYLIST_PATH := None, src := None, CLOUD_SCHEDULER_PLAYLIST_PATH \<mapsto> t))"
    using assms(7) by (simp add: rename_file_def)
  have p: "permanent (entry_file e) \<noteq> CLOUD_SCHEDULER_PLAYLIST_PATH \<and> permanent (entry_file e) \<noteq> src" if "e \<in> set es" for e
    using assms(6) that by (auto simp: list_all_iff permanent_def CLOUD_SCHEDULER_PLAYLIST_PATH_def newpath_def)
  show ?thesis
    using d1(1,2) r p assms(4,5,7)
    by (auto simp: downloader_thread_def downloader_work_def old_text_def remove_file_def poll_def is_stopping_def
        install_actions_def list_all_iff)
qed

section \<open>All the way\<close>

text \<open>An entry that can be downloaded, parsed, and kept beside the playlist file and its source.\<close>

definition entry_ok :: "string \<Rightarrow> playlist_entry \<Rightarrow> bool" where
  "entry_ok src e = (plain_entry e \<and> loadable e \<and> entry_file e \<noteq> CLOUD_SCHEDULER_PLAYLIST_FILENAME \<and>
     src \<noteq> temporary (entry_file e) \<and> src \<noteq> permanent (entry_file e))"


section \<open>A run\<close>

text \<open>Two tracks, the first attempt of the post and of each download failing.\<close>

definition two_tracks :: "playlist_entry list" where
  "two_tracks = [Background ''/m/1'' ''song.mp3'' 4, Background ''/m/2'' ''tune.mp3'' 5]"

definition tracks_world :: world where
  "tracks_world = sample_world\<lparr>client := (\<lambda>k _. if k = 0 then ([], None)
     else ([HTTP_EVENT_ON_HEADER ''X-Sequence-Number'' ''12'', HTTP_EVENT_ON_DATA
        (update_text [] ''playlist'' (playlist_object ''items'' two_tracks) [])], Some 200))\<rparr>"

lemma tracks_world_simps:
  "tmp tracks_world = tmp sample_world" "around tracks_world = around sample_world"
  "rsp_file (tmp tracks_world k) = ''/sdcard/.tmp/3.tmp''" "tmp_file (around tracks_world k) = ''/sdcard/.tmp/5.tmp''"
  by (simp_all add: tracks_world_def sample_paths)

lemma two_tracks_ok:
  "message_ok [] ''playlist'' (playlist_object ''items'' two_tracks) []"
  "list_all (entry_ok ''/sdcard/.tmp/5.tmp'') two_tracks" "exact_ids int_of_text two_tracks"
proof -
  show "message_ok [] ''playlist'' (playlist_object ''items'' two_tracks) []"
    by (simp add: message_ok_def playlist_object_def two_tracks_def c_text_ascii before_playlist_def no_braces_def)
  show "list_all (entry_ok ''/sdcard/.tmp/5.tmp'') two_tracks"
    by (simp add: two_tracks_def entry_ok_def plain_def loadable_def neutral_def CLOUD_SCHEDULER_PLAYLIST_FILENAME_def
        temporary_def permanent_def newpath_def TEMPFILE_DIR_def CLOUD_SCHEDULER_FILES_PATH_def)
  show "exact_ids int_of_text two_tracks" by (simp add: exact_ids_def two_tracks_def)
qed

lemma flaky_answers: "server_answers flaky"
  by (auto simp: server_answers_def flaky_def Downloader.good_status_def intro: exI [of _ 1])

lemma unat_numeral_12: "unat (12 :: 32 word) = 12"
  by simp


end
