(* ===== verification/Dreq.thy ===== *)
theory Dreq
  imports Prelude
begin

text \<open>
  \<open>src/firmware/main/audio/vs1011.c\<close>: the transfers to the decoder chip and its request line. The chip
  raises \<open>DREQ\<close> when it can take data; \<open>wait_for_dreq\<close> looks at the line and, when it is low, waits for
  the binary semaphore that the handler of the rising edge, \<open>dreq_isr\<close>, gives. Chip, handler and task interleave at
  each look at the line and at the semaphore. The mutex admits one task at a time, so one task is all there is.
\<close>

section \<open>The steps\<close>

text \<open>The wait before the transfer and the one after it, which only the writing functions have.\<close>

datatype wait_no = Before | After

datatype transfer_at = Free | Look wait_no | Take wait_no | Transmit

fun returned :: "wait_no \<Rightarrow> transfer_at" where
  "returned Before = Transmit"
| "returned After = Free"

text \<open>
  \<open>pending\<close> is an edge that the handler has not served yet. Two fields only observe: \<open>asked\<close> says whether the
  line has been high at some moment since the wait began, \<open>fresh\<close> whether the wait began with no token
  and no edge left over.
\<close>

record dreq =
  level :: bool
  pending :: bool
  token :: bool
  transfer_at :: transfer_at
  writing :: bool
  asked :: bool
  fresh :: bool

definition begin_wait :: "wait_no \<Rightarrow> dreq \<Rightarrow> dreq" where
  "begin_wait w s = s\<lparr>transfer_at := Look w, asked := level s, fresh := (\<not> token s \<and> \<not> pending s)\<rparr>"

inductive chip_step :: "dreq \<Rightarrow> dreq \<Rightarrow> bool" where
  rise: "\<not> level s \<Longrightarrow> chip_step s (s\<lparr>level := True, pending := True, asked := True\<rparr>)"
| fall: "level s \<Longrightarrow> chip_step s (s\<lparr>level := False\<rparr>)"

inductive dreq_isr :: "dreq \<Rightarrow> dreq \<Rightarrow> bool" where
  give: "pending s \<Longrightarrow> dreq_isr s (s\<lparr>pending := False, token := True\<rparr>)"

inductive wait_for_dreq :: "dreq \<Rightarrow> dreq \<Rightarrow> bool" where
  look_high: "transfer_at s = Look w \<Longrightarrow> level s \<Longrightarrow> wait_for_dreq s (s\<lparr>transfer_at := returned w\<rparr>)"
| look_low: "transfer_at s = Look w \<Longrightarrow> \<not> level s \<Longrightarrow> wait_for_dreq s (s\<lparr>transfer_at := Take w\<rparr>)"
| take_token: "transfer_at s = Take w \<Longrightarrow> token s \<Longrightarrow> wait_for_dreq s (s\<lparr>transfer_at := returned w, token := False\<rparr>)"

text \<open>The rest of \<open>write_sci\<close> and \<open>write_sdi\<close>, which write, and of \<open>read_sci\<close>, which does not.\<close>

inductive transfer :: "dreq \<Rightarrow> dreq \<Rightarrow> bool" where
  enter: "transfer_at s = Free \<Longrightarrow> transfer s (begin_wait Before (s\<lparr>writing := b\<rparr>))"
| send: "transfer_at s = Transmit \<Longrightarrow> writing s \<Longrightarrow> transfer s (begin_wait After s)"
| receive: "transfer_at s = Transmit \<Longrightarrow> \<not> writing s \<Longrightarrow> transfer s (s\<lparr>transfer_at := Free\<rparr>)"

inductive dreq_step :: "dreq \<Rightarrow> dreq \<Rightarrow> bool" where
  chip: "chip_step s s' \<Longrightarrow> dreq_step s s'"
| isr: "dreq_isr s s' \<Longrightarrow> dreq_step s s'"
| waits: "wait_for_dreq s s' \<Longrightarrow> dreq_step s s'"
| transfers: "transfer s s' \<Longrightarrow> dreq_step s s'"

definition dreq_begin :: "bool \<Rightarrow> dreq" where
  "dreq_begin l =
     \<lparr>level = l, pending = False, token = False, transfer_at = Free, writing = False, asked = False, fresh = False\<rparr>"

inductive reached :: "dreq \<Rightarrow> bool" where
  start: "reached (dreq_begin l)"
| step: "reached s \<Longrightarrow> dreq_step s s' \<Longrightarrow> reached s'"

inductive_cases dreq_step_cases: "dreq_step s s'"
inductive_cases chip_cases: "chip_step s s'"
inductive_cases isr_cases: "dreq_isr s s'"
inductive_cases wait_cases: "wait_for_dreq s s'"
inductive_cases transfer_cases: "transfer s s'"

lemmas dreq_cases = chip_cases isr_cases wait_cases transfer_cases

section \<open>The invariant\<close>

text \<open>
  A task that waits for the semaphore while the line is high has a token, or an edge that will bring one. A
  fresh wait that the line has not answered yet has neither, and is still waiting.
\<close>

definition dreq_inv :: "dreq \<Rightarrow> bool" where
  "dreq_inv s =
     ((\<forall>w. transfer_at s = Take w \<longrightarrow> level s \<longrightarrow> token s \<or> pending s) \<and>
      (fresh s \<longrightarrow> \<not> asked s \<longrightarrow> \<not> token s \<and> \<not> pending s \<and> \<not> level s \<and> (\<exists>w. transfer_at s = Look w \<or> transfer_at s = Take w)))"

lemma returned_not [simp]: "returned w \<noteq> Look w'" "returned w \<noteq> Take w'"
  by (cases w; simp)+

lemma dreq_inv_begin [inv_intros]: "dreq_inv (dreq_begin l)"
  by (simp add: dreq_inv_def dreq_begin_def)

lemma dreq_inv_step [inv_intros]: "dreq_inv s \<Longrightarrow> dreq_step s s' \<Longrightarrow> dreq_inv s'"
  by (erule dreq_step_cases; erule dreq_cases) (auto simp: dreq_inv_def begin_wait_def)

lemma dreq_inv_reached: "reached s \<Longrightarrow> dreq_inv s"
  by (induction rule: reached.induct) (auto intro: inv_intros)

text \<open>What takes the task out of its wait, once the line is high.\<close>

lemma wakes:
  assumes "transfer_at s = Take w" "token s \<or> pending s"
  shows "\<exists>s1 s2. dreq_isr\<^sup>*\<^sup>* s s1 \<and> wait_for_dreq s1 s2 \<and> transfer_at s2 = returned w"
proof (cases "token s")
  case True
  from take_token [OF assms(1) True] show ?thesis
    by (intro exI [of _ s] exI [of _ "s\<lparr>transfer_at := returned w, token := False\<rparr>"]) simp
next
  case False
  with assms(2) give [of s] have "dreq_isr\<^sup>*\<^sup>* s (s\<lparr>pending := False, token := True\<rparr>)" by auto
  moreover have "wait_for_dreq (s\<lparr>pending := False, token := True\<rparr>)
      (s\<lparr>pending := False, token := True, transfer_at := returned w, token := False\<rparr>)"
    using take_token [of "s\<lparr>pending := False, token := True\<rparr>" w] assms(1) by simp
  ultimately show ?thesis by fastforce
qed

section \<open>What the wait promises\<close>

text \<open>
  C10: No wake-up is lost, in whatever order chip, interrupt and task act: a task that waits for the semaphore
  while the chip asks for data needs nothing more of the chip to go on, only the interrupt that is under way; and a
  wait that began with no token left over ends only after the chip has asked for data.
\<close>

theorem dreq_wait_answers:
  assumes "reached s"
  shows "(transfer_at s = Take w \<longrightarrow> level s \<longrightarrow>
      (\<exists>s1 s2. dreq_isr\<^sup>*\<^sup>* s s1 \<and> wait_for_dreq s1 s2 \<and> transfer_at s2 = returned w)) \<and>
    (transfer_at s = Transmit \<or> transfer_at s = Free \<longrightarrow> fresh s \<longrightarrow> asked s)"
  using wakes dreq_inv_reached [OF assms] by (auto simp: dreq_inv_def)

text \<open>The task looks at the low line; the line rises while it is on its way to the semaphore.\<close>

definition between_look_and_take :: dreq where
  "between_look_and_take =
     \<lparr>level = True, pending = True, token = False, transfer_at = Take Before, writing = True, asked = True, fresh = True\<rparr>"

lemma between_reached: "reached between_look_and_take"
proof -
  let ?s1 = "begin_wait Before ((dreq_begin False)\<lparr>writing := True\<rparr>)"
  let ?s2 = "?s1\<lparr>transfer_at := Take Before\<rparr>"
  have "reached ?s1" by (rule reached.step [OF start transfers [OF enter]]) (simp add: dreq_begin_def)
  then have "reached ?s2"
    by (rule reached.step [OF _ waits [OF look_low]]) (simp_all add: begin_wait_def dreq_begin_def)
  then have "reached (?s2\<lparr>level := True, pending := True, asked := True\<rparr>)"
    by (rule reached.step [OF _ chip [OF rise]]) (simp add: begin_wait_def dreq_begin_def)
  then show ?thesis by (simp add: begin_wait_def dreq_begin_def between_look_and_take_def)
qed

theorem dreq_wait_answers_witness:
  "\<exists>s1 s2. dreq_isr\<^sup>*\<^sup>* between_look_and_take s1 \<and> wait_for_dreq s1 s2 \<and> transfer_at s2 = Transmit"
  using dreq_wait_answers [OF between_reached, of Before] by (simp add: between_look_and_take_def)

text \<open>
  A token can be left over: when the line rises between the begin of a wait and its look, the wait returns
  by the look and the token that the interrupt gives stays. The next wait takes it, although the line is low and has been
  since the wait began, and the transfer goes to a chip that cannot take it.
\<close>

definition stale :: "bool \<Rightarrow> transfer_at \<Rightarrow> bool \<Rightarrow> dreq" where
  "stale t p a =
     \<lparr>level = False, pending = False, token = t, transfer_at = p, writing = False, asked = a, fresh = a\<rparr>"

lemma token_left_over: "reached (stale True Free True)"
proof -
  let ?s1 = "begin_wait Before ((dreq_begin False)\<lparr>writing := False\<rparr>)"
  let ?s2 = "?s1\<lparr>level := True, pending := True, asked := True\<rparr>"
  let ?s3 = "?s2\<lparr>pending := False, token := True\<rparr>"
  let ?s4 = "?s3\<lparr>transfer_at := Transmit\<rparr>"
  note defs = begin_wait_def dreq_begin_def
  have "reached ?s1" by (rule reached.step [OF start transfers [OF enter]]) (simp add: dreq_begin_def)
  then have "reached ?s2" by (rule reached.step [OF _ chip [OF rise]]) (simp add: defs)
  then have "reached ?s3" by (rule reached.step [OF _ isr [OF give]]) (simp add: defs)
  moreover have "wait_for_dreq ?s3 ?s4" using look_high [of ?s3 Before] by (simp add: defs)
  ultimately have "reached ?s4" by (rule reached.step [OF _ waits])
  then have "reached (?s4\<lparr>transfer_at := Free\<rparr>)"
    by (rule reached.step [OF _ transfers [OF receive]]) (simp_all add: defs)
  then have "reached (?s4\<lparr>transfer_at := Free, level := False\<rparr>)"
    by (rule reached.step [OF _ chip [OF fall]]) (simp add: defs)
  then show ?thesis by (simp add: defs stale_def)
qed

lemma transfer_unasked: "\<exists>s. reached s \<and> transfer_at s = Transmit \<and> \<not> level s \<and> \<not> asked s"
proof -
  have "reached (begin_wait Before ((stale True Free True)\<lparr>writing := False\<rparr>))"
    by (rule reached.step [OF token_left_over transfers [OF enter]]) (simp add: stale_def)
  then have "reached (stale True (Look Before) False)" by (simp add: begin_wait_def stale_def)
  moreover have "wait_for_dreq (stale True (Look Before) False) (stale True (Take Before) False)"
    using look_low [of "stale True (Look Before) False" Before] by (simp add: stale_def)
  moreover have "wait_for_dreq (stale True (Take Before) False) (stale False Transmit False)"
    using take_token [of "stale True (Take Before) False" Before] by (simp add: stale_def)
  ultimately have "reached (stale False Transmit False)" by (blast intro: reached.step waits)
  then show ?thesis by (intro exI [of _ "stale False Transmit False"]) (simp add: stale_def)
qed

end
