(* ===== verification/YuarelParts.thy ===== *)
theory YuarelParts
  imports Yuarel
begin

text \<open>
  The two functions of \<open>src/firmware/components/libyuarel/yuarel.c\<close> that take a parsed URL further apart: the
  parts of a path and the parameters of a query. They cut the text in place, and the pointers they store are
  the pieces. Strings hold no NUL, and a delimiter is not NUL either. The limits are of type \<open>int\<close>.
\<close>

section \<open>The functions\<close>

lemma rest_shorter: "dropWhile P s = t \<Longrightarrow> split_char c t = Some (a, b) \<Longrightarrow> length b < length s"
  using length_dropWhile_le [of P s] by (auto simp: split_char_Some)

text \<open>The loop of \<open>yuarel_split_path\<close> with \<open>i\<close> parts stored; its test stands at its end.\<close>

function split_from :: "int \<Rightarrow> nat \<Rightarrow> string \<Rightarrow> string list" where
  "split_from max_parts i s =
     (case dropWhile (\<lambda>c. c = CHR ''/'') s of
        [] \<Rightarrow> []
      | c # p \<Rightarrow>
          (case split_char CHR ''/'' (c # p) of
             None \<Rightarrow> [c # p]
           | Some (a, b) \<Rightarrow> a # (if int (i + 1) < max_parts then split_from max_parts (i + 1) b else [])))"
  by pat_completeness auto
termination
  by (relation "measure (\<lambda>(m, i, s). length s)")
     (auto simp del: split_char.simps dest: rest_shorter)

declare split_from.simps [simp del]

text \<open>None for the answer -1.\<close>

definition yuarel_split_path :: "string option \<Rightarrow> int \<Rightarrow> string list option" where
  "yuarel_split_path path_text max_parts =
     (case path_text of
        None \<Rightarrow> None
      | Some p \<Rightarrow> if p = [] then None else Some (split_from max_parts 0 p))"

text \<open>The loop of \<open>yuarel_parse_query\<close> with \<open>i\<close> parameters begun, the last of them at \<open>q\<close>.\<close>

function params_from :: "int \<Rightarrow> char \<Rightarrow> nat \<Rightarrow> string \<Rightarrow> string list" where
  "params_from max_params delimiter i q =
     (if int i < max_params then
        (case split_char delimiter q of
           None \<Rightarrow> [q]
         | Some (a, b) \<Rightarrow> a # params_from max_params delimiter (i + 1) b)
      else [q])"
  by pat_completeness auto
termination by (relation "measure (\<lambda>(m, d, i, q). length q)") (auto simp: split_char_Some)

declare params_from.simps [simp del]

definition split_param :: "string \<Rightarrow> string \<times> string option" where
  "split_param p = (case split_char CHR ''='' p of None \<Rightarrow> (p, None) | Some (k, v) \<Rightarrow> (k, Some v))"

definition yuarel_parse_query :: "string option \<Rightarrow> char \<Rightarrow> int \<Rightarrow> (string \<times> string option) list option" where
  "yuarel_parse_query query_text delimiter max_params =
     (case query_text of
        None \<Rightarrow> None
      | Some q \<Rightarrow> if q = [] then None else Some (map split_param (params_from max_params delimiter 1 q)))"

section \<open>Paths\<close>

text \<open>The pieces between all occurrences of a character.\<close>

fun split_all :: "char \<Rightarrow> string \<Rightarrow> string list" where
  "split_all c [] = [[]]"
| "split_all c (x # xs) =
     (if x = c then [] # split_all c xs
      else (x # hd (split_all c xs)) # tl (split_all c xs))"

lemma split_all_nonempty [simp]: "split_all c s \<noteq> []"
  by (cases s) auto

lemma split_all_none: "c \<notin> set s \<Longrightarrow> split_all c s = [s]"
  by (induction s) auto

lemma split_all_some: "c \<notin> set a \<Longrightarrow> split_all c (a @ c # b) = a # split_all c b"
  by (induction a) auto

lemma words_skip:
  "filter (\<lambda>w. w \<noteq> []) (split_all c (dropWhile (\<lambda>x. x = c) s)) = filter (\<lambda>w. w \<noteq> []) (split_all c s)"
  by (induction s) auto

lemma split_from_words:
  "int i < max_parts \<or> i = 0 \<Longrightarrow>
   split_from max_parts i s = take (nat (max 1 (max_parts - int i))) (filter (\<lambda>w. w \<noteq> []) (split_all CHR ''/'' s))"
proof (induction max_parts i s rule: split_from.induct)
  case (1 m i s)
  note split_char.simps [simp del]
  show ?case
  proof (cases "dropWhile (\<lambda>c. c = CHR ''/'') s")
    case Nil
    then have "filter (\<lambda>w. w \<noteq> []) (split_all CHR ''/'' s) = []" using words_skip [of "CHR ''/''" s, unfolded Nil] by simp
    moreover have "split_from m i s = []" unfolding split_from.simps [of m i s] Nil by simp
    ultimately show ?thesis by simp
  next
    case (Cons c p)
    then have c: "c \<noteq> CHR ''/''" by (auto simp: dropWhile_eq_Cons_conv)
    obtain n where n: "nat (max 1 (m - int i)) = Suc n" by (cases "nat (max 1 (m - int i))") auto
    show ?thesis
    proof (cases "split_char CHR ''/'' (c # p)")
      case None
      then have "split_all CHR ''/'' (c # p) = [c # p]" by (intro split_all_none) simp
      with Cons None n show ?thesis
        unfolding words_skip [of "CHR ''/''" s, symmetric] by (simp add: split_from.simps [of m i s])
    next
      case (Some ab)
      then obtain a b where ab: "split_char CHR ''/'' (c # p) = Some (a, b)" by (cases ab) simp
      then have a: "c # p = a @ CHR ''/'' # b" "CHR ''/'' \<notin> set a" by (auto simp: split_char_Some)
      with c have "a \<noteq> []" by (cases a) auto
      with a Cons have w: "filter (\<lambda>w. w \<noteq> []) (split_all CHR ''/'' s) = a # filter (\<lambda>w. w \<noteq> []) (split_all CHR ''/'' b)"
        unfolding words_skip [of "CHR ''/''" s, symmetric] by (simp add: split_all_some)
      show ?thesis
      proof (cases "int (i + 1) < m")
        case True
        with n have "nat (max 1 (m - int (i + 1))) = n" by auto
        with 1(1) [OF Cons ab refl True] True w n ab Cons show ?thesis by (simp add: split_from.simps [of m i s])
      next
        case False
        with n 1(2) have "n = 0" by auto
        with False w n ab Cons show ?thesis by (simp add: split_from.simps [of m i s])
      qed
    qed
  qed
qed

text \<open>
  The parts of a path are its pieces between slashes, the empty ones left out, as far as the limit goes; a
  limit of zero or less counts as one, so one part is stored beyond an array of no places.
\<close>

theorem split_path_words:
  "p \<noteq> [] \<Longrightarrow>
   yuarel_split_path (Some p) max_parts =
     Some (take (nat (max 1 max_parts)) (filter (\<lambda>w. w \<noteq> []) (split_all CHR ''/'' p)))"
  by (simp add: yuarel_split_path_def split_from_words)

theorem split_path_words_witness:
  "yuarel_split_path (Some ''/a//bc/d'') 2 = Some [''a'', ''bc''] \<and> yuarel_split_path (Some ''/a//bc/d'') 0 = Some [''a'']"
  by (simp add: split_path_words)

section \<open>Queries\<close>

fun show_param :: "string \<times> string option \<Rightarrow> string" where
  "show_param (k, None) = k"
| "show_param (k, Some v) = k @ CHR ''='' # v"

fun join :: "char \<Rightarrow> string list \<Rightarrow> string" where
  "join d [] = []"
| "join d [w] = w"
| "join d (w # ws) = w @ d # join d ws"

definition param_ok :: "char \<Rightarrow> string \<times> string option \<Rightarrow> bool" where
  "param_ok d p = (d \<notin> set (fst p) \<and> CHR ''='' \<notin> set (fst p) \<and> (case snd p of None \<Rightarrow> True | Some v \<Rightarrow> d \<notin> set v))"

lemma split_param_show: "param_ok d p \<Longrightarrow> split_param (show_param p) = p"
  by (cases p; cases "snd p") (auto simp: param_ok_def split_param_def)

lemma show_param_plain: "param_ok d p \<Longrightarrow> d \<noteq> CHR ''='' \<Longrightarrow> d \<notin> set (show_param p)"
  by (cases p; cases "snd p") (auto simp: param_ok_def)

lemma params_from_join:
  "ws \<noteq> [] \<Longrightarrow> list_all (\<lambda>w. d \<notin> set w) ws \<Longrightarrow> int i + int (length ws) \<le> m + 1 \<Longrightarrow>
   params_from m d i (join d ws) = ws"
proof (induction d ws arbitrary: i rule: join.induct)
  case (2 d w)
  then show ?case by (simp add: params_from.simps [of m d i w])
next
  case (3 d w w' ws)
  then have "params_from m d (i + 1) (join d (w' # ws)) = w' # ws" by simp
  with 3 show ?case by (subst params_from.simps) simp
qed simp

text \<open>
  The parameters of a query that was put together from keys and values, none of which holds the delimiter
  and no key of which holds an equals sign, are those keys and values again, in order, those without a value
  included, whenever there are places for them.
\<close>

theorem query_roundtrip:
  assumes "list_all (param_ok d) ps" "d \<noteq> CHR ''=''" "int (length ps) \<le> max_params" "join d (map show_param ps) \<noteq> []"
  shows "yuarel_parse_query (Some (join d (map show_param ps))) d max_params = Some ps"
proof -
  have "list_all (\<lambda>w. d \<notin> set w) (map show_param ps)"
    using assms(1,2) by (auto simp: list_all_iff show_param_plain)
  moreover have "map show_param ps \<noteq> []" using assms(4) by auto
  ultimately have "params_from max_params d 1 (join d (map show_param ps)) = map show_param ps"
    using assms(3) by (intro params_from_join) auto
  moreover have "map (split_param \<circ> show_param) ps = ps"
    using assms(1) by (intro map_idI) (auto simp: list_all_iff split_param_show)
  ultimately show ?thesis using assms(4) by (simp add: yuarel_parse_query_def)
qed

theorem query_roundtrip_witness:
  "yuarel_parse_query (Some ''a=1&flag&b=x=y'') CHR ''&'' 3 = Some [(''a'', Some ''1''), (''flag'', None), (''b'', Some ''x=y'')]"
  using query_roundtrip [of "CHR ''&''" "[(''a'', Some ''1''), (''flag'', None), (''b'', Some ''x=y'')]" 3]
  by (simp add: param_ok_def)

end
