(* ===== verification/GateQueue.thy ===== *)
theory GateQueue
  imports Gate
begin

text \<open>
  The task of \<open>src/firmware/main/remote/gate.c\<close> over many rounds: the messages of the queue on their way to
  the server, while other tasks, and the commands that the answers carry, make new ones.
\<close>

section \<open>The task\<close>

text \<open>What other tasks report before a round.\<close>

fun send_all :: "(OutgoingCommand_t \<times> sent_callback option) list \<Rightarrow> system \<Rightarrow> system option" where
  "send_all [] s = Some s"
| "send_all ((cmd, cb) # cs) s = (case send cmd cb s of None \<Rightarrow> None | Some s1 \<Rightarrow> send_all cs s1)"

text \<open>
  The rounds, each with the reports made before it: the messages taken, with the number of attempts and
  whether the server accepted them, and the state. A restart ends the task.
\<close>

type_synonym gate_log = "(QueueMessage_t \<times> nat \<times> bool) list"

fun gate_thread ::
  "((OutgoingCommand_t \<times> sent_callback option) list \<times> world) list \<Rightarrow> system \<Rightarrow> (gate_log \<times> system) option" where
  "gate_thread [] s = Some ([], s)"
| "gate_thread ((reports, w) # rounds) s =
     (case send_all reports s of
        None \<Rightarrow> None
      | Some s0 \<Rightarrow>
          (case gate_round w s0 of
             None \<Rightarrow> gate_thread rounds s0
           | Some None \<Rightarrow> None
           | Some (Some (n, ok, s1)) \<Rightarrow>
               if sys_restarted s1 then Some ([(hd (sys_queue s0), n, ok)], s1)
               else map_option (\<lambda>(log, s2). ((hd (sys_queue s0), n, ok) # log, s2)) (gate_thread rounds s1)))"

section \<open>The queue only grows at its end\<close>

definition extends :: "system \<Rightarrow> system \<Rightarrow> bool" where
  "extends s s' = (\<exists>made. sys_queue s' = sys_queue s @ made \<and> (made = [] \<or> length (sys_queue s') \<le> QUEUE_LENGTH))"

lemma extends_same: "sys_queue s' = sys_queue s \<Longrightarrow> extends s s'"
  by (simp add: extends_def)

lemma extends_trans: "extends s s1 \<Longrightarrow> extends s1 s2 \<Longrightarrow> extends s s2"
  by (auto simp: extends_def)

lemma extends_from: "extends t s' \<Longrightarrow> sys_queue t = sys_queue s \<Longrightarrow> extends s s'"
  by (simp add: extends_def)

lemma send_extends: "send cmd cb s = Some s' \<Longrightarrow> extends s s'"
  by (auto simp: send_def outgoing_command_def queue_put_def extends_def split: if_splits)

lemma send_ack_extends: "send_ack ok seq m cb s = Some s' \<Longrightarrow> extends s s'"
  by (auto simp: send_ack_def Let_def intro: send_extends)

lemma send_all_extends: "send_all cs s = Some s' \<Longrightarrow> extends s s'"
proof (induction cs s rule: send_all.induct)
  case (2 cmd cb cs s)
  then show ?case by (auto split: option.splits intro: extends_trans send_extends)
qed (simp add: extends_same)

text \<open>The six handlers.\<close>

lemma update_setting_extends: "update_setting env t seq s = Some (r, s') \<Longrightarrow> extends s s'"
  by (auto simp: update_setting_def split: option.splits if_splits prod.splits bool.splits
      dest!: send_ack_extends intro: extends_from)

lemma update_playlist_extends: "update_playlist env d f seq s = Some (r, s') \<Longrightarrow> extends s s'"
  by (auto simp: update_playlist_def split: option.splits if_splits prod.splits bool.splits cptr.splits
      dest!: send_ack_extends intro: extends_from extends_same)

lemma firmware_update_start_extends: "firmware_update_start w url seq s = Some (r, s') \<Longrightarrow> extends s s'"
  by (auto simp: firmware_update_start_def Let_def split: option.splits if_splits prod.splits intro: extends_same)

lemma update_software_extends: "update_software env t seq s = Some (r, s') \<Longrightarrow> extends s s'"
  by (auto simp: update_software_def split: option.splits if_splits prod.splits
      dest!: firmware_update_start_extends intro: extends_from extends_same)

lemma deletion_extends:
  "delete_all_file seq s = Some (r, s') \<Longrightarrow> extends s s'"
  "delete_playlist seq s = Some (r, s') \<Longrightarrow> extends s s'"
  by (auto simp: delete_all_file_def delete_playlist_def Let_def split: prod.splits
      dest!: send_ack_extends intro: extends_from)

lemma reboot_extends: "reboot seq s = Some (r, s') \<Longrightarrow> extends s s'"
  by (auto simp: reboot_def intro: send_ack_extends)

lemmas handlers_extend = update_setting_extends update_playlist_extends update_software_extends deletion_extends
  reboot_extends

lemma execute_extends: "execute env c t d f seq s = Some (r, s') \<Longrightarrow> extends s s'"
  by (auto simp: execute_def intro: handlers_extend extends_same split: if_splits)

lemma and_remove_extends: "and_remove tf (Some (r, s1)) = Some (r', s') \<Longrightarrow> extends s1 s'"
  by (auto simp: and_remove_def intro: extends_same split: option.splits)

lemma incoming_command_extends:
  assumes "incoming_command env dat file seq s = Some (r, s')"
  shows "extends s s'"
proof -
  have e: "extends s s'" if "and_remove tf (execute env c t d f seq (s\<lparr>sys_files := fs1\<rparr>)) = Some (r, s')" for tf c t d f fs1
  proof -
    from that obtain r1 s1 where "execute env c t d f seq (s\<lparr>sys_files := fs1\<rparr>) = Some (r1, s1)"
      "and_remove tf (Some (r1, s1)) = Some (r, s')" by (auto simp: and_remove_def split: option.splits)
    then show ?thesis by (auto dest!: execute_extends and_remove_extends intro: extends_trans extends_from)
  qed
  have n: "extends s s'" if "and_remove tf (Some (Some False, s\<lparr>sys_files := fs1\<rparr>)) = Some (r, s')" for tf fs1
    using and_remove_extends [OF that] by (rule extends_from) simp
  from assms show ?thesis
    by (auto simp: incoming_command_def split: option.splits if_splits prod.splits bool.splits cptr.splits
        dest: execute_extends e n intro: extends_same)
qed

lemma run_callback_extends: "run_callback cb ok s = Some s' \<Longrightarrow> extends s s'"
  by (auto simp: run_callback_def sent_callback_def remove_nvs_sequence_callback_def
      split: option.splits sent_callback.splits if_splits intro!: extends_same)

lemma http_post_cmd_queue: "http_post_cmd cl a w d q s = Some (st, r, s') \<Longrightarrow> sys_queue s' = sys_queue s"
  by (auto simp: http_post_cmd_def split: option.splits prod.splits)

lemma gate_attempt_extends:
  assumes "gate_attempt w k msg s = Some (ok, s')"
  shows "extends s s'"
proof -
  obtain st r s1 where p: "http_post_cmd (client w k) (app w) (tmp w k) (data msg) (sequence msg) s = Some (st, r, s1)"
    using assms by (auto simp: gate_attempt_def split: option.splits)
  have on: "extends s1 (status_set_online b s2)" if "extends s1 s2" for b s2
    using that by (simp add: extends_def status_set_online_def)
  have kept: "extends s1 s'" if "run_callback cb b (status_set_online o2 s2) = Some s'" "extends s1 s2" for cb b o2 s2
    using extends_trans [OF on [OF that(2)] run_callback_extends [OF that(1)]] .
  have "extends s1 s'"
  proof (cases "good_status st")
    case False
    with assms p kept [OF _ extends_same] show ?thesis by (auto simp: gate_attempt_def)
  next
    case True
    with assms p obtain r2 s2 where i: "incoming_command (around w k) (cstr (rsp_data r)) (rsp_datafile r) (rsp_sequence r) s1 =
        Some (r2, s2)"
      by (auto simp: gate_attempt_def split: option.splits)
    from i assms p True kept [OF _ incoming_command_extends [OF i]] incoming_command_extends [OF i] show ?thesis
      by (auto simp: gate_attempt_def split: if_splits)
  qed
  with http_post_cmd_queue [OF p] show ?thesis by (simp add: extends_def)
qed

lemma send_loop_extends: "send_loop w k retries msg s = Some (n, ok, s') \<Longrightarrow> extends s s'"
proof (induction w k retries msg s rule: send_loop.induct)
  case (2 w k retries msg s)
  from 2(2) obtain b s1 where a: "gate_attempt w k msg s = Some (b, s1)" by (auto split: option.splits)
  show ?case
  proof (cases "b \<or> sys_restarted s1")
    case True
    with 2(2) a gate_attempt_extends [OF a] show ?thesis by auto
  next
    case False
    with 2(2) a have "send_loop w (Suc k) retries msg s1 = Some (n, ok, s')" by simp
    from extends_trans [OF gate_attempt_extends [OF a] 2(1) [OF a refl False this]] show ?thesis .
  qed
qed (auto dest: gate_attempt_extends)

lemma gate_round_queue:
  assumes "gate_round w s = Some (Some (n, ok, s'))"
  shows "\<exists>msg q made. sys_queue s = msg # q \<and> sys_queue s' = q @ made \<and> (made = [] \<or> length (q @ made) \<le> QUEUE_LENGTH) \<and>
    1 \<le> n \<and> n \<le> unat (max_retries msg) + 1"
proof -
  from assms obtain msg q where q: "sys_queue s = msg # q"
    "send_loop w 0 (unat (max_retries msg)) msg (s\<lparr>sys_queue := q\<rparr>) = Some (n, ok, s')"
    by (auto simp: gate_round_def queue_receive_def split: option.splits list.splits)
  from send_loop_extends [OF q(2)] obtain made where
    "sys_queue s' = q @ made" "made = [] \<or> length (q @ made) \<le> QUEUE_LENGTH" by (auto simp: extends_def)
  moreover have "1 \<le> n" "n \<le> unat (max_retries msg) + 1" using send_loop_attempts [OF q(2)] by simp_all
  ultimately show ?thesis using q(1) by blast
qed

text \<open>What the log of a run has to do with the queue before and after it.\<close>

definition log_ok :: "system \<Rightarrow> gate_log \<Rightarrow> system \<Rightarrow> bool" where
  "log_ok s log s' =
     ((\<exists>made. map fst log @ sys_queue s' = sys_queue s @ made) \<and>
      list_all (\<lambda>(msg, n, ok). 1 \<le> n \<and> n \<le> unat (max_retries msg) + 1) log \<and>
      length (sys_queue s') \<le> QUEUE_LENGTH)"

lemma log_ok_Nil: "length (sys_queue s) \<le> QUEUE_LENGTH \<Longrightarrow> log_ok s [] s"
  by (simp add: log_ok_def)

lemma log_ok_made:
  assumes "log_ok s0 log s'" "sys_queue s0 = sys_queue s @ made"
  shows "log_ok s log s'"
  using assms by (auto simp: log_ok_def)

lemma log_ok_Cons:
  assumes "log_ok s1 log s'" "sys_queue s0 = msg # q" "sys_queue s1 = q @ made"
    and "1 \<le> n" "n \<le> unat (max_retries msg) + 1"
  shows "log_ok s0 ((msg, n, ok) # log) s'"
  using assms by (auto simp: log_ok_def)

lemma gate_thread_log:
  "gate_thread rounds s = Some (log, s') \<Longrightarrow> length (sys_queue s) \<le> QUEUE_LENGTH \<Longrightarrow> log_ok s log s'"
proof (induction rounds s arbitrary: log rule: gate_thread.induct)
  case (2 reports w rounds s)
  from 2(3) obtain s0 where s0: "send_all reports s = Some s0" by (auto split: option.splits)
  from send_all_extends [OF s0] 2(4) obtain made0 where m0: "sys_queue s0 = sys_queue s @ made0"
    "length (sys_queue s0) \<le> QUEUE_LENGTH" by (auto simp: extends_def)
  have "log_ok s0 log s'"
  proof (cases "gate_round w s0")
    case None
    with 2(1) [OF s0 None _ m0(2)] 2(3) s0 show ?thesis by simp
  next
    case (Some r)
    with 2(3) s0 obtain n ok s1 where r: "gate_round w s0 = Some (Some (n, ok, s1))" by (cases r) auto
    from gate_round_queue [OF r] obtain msg q made where q: "sys_queue s0 = msg # q" "sys_queue s1 = q @ made"
      "made = [] \<or> length (q @ made) \<le> QUEUE_LENGTH" "1 \<le> n" "n \<le> unat (max_retries msg) + 1" by blast
    have l: "length (sys_queue s1) \<le> QUEUE_LENGTH" using q m0(2) by auto
    show ?thesis
    proof (cases "sys_restarted s1")
      case True
      with 2(3) s0 r q(1) have "log = [(msg, n, ok)]" "s' = s1" by auto
      with log_ok_Cons [OF log_ok_Nil [OF l] q(1,2,4,5)] show ?thesis by simp
    next
      case False
      with 2(3) s0 r q(1) obtain log1 where log1: "gate_thread rounds s1 = Some (log1, s')" "log = (msg, n, ok) # log1"
        by (auto split: option.splits)
      from log_ok_Cons [OF 2(2) [OF s0 r refl refl refl False log1(1) l] q(1,2,4,5)] log1(2) show ?thesis by simp
    qed
  qed
  with m0(1) show ?case by (rule log_ok_made [rotated])
qed (simp add: log_ok_Nil)

text \<open>
  C3: The reports reach the server in the order in which they were made. In every run of the task, whatever
  the other tasks report meanwhile, whatever the server answers and whichever commands it sends, the messages
  that were taken, followed by those that wait, are those that waited at first, followed by the new ones: none is
  lost from the queue, taken twice or overtaken; each is posted at least once and at most once more than its retries;
  and the queue never holds more than its length.
\<close>

theorem reports_in_order:
  assumes "gate_thread rounds s = Some (log, s')" "length (sys_queue s) \<le> QUEUE_LENGTH"
  shows "(\<exists>made. map fst log @ sys_queue s' = sys_queue s @ made) \<and>
    list_all (\<lambda>(msg, n, ok). 1 \<le> n \<and> n \<le> unat (max_retries msg) + 1) log \<and>
    length (sys_queue s') \<le> QUEUE_LENGTH"
  using gate_thread_log [OF assms] by (simp add: log_ok_def)

section \<open>Draining\<close>

text \<open>
  A server that is silent for \<open>j\<close> attempts and then accepts a request, when the text that it carries is that
  of the message, with an empty answer.
\<close>

definition accepts_after :: "nat \<Rightarrow> world \<Rightarrow> QueueMessage_t \<Rightarrow> bool" where
  "accepts_after j w msg =
     ((\<forall>i<j. silent_at w i) \<and> (\<exists>st. good_status st \<and> (\<forall>req. req_post_field req = data msg \<longrightarrow> client w j req = ([], Some st))))"

lemma no_command: "find_string ''command'' [] = None"
  by code_simp

lemma accepted_attempt:
  assumes "can_post (sys_nvs s)" "accepts_after j w msg" "QueueMessage_t.callback msg = None" "\<not> sys_restarted s"
  shows "\<exists>n. can_post n \<and> gate_attempt w j msg s = Some (True, s\<lparr>sys_nvs := n, sys_online := True\<rparr>)"
proof -
  from assms(2) obtain st where st: "good_status st" "\<And>req. req_post_field req = data msg \<Longrightarrow> client w j req = ([], Some st)"
    by (auto simp: accepts_after_def)
  from http_post_cmd_healthy [OF assms(1), of "data msg" "client w j" "app w" "tmp w j" "sequence msg"] st(2)
  obtain n where "can_post n" "http_post_cmd (client w j) (app w) (tmp w j) (data msg) (sequence msg) s =
      Some (st, http_response_zero, s\<lparr>sys_nvs := n\<rparr>)" by auto
  then show ?thesis
    using st(1) assms(3,4)
    by (intro exI [of _ n])
       (simp add: gate_attempt_def http_response_zero_def incoming_command_def no_command run_callback_def
         status_set_online_def cstr_def)
qed

lemma accepted_round:
  assumes "can_post (sys_nvs s)" "accepts_after j w msg" "QueueMessage_t.callback msg = None" "\<not> sys_restarted s"
    and "sys_queue s = msg # q" "j \<le> unat (max_retries msg)"
  shows "\<exists>n. can_post n \<and> gate_round w s = Some (Some (Suc j, True, s\<lparr>sys_queue := q, sys_nvs := n, sys_online := True\<rparr>))"
proof -
  let ?s = "s\<lparr>sys_queue := q\<rparr>"
  have "silent_at w (0 + i)" if "i < j" for i using assms(2) that by (simp add: accepts_after_def)
  from silent_attempts [of ?s j w 0 msg "unat (max_retries msg)", OF _ this assms(3,6)] assms(1,4)
  obtain n0 on where n0: "can_post n0" "send_loop w 0 (unat (max_retries msg)) msg ?s =
      send_loop w j (unat (max_retries msg) - j) msg (?s\<lparr>sys_nvs := n0, sys_online := on\<rparr>)" by auto
  from accepted_attempt [of "?s\<lparr>sys_nvs := n0, sys_online := on\<rparr>" j w msg] n0(1) assms(2,3,4)
  obtain n where n: "can_post n" "gate_attempt w j msg (?s\<lparr>sys_nvs := n0, sys_online := on\<rparr>) =
      Some (True, ?s\<lparr>sys_nvs := n, sys_online := True\<rparr>)" by auto
  then have "send_loop w j r msg (?s\<lparr>sys_nvs := n0, sys_online := on\<rparr>) = Some (Suc j, True, ?s\<lparr>sys_nvs := n, sys_online := True\<rparr>)"
    for r by (cases r) simp_all
  with n0(2) n(1) assms(5) show ?thesis by (auto simp: gate_round_def queue_receive_def)
qed


section \<open>A run\<close>

text \<open>A server that misses the first attempt and accepts the second.\<close>

definition late_world :: world where
  "late_world = sample_world\<lparr>client := (\<lambda>k _. ([], if k = 0 then None else Some 200))\<rparr>"

lemma late_accepts: "accepts_after 1 late_world msg"
  by (auto simp: accepts_after_def late_world_def silent_at_def Gate.good_status_def intro: exI [of _ 200])

definition two_waiting :: system where
  "two_waiting = sample_system\<lparr>sys_queue := [power_on_message, power_on_message\<lparr>sequence := 7\<rparr>]\<rparr>"

lemma two_waiting_simps:
  "sys_queue two_waiting = [power_on_message, power_on_message\<lparr>sequence := 7\<rparr>]" "sys_nvs two_waiting = fresh_nvs"
  "\<not> sys_restarted two_waiting" "sys_device two_waiting = sample_device"
  by (simp_all add: two_waiting_def)


text \<open>The first message, a report made meanwhile, the second message.\<close>

lemma run_with_report:
  "\<exists>log s'. gate_thread [([], late_world), ([(NOW_PLAYING, None)], late_world)] two_waiting = Some (log, s')"
proof -
  let ?msg = "power_on_message\<lparr>sequence := 7\<rparr>"
  obtain n where n: "can_post n" "gate_round late_world two_waiting =
      Some (Some (Suc 1, True, two_waiting\<lparr>sys_queue := [?msg], sys_nvs := n, sys_online := True\<rparr>))"
    using accepted_round [of two_waiting, OF _ late_accepts [of power_on_message]]
    by (auto simp: two_waiting_simps can_post_fresh power_on_message_fields)
  let ?s1 = "two_waiting\<lparr>sys_queue := [?msg], sys_nvs := n, sys_online := True\<rparr>"
  obtain m where m: "send NOW_PLAYING None ?s1 = Some (?s1\<lparr>sys_queue := [?msg, m]\<rparr>)"
    using outgoing_command_message [OF printable_sample, of NOW_PLAYING None "[?msg]"]
    by (auto simp: send_def queue_put_def QUEUE_LENGTH_def two_waiting_simps)
  obtain n' where "gate_round late_world (?s1\<lparr>sys_queue := [?msg, m]\<rparr>) =
      Some (Some (Suc 1, True, ?s1\<lparr>sys_queue := [m], sys_nvs := n', sys_online := True\<rparr>))"
    using accepted_round [of "?s1\<lparr>sys_queue := [?msg, m]\<rparr>", OF _ late_accepts [of ?msg]] n(1)
    by (auto simp: two_waiting_simps power_on_message_fields)
  with n(2) m show ?thesis by (simp add: two_waiting_simps)
qed

theorem reports_in_order_witness:
  "\<exists>log s' made. gate_thread [([], late_world), ([(NOW_PLAYING, None)], late_world)] two_waiting = Some (log, s') \<and>
     map fst log @ sys_queue s' = sys_queue two_waiting @ made \<and> length (sys_queue s') \<le> QUEUE_LENGTH"
proof -
  obtain log s' where r: "gate_thread [([], late_world), ([(NOW_PLAYING, None)], late_world)] two_waiting = Some (log, s')"
    using run_with_report by blast
  have "length (sys_queue two_waiting) \<le> QUEUE_LENGTH" by (simp add: two_waiting_simps QUEUE_LENGTH_def)
  from reports_in_order [OF r this] r show ?thesis by blast
qed

end
